(* ===== verification/Prelude.thy ===== *)
theory Prelude
  imports Main "HOL-Library.Word" "HOL-Library.Mapping"
begin

text \<open>
  Shared vocabulary of the development: the machine integers of the Rust sources, byte strings and
  their little- and big-endian codecs, the parts of the Rust standard library that the sources use
  (UTF-8 validation, ASCII case folding, slice and string helpers), and the generic lemmas on lists
  and words that the component theories share.

  Conventions.  A Rust \<^verbatim>\<open>u8\<close>/\<^verbatim>\<open>u16\<close>/\<^verbatim>\<open>u32\<close>/\<^verbatim>\<open>u64\<close> is a word of that width.  A \<^verbatim>\<open>usize\<close> is a
  \<^typ>\<open>nat\<close>; where the sources compute with sizes that come from the wire the wrap-around modulo
  $2^{64}$ is written out.  \<^verbatim>\<open>&[u8]\<close>, \<^verbatim>\<open>Vec<u8>\<close>, \<^verbatim>\<open>Bytes\<close> and \<^verbatim>\<open>BytesMut\<close> are byte lists.  A Rust
  \<^verbatim>\<open>String\<close>/\<^verbatim>\<open>&str\<close> is a HOL \<^typ>\<open>string\<close> whose characters are the bytes of its UTF-8 encoding.
  \<^verbatim>\<open>Option\<close> is \<^typ>\<open>'a option\<close>; \<^verbatim>\<open>Result<T, E>\<close> is a sum with the error on the left.
\<close>

unbundle bit_operations_syntax

named_theorems codec \<open>round trips and lengths of byte-level encodings\<close>
named_theorems frame_simps \<open>which part of a state an operation leaves unchanged\<close>

type_synonym u8 = "8 word"
type_synonym u16 = "16 word"
type_synonym u32 = "32 word"
type_synonym u64 = "64 word"
type_synonym usize = nat
type_synonym bytes = "u8 list"

section \<open>Integer codecs of the standard library\<close>

text \<open>
  \<^verbatim>\<open>to_le_bytes\<close>, \<^verbatim>\<open>to_be_bytes\<close>, \<^verbatim>\<open>from_le_bytes\<close> and \<^verbatim>\<open>from_be_bytes\<close> of the unsigned integer types,
  over one pair of radix-256 conversions.
\<close>

primrec le_nat :: "bytes \<Rightarrow> nat" where
  "le_nat [] = 0"
| "le_nat (b # bs) = unat b + 256 * le_nat bs"

primrec le_bytes :: "nat \<Rightarrow> nat \<Rightarrow> bytes" where
  "le_bytes 0 n = []"
| "le_bytes (Suc k) n = of_nat n # le_bytes k (n div 256)"

definition u16_from_le_bytes :: "bytes \<Rightarrow> u16" where
  "u16_from_le_bytes bs = of_nat (le_nat bs)"

definition u16_from_be_bytes :: "bytes \<Rightarrow> u16" where
  "u16_from_be_bytes bs = of_nat (le_nat (rev bs))"

definition u32_from_le_bytes :: "bytes \<Rightarrow> u32" where
  "u32_from_le_bytes bs = of_nat (le_nat bs)"

definition u64_from_be_bytes :: "bytes \<Rightarrow> u64" where
  "u64_from_be_bytes bs = of_nat (le_nat (rev bs))"

definition u16_to_le_bytes :: "u16 \<Rightarrow> bytes" where
  "u16_to_le_bytes w = le_bytes 2 (unat w)"

definition u16_to_be_bytes :: "u16 \<Rightarrow> bytes" where
  "u16_to_be_bytes w = rev (le_bytes 2 (unat w))"

definition u32_to_le_bytes :: "u32 \<Rightarrow> bytes" where
  "u32_to_le_bytes w = le_bytes 4 (unat w)"

definition u64_to_be_bytes :: "u64 \<Rightarrow> bytes" where
  "u64_to_be_bytes w = rev (le_bytes 8 (unat w))"

lemma unat_u8_less [simp]: "unat (b :: u8) < 256"
  using unsigned_less [of b] by simp

lemma unat_u16_less [simp]: "unat (w :: u16) < 65536"
  using unsigned_less [of w] by simp

lemma unat_u32_less [simp]: "unat (w :: u32) < 4294967296"
  using unsigned_less [of w] by simp

lemma unat_u64_less [simp]: "unat (w :: u64) < 18446744073709551616"
  using unsigned_less [of w] by simp

lemma unat_u32_eq_iff [simp]: "unat (v :: u32) = unat w \<longleftrightarrow> v = w"
  by (simp add: word_unat_eq_iff)

lemma length_le_bytes [codec, simp]: "length (le_bytes k n) = k"
  by (induction k arbitrary: n) auto

lemma le_nat_le_bytes [codec]: "le_nat (le_bytes k n) = n mod 256 ^ k"
proof (induction k arbitrary: n)
  case (Suc k)
  have "unat (of_nat n :: u8) = n mod 256"
    by (simp add: unat_of_nat)
  then show ?case
    using Suc.IH [of "n div 256"] by (simp add: mod_mult2_eq)
qed simp

lemma le_nat_less [codec]: "le_nat bs < 256 ^ length bs"
proof (induction bs)
  case (Cons b bs)
  then have "256 * Suc (le_nat bs) \<le> 256 * 256 ^ length bs"
    by (intro mult_le_mono2) simp
  then show ?case
    using unat_u8_less [of b] unfolding le_nat.simps length_Cons power_Suc mult_Suc_right 
    by (metis add_strict_right_mono order_less_le_trans)
qed simp

lemma le_bytes_le_nat [codec]: "le_bytes (length bs) (le_nat bs) = bs"
proof (induction bs)
  case (Cons b bs)
  have "of_nat (unat b + 256 * le_nat bs) = (b :: u8)"
  proof -
    have "unat (of_nat (unat b + 256 * le_nat bs) :: u8) = unat b"
      by (simp add: unat_of_nat del: of_nat_add of_nat_mult)
    then show ?thesis
      by (simp only: word_unat_eq_iff)
  qed
  moreover have "(unat b + 256 * le_nat bs) div 256 = le_nat bs"
    by simp
  ultimately show ?case
    using Cons.IH by simp
qed simp

lemma u16_le_roundtrip [codec]: "u16_from_le_bytes (u16_to_le_bytes w) = w"
  by (simp add: u16_from_le_bytes_def u16_to_le_bytes_def le_nat_le_bytes)

lemma u16_be_roundtrip [codec]: "u16_from_be_bytes (u16_to_be_bytes w) = w"
  by (simp add: u16_from_be_bytes_def u16_to_be_bytes_def le_nat_le_bytes)

lemma u32_le_roundtrip [codec]: "u32_from_le_bytes (u32_to_le_bytes w) = w"
  by (simp add: u32_from_le_bytes_def u32_to_le_bytes_def le_nat_le_bytes)

lemma u64_be_roundtrip [codec]: "u64_from_be_bytes (u64_to_be_bytes w) = w"
  by (simp add: u64_from_be_bytes_def u64_to_be_bytes_def le_nat_le_bytes)

lemma length_to_bytes [codec, simp]:
  "length (u16_to_le_bytes p) = 2" "length (u16_to_be_bytes p) = 2"
  "length (u32_to_le_bytes w) = 4" "length (u64_to_be_bytes d) = 8"
  by (simp_all add: u16_to_le_bytes_def u16_to_be_bytes_def u32_to_le_bytes_def u64_to_be_bytes_def)

lemma unat_of_le_nat:
  "length bs = 2 \<Longrightarrow> unat (of_nat (le_nat bs) :: u16) = le_nat bs"
  "length bs = 4 \<Longrightarrow> unat (of_nat (le_nat bs) :: u32) = le_nat bs"
  "length bs = 8 \<Longrightarrow> unat (of_nat (le_nat bs) :: u64) = le_nat bs"
  using le_nat_less [of bs] by (simp_all add: unat_of_nat)

lemma le_bytes_le_nat_length [codec]: "length bs = k \<Longrightarrow> le_bytes k (le_nat bs) = bs"
  using le_bytes_le_nat [of bs] by simp

lemma to_bytes_from_bytes [codec]:
  "length bs = 2 \<Longrightarrow> u16_to_le_bytes (u16_from_le_bytes bs) = bs"
  "length bs = 2 \<Longrightarrow> u16_to_be_bytes (u16_from_be_bytes bs) = bs"
  "length bs = 4 \<Longrightarrow> u32_to_le_bytes (u32_from_le_bytes bs) = bs"
  "length bs = 8 \<Longrightarrow> u64_to_be_bytes (u64_from_be_bytes bs) = bs"
  by (simp_all add: u16_to_le_bytes_def u16_from_le_bytes_def u16_to_be_bytes_def
      u16_from_be_bytes_def u32_to_le_bytes_def u32_from_le_bytes_def u64_to_be_bytes_def
      u64_from_be_bytes_def unat_of_le_nat le_bytes_le_nat_length)

text \<open>The four bytes of a little-endian word, read back one by one as the sources do.\<close>

lemma list4_nth: "length xs = 4 \<Longrightarrow> [xs ! 0, xs ! Suc 0, xs ! 2, xs ! 3] = xs"
  by (auto simp: length_Suc_conv numeral_eq_Suc)

lemma list2_nth: "length xs = 2 \<Longrightarrow> [xs ! 0, xs ! Suc 0] = xs"
  by (auto simp: length_Suc_conv numeral_eq_Suc)

lemma list8_nth:
  "length xs = 8 \<Longrightarrow>
   [xs ! 0, xs ! Suc 0, xs ! 2, xs ! 3, xs ! 4, xs ! 5, xs ! 6, xs ! 7] = xs"
  by (auto simp: length_Suc_conv numeral_eq_Suc)

section \<open>Strings\<close>

text \<open>
  \<^verbatim>\<open>std::str::from_utf8\<close> accepts exactly the well-formed byte sequences of RFC 3629: no overlong
  forms, no surrogates, nothing above U+10FFFF.
\<close>

definition utf8_cont :: "u8 \<Rightarrow> bool" where
  "utf8_cont b \<longleftrightarrow> 0x80 \<le> b \<and> b \<le> 0xBF"

fun utf8_valid :: "bytes \<Rightarrow> bool" where
  "utf8_valid [] = True"
| "utf8_valid (b # bs) =
     (if b \<le> 0x7F then utf8_valid bs
      else if 0xC2 \<le> b \<and> b \<le> 0xDF then
        (case bs of c1 # rest \<Rightarrow> utf8_cont c1 \<and> utf8_valid rest | _ \<Rightarrow> False)
      else if 0xE0 \<le> b \<and> b \<le> 0xEF then
        (case bs of c1 # c2 # rest \<Rightarrow>
           (if b = 0xE0 then 0xA0 \<le> c1 \<and> c1 \<le> 0xBF
            else if b = 0xED then 0x80 \<le> c1 \<and> c1 \<le> 0x9F else utf8_cont c1)
           \<and> utf8_cont c2 \<and> utf8_valid rest | _ \<Rightarrow> False)
      else if 0xF0 \<le> b \<and> b \<le> 0xF4 then
        (case bs of c1 # c2 # c3 # rest \<Rightarrow>
           (if b = 0xF0 then 0x90 \<le> c1 \<and> c1 \<le> 0xBF
            else if b = 0xF4 then 0x80 \<le> c1 \<and> c1 \<le> 0x8F else utf8_cont c1)
           \<and> utf8_cont c2 \<and> utf8_cont c3 \<and> utf8_valid rest | _ \<Rightarrow> False)
      else False)"

definition char_of_byte :: "u8 \<Rightarrow> char" where
  "char_of_byte b = char_of (unat b)"

definition byte_of_char :: "char \<Rightarrow> u8" where
  "byte_of_char c = of_nat (of_char c)"

definition as_bytes :: "string \<Rightarrow> bytes" where
  "as_bytes s = map byte_of_char s"

definition from_utf8 :: "bytes \<Rightarrow> string option" where
  "from_utf8 bs = (if utf8_valid bs then Some (map char_of_byte bs) else None)"

lemma byte_of_char_of_byte [simp]: "byte_of_char (char_of_byte b) = b"
  by (simp add: byte_of_char_def char_of_byte_def of_char_of)

lemma char_of_byte_of_char [simp]: "char_of_byte (byte_of_char c) = c"
proof -
  have "of_char c < (256 :: nat)" by (cases c) simp
  then have "unat (of_nat (of_char c) :: u8) = of_char c"
    by (simp add: unat_of_nat)
  then show ?thesis by (simp add: byte_of_char_def char_of_byte_def)
qed

lemma from_utf8_as_bytes [codec]:
  "from_utf8 (as_bytes s) = (if utf8_valid (as_bytes s) then Some s else None)"
  by (simp add: from_utf8_def as_bytes_def comp_def)

lemma as_bytes_from_utf8 [codec]: "from_utf8 bs = Some s \<Longrightarrow> as_bytes s = bs"
  by (auto simp: from_utf8_def as_bytes_def comp_def split: if_splits)

lemma length_as_bytes [codec, simp]: "length (as_bytes s) = length s"
  by (simp add: as_bytes_def)

text \<open>\<^verbatim>\<open>to_ascii_lowercase\<close> maps the bytes of \<open>A\<close> to \<open>Z\<close> and leaves every other byte alone.\<close>

definition ascii_lower :: "char \<Rightarrow> char" where
  "ascii_lower c =
     (let n = of_char c :: nat in if 65 \<le> n \<and> n \<le> 90 then char_of (n + 32) else c)"

definition to_ascii_lowercase :: "string \<Rightarrow> string" where
  "to_ascii_lowercase s = map ascii_lower s"

lemma ascii_lower_idem [simp]: "ascii_lower (ascii_lower c) = ascii_lower c"
  by (auto simp: ascii_lower_def Let_def of_char_of)

lemma to_ascii_lowercase_idem [simp]:
  "to_ascii_lowercase (to_ascii_lowercase s) = to_ascii_lowercase s"
  by (simp add: to_ascii_lowercase_def comp_def)

definition starts_with :: "string \<Rightarrow> string \<Rightarrow> bool" where
  "starts_with s p \<longleftrightarrow> take (length p) s = p"

definition strip_prefix :: "string \<Rightarrow> string \<Rightarrow> string option" where
  "strip_prefix s p = (if starts_with s p then Some (drop (length p) s) else None)"

section \<open>Slices and vectors\<close>

text \<open>
  \<^verbatim>\<open>buf[i..i + xs.len()].copy_from_slice(xs)\<close>: the sources only write inside the buffer.
\<close>

definition copy_at :: "nat \<Rightarrow> 'a list \<Rightarrow> 'a list \<Rightarrow> 'a list" where
  "copy_at i xs buf = take i buf @ xs @ drop (i + length xs) buf"

lemma length_copy_at [simp]: "i + length xs \<le> length buf \<Longrightarrow> length (copy_at i xs buf) = length buf"
  by (simp add: copy_at_def)

lemma sum_list_map_length: "sum_list (map length xss) = length (concat xss)"
  by (simp add: length_concat)

lemma lookup_delete': "Mapping.lookup (Mapping.delete k m) j = (if j = k then None else Mapping.lookup m j)"
  by auto

end
