(* ===== verification/Config.thy ===== *)
theory Config
  imports Prelude
begin

text \<open>
  Server configuration, \<^verbatim>\<open>src/server/config.rs\<close>: the JSON schema structs as serde delivers them, the
  runtime \<open>ServerConfig\<close>, its defaults and derived values, the host and port filters, and the merge of
  a JSON configuration over the defaults.  Reading and deserialising the file is I/O and serde, so a
  \<open>JsonConfig\<close> value is the input here.
\<close>

section \<open>JSON schema\<close>

datatype PortEntry = Single u16 | Range u16 u16

record JsonFilterList =
  jf_hostnames :: "string list"
  jf_ports :: "PortEntry list"

record JsonAuth =
  ja_required :: bool
  ja_users :: "(string, string) mapping"

record JsonDns =
  jd_servers :: "string list"
  jd_ttl :: "u64 option"
  jd_result_order :: "string option"

record JsonRealIp =
  jr_enabled :: bool
  jr_trusted_proxies :: "string list"
  jr_headers :: "string list"

record JsonConfig =
  js_bind :: "string option"
  js_workers :: "usize option"
  js_buffer_size :: "u32 option"
  js_tcp_no_delay :: "bool option"
  js_allow_loopback :: "bool option"
  js_allow_direct_ip :: "bool option"
  js_allow_private_ips :: "bool option"
  js_max_streams :: "usize option"
  js_max_frame_size :: "usize option"
  js_prod :: "bool option"
  js_blacklist :: "JsonFilterList option"
  js_whitelist :: "JsonFilterList option"
  js_auth :: "JsonAuth option"
  js_dns :: "JsonDns option"
  js_real_ip :: "JsonRealIp option"
  js_log_level :: "string option"
  js_log_format :: "string option"
  js_max_connections :: "usize option"
  js_idle_timeout_secs :: "u64 option"
  js_max_connections_per_ip :: "usize option"
  js_connection_window_secs :: "u64 option"
  js_ws_ping_interval_secs :: "u64 option"
  js_ws_pong_timeout_secs :: "u64 option"
  js_tcp_keepalive_secs :: "u64 option"

section \<open>Runtime configuration\<close>

record ServerConfig =
  cfg_buffer_size :: u32
  cfg_tcp_nodelay :: bool
  cfg_allow_loopback :: bool
  cfg_allow_direct_ip :: bool
  cfg_allow_private_ips :: bool
  cfg_max_streams :: usize
  cfg_max_frame_size :: usize
  cfg_auth_password :: "string option"
  cfg_auth_users :: "(string, string) mapping"
  cfg_auth_required :: bool
  cfg_prod_mode :: bool
  cfg_blacklist_hostnames :: "string set"
  cfg_blacklist_ports :: "u16 set"
  cfg_whitelist_hostnames :: "string set"
  cfg_whitelist_ports :: "u16 set"
  cfg_dns_servers :: "string list"
  cfg_dns_ttl :: u64
  cfg_dns_result_order :: string
  cfg_real_ip_enabled :: bool
  cfg_real_ip_trusted_proxies :: "string list"
  cfg_real_ip_headers :: "string list"
  cfg_log_level :: string
  cfg_log_format :: string
  cfg_max_connections :: usize
  cfg_idle_timeout_secs :: u64
  cfg_max_connections_per_ip :: usize
  cfg_connection_window_secs :: u64
  cfg_ws_ping_interval_secs :: u64
  cfg_ws_pong_timeout_secs :: u64
  cfg_tcp_keepalive_secs :: u64

definition ServerConfig_default :: ServerConfig where
  "ServerConfig_default = \<lparr>
     cfg_buffer_size = 65535,
     cfg_tcp_nodelay = True,
     cfg_allow_loopback = True,
     cfg_allow_direct_ip = True,
     cfg_allow_private_ips = True,
     cfg_max_streams = 0,
     cfg_max_frame_size = 0,
     cfg_auth_password = None,
     cfg_auth_users = Mapping.empty,
     cfg_auth_required = False,
     cfg_prod_mode = False,
     cfg_blacklist_hostnames = {},
     cfg_blacklist_ports = {},
     cfg_whitelist_hostnames = {},
     cfg_whitelist_ports = {},
     cfg_dns_servers = [],
     cfg_dns_ttl = 120,
     cfg_dns_result_order = ''ipv4first'',
     cfg_real_ip_enabled = False,
     cfg_real_ip_trusted_proxies = [],
     cfg_real_ip_headers = [],
     cfg_log_level = ''info'',
     cfg_log_format = ''text'',
     cfg_max_connections = 0,
     cfg_idle_timeout_secs = 0,
     cfg_max_connections_per_ip = 0,
     cfg_connection_window_secs = 60,
     cfg_ws_ping_interval_secs = 0,
     cfg_ws_pong_timeout_secs = 10,
     cfg_tcp_keepalive_secs = 0\<rparr>"

text \<open>
  The product is taken in 64 bits, where $(2^{32} - 1) \cdot 9$ does not overflow; the final
  \<^verbatim>\<open>as u32\<close> truncates.
\<close>

definition continue_threshold :: "ServerConfig \<Rightarrow> u32" where
  "continue_threshold c =
     ucast (max ((ucast (cfg_buffer_size c) * 9) div 10) (1 :: u64))"

definition is_auth_required :: "ServerConfig \<Rightarrow> bool" where
  "is_auth_required c \<longleftrightarrow>
     cfg_auth_required c \<or> \<not> Mapping.is_empty (cfg_auth_users c) \<or> cfg_auth_password c \<noteq> None"

definition apply_prod_defaults :: "ServerConfig \<Rightarrow> ServerConfig" where
  "apply_prod_defaults c0 =
     (let c1 = (if cfg_max_connections c0 = 0 then c0\<lparr>cfg_max_connections := 8192\<rparr> else c0);
          c2 = (if cfg_idle_timeout_secs c1 = 0 then c1\<lparr>cfg_idle_timeout_secs := 300\<rparr> else c1);
          c3 = (if cfg_max_connections_per_ip c2 = 0
                then c2\<lparr>cfg_max_connections_per_ip := 64\<rparr> else c2);
          c4 = (if cfg_connection_window_secs c3 = 60
                then c3\<lparr>cfg_connection_window_secs := 60\<rparr> else c3);
          c5 = (if cfg_ws_ping_interval_secs c4 = 0
                then c4\<lparr>cfg_ws_ping_interval_secs := 30\<rparr> else c4);
          c6 = (if cfg_ws_pong_timeout_secs c5 = 10
                then c5\<lparr>cfg_ws_pong_timeout_secs := 10\<rparr> else c5)
      in if cfg_tcp_keepalive_secs c6 = 0 then c6\<lparr>cfg_tcp_keepalive_secs := 60\<rparr> else c6)"

definition has_filters :: "ServerConfig \<Rightarrow> bool" where
  "has_filters c \<longleftrightarrow>
     cfg_blacklist_hostnames c \<noteq> {} \<or> cfg_blacklist_ports c \<noteq> {}
     \<or> cfg_whitelist_hostnames c \<noteq> {} \<or> cfg_whitelist_ports c \<noteq> {}"

definition is_hostname_blocked :: "ServerConfig \<Rightarrow> string \<Rightarrow> bool" where
  "is_hostname_blocked c hostname =
     (let hostname_lower = to_ascii_lowercase hostname in
      if cfg_whitelist_hostnames c \<noteq> {} then hostname_lower \<notin> cfg_whitelist_hostnames c
      else if cfg_blacklist_hostnames c \<noteq> {} then hostname_lower \<in> cfg_blacklist_hostnames c
      else False)"

definition is_port_blocked :: "ServerConfig \<Rightarrow> u16 \<Rightarrow> bool" where
  "is_port_blocked c p =
     (if cfg_whitelist_ports c \<noteq> {} then p \<notin> cfg_whitelist_ports c
      else if cfg_blacklist_ports c \<noteq> {} then p \<in> cfg_blacklist_ports c
      else False)"

section \<open>Loading\<close>

fun expand_ports :: "PortEntry list \<Rightarrow> u16 set" where
  "expand_ports [] = {}"
| "expand_ports (Single p # es) = insert p (expand_ports es)"
| "expand_ports (Range start stop # es) =
     (let (lo, hi) = (if start \<le> stop then (start, stop) else (stop, start))
      in {lo..hi} \<union> expand_ports es)"

text \<open>
  Reading a file and deserialising its text, with the displayed errors; the file system may change between two
  reads.
\<close>

record 'w file_system =
  fs_read_to_string :: "string \<Rightarrow> 'w \<Rightarrow> (string + string) \<times> 'w"
  fs_from_str :: "string \<Rightarrow> string + JsonConfig"

definition load_json_config :: "'w file_system \<Rightarrow> string \<Rightarrow> 'w \<Rightarrow> (string + JsonConfig) \<times> 'w" where
  "load_json_config fs path w =
     (case fs_read_to_string fs path w of
        (Inl e, w') \<Rightarrow> (Inl (''Failed to read config file '' @ path @ '': '' @ e), w')
      | (Inr contents, w') \<Rightarrow>
          ((case fs_from_str fs contents of
              Inl e \<Rightarrow> Inl (''Failed to parse config file '' @ path @ '': '' @ e)
            | Inr json \<Rightarrow> Inr json), w'))"

lemma load_json_config_Inr:
  "load_json_config fs path w = (Inr json, w') \<Longrightarrow>
   \<exists>contents. fs_read_to_string fs path w = (Inr contents, w') \<and> fs_from_str fs contents = Inr json"
  by (auto simp: load_json_config_def split: prod.splits sum.splits)

text \<open>\<^verbatim>\<open>if let Some(v) = field { config.x = v }\<close>.\<close>

definition override :: "'a option \<Rightarrow> ('a \<Rightarrow> 'c \<Rightarrow> 'c) \<Rightarrow> 'c \<Rightarrow> 'c" where
  "override v upd c = (case v of None \<Rightarrow> c | Some x \<Rightarrow> upd x c)"

definition lower_set :: "string list \<Rightarrow> string set" where
  "lower_set hs = set (map to_ascii_lowercase hs)"

definition merge_json_config :: "JsonConfig \<Rightarrow> ServerConfig" where
  "merge_json_config json =
     (let c = ServerConfig_default;
          c = override (js_buffer_size json) (\<lambda>v c. c\<lparr>cfg_buffer_size := v\<rparr>) c;
          c = override (js_tcp_no_delay json) (\<lambda>v c. c\<lparr>cfg_tcp_nodelay := v\<rparr>) c;
          c = override (js_allow_loopback json) (\<lambda>v c. c\<lparr>cfg_allow_loopback := v\<rparr>) c;
          c = override (js_allow_direct_ip json) (\<lambda>v c. c\<lparr>cfg_allow_direct_ip := v\<rparr>) c;
          c = override (js_allow_private_ips json) (\<lambda>v c. c\<lparr>cfg_allow_private_ips := v\<rparr>) c;
          c = override (js_max_streams json) (\<lambda>v c. c\<lparr>cfg_max_streams := v\<rparr>) c;
          c = override (js_max_frame_size json) (\<lambda>v c. c\<lparr>cfg_max_frame_size := v\<rparr>) c;
          c = override (js_prod json) (\<lambda>v c. c\<lparr>cfg_prod_mode := v\<rparr>) c;
          c = override (js_log_level json) (\<lambda>v c. c\<lparr>cfg_log_level := v\<rparr>) c;
          c = override (js_log_format json) (\<lambda>v c. c\<lparr>cfg_log_format := v\<rparr>) c;
          c = override (js_max_connections json) (\<lambda>v c. c\<lparr>cfg_max_connections := v\<rparr>) c;
          c = override (js_idle_timeout_secs json) (\<lambda>v c. c\<lparr>cfg_idle_timeout_secs := v\<rparr>) c;
          c = override (js_max_connections_per_ip json)
                (\<lambda>v c. c\<lparr>cfg_max_connections_per_ip := v\<rparr>) c;
          c = override (js_connection_window_secs json)
                (\<lambda>v c. c\<lparr>cfg_connection_window_secs := v\<rparr>) c;
          c = override (js_ws_ping_interval_secs json)
                (\<lambda>v c. c\<lparr>cfg_ws_ping_interval_secs := v\<rparr>) c;
          c = override (js_ws_pong_timeout_secs json)
                (\<lambda>v c. c\<lparr>cfg_ws_pong_timeout_secs := v\<rparr>) c;
          c = override (js_tcp_keepalive_secs json) (\<lambda>v c. c\<lparr>cfg_tcp_keepalive_secs := v\<rparr>) c;
          c = override (js_blacklist json)
                (\<lambda>bl c. c\<lparr>cfg_blacklist_hostnames := lower_set (jf_hostnames bl),
                          cfg_blacklist_ports := expand_ports (jf_ports bl)\<rparr>) c;
          c = override (js_whitelist json)
                (\<lambda>wl c. c\<lparr>cfg_whitelist_hostnames := lower_set (jf_hostnames wl),
                          cfg_whitelist_ports := expand_ports (jf_ports wl)\<rparr>) c;
          c = override (js_auth json)
                (\<lambda>auth c. c\<lparr>cfg_auth_required := ja_required auth,
                            cfg_auth_users := ja_users auth\<rparr>) c;
          c = override (js_dns json)
                (\<lambda>dns c. override (jd_result_order dns) (\<lambda>v c. c\<lparr>cfg_dns_result_order := v\<rparr>)
                   (override (jd_ttl dns) (\<lambda>v c. c\<lparr>cfg_dns_ttl := v\<rparr>)
                     (c\<lparr>cfg_dns_servers := jd_servers dns\<rparr>))) c
      in override (js_real_ip json)
           (\<lambda>rip c. c\<lparr>cfg_real_ip_enabled := jr_enabled rip,
                      cfg_real_ip_trusted_proxies := jr_trusted_proxies rip,
                      cfg_real_ip_headers := jr_headers rip\<rparr>) c)"

section \<open>Lemmas\<close>

lemma override_simps [simp]: "override None f c = c" "override (Some v) f c = f v c"
  by (simp_all add: override_def)

lemma continue_threshold_nat:
  "unat (continue_threshold c) = max (unat (cfg_buffer_size c) * 9 div 10) 1"
proof -
  let ?n = "unat (cfg_buffer_size c)"
  let ?m = "max ((ucast (cfg_buffer_size c) * 9) div 10) (1 :: u64)"
  have n: "?n < 4294967296" by simp
  then have "?n < 2 ^ 64"
    by (rule order_less_trans) simp
  then have "unat (ucast (cfg_buffer_size c) :: u64) = ?n"
    by (simp only: unsigned_ucast_eq take_bit_nat_eq_self) (simp add: take_bit_nat_eq_self)
  moreover have "?n * 9 < 18446744073709551616"
    using n by linarith
  ultimately have "unat (ucast (cfg_buffer_size c) * 9 :: u64) = ?n * 9"
    by (simp add: unat_word_ariths)
  then have "unat ((ucast (cfg_buffer_size c) * 9 :: u64) div 10) = ?n * 9 div 10"
    by (simp only: unat_div) simp
  then have "unat ?m = max (?n * 9 div 10) 1"
    by (simp add: max_def word_le_nat_alt)
  moreover have "?n * 9 div 10 < 4294967296"
    using n by linarith
  ultimately show ?thesis
    by (simp only: continue_threshold_def unsigned_ucast_eq) (simp add: take_bit_nat_eq_self)
qed

definition port_in :: "PortEntry list \<Rightarrow> u16 \<Rightarrow> bool" where
  "port_in es p \<longleftrightarrow>
     (\<exists>e \<in> set es. case e of Single q \<Rightarrow> p = q | Range a b \<Rightarrow> min a b \<le> p \<and> p \<le> max a b)"

lemma mem_expand_ports: "p \<in> expand_ports es \<longleftrightarrow> port_in es p"
  by (induction es rule: expand_ports.induct)
    (auto simp: port_in_def min_def max_def Let_def split: if_splits)

lemma expand_ports_empty_iff: "expand_ports es = {} \<longleftrightarrow> es = []"
  by (cases es rule: expand_ports.cases) (auto simp: Let_def)

lemma lower_set_empty_iff [simp]: "lower_set hs = {} \<longleftrightarrow> hs = []"
  by (simp add: lower_set_def)

text \<open>An override leaves a field alone when its update does.\<close>

lemma override_frame [frame_simps]:
  "(\<And>x c. cfg_whitelist_hostnames (f x c) = cfg_whitelist_hostnames c) \<Longrightarrow>
     cfg_whitelist_hostnames (override v f c) = cfg_whitelist_hostnames c"
  "(\<And>x c. cfg_blacklist_hostnames (f x c) = cfg_blacklist_hostnames c) \<Longrightarrow>
     cfg_blacklist_hostnames (override v f c) = cfg_blacklist_hostnames c"
  "(\<And>x c. cfg_whitelist_ports (f x c) = cfg_whitelist_ports c) \<Longrightarrow>
     cfg_whitelist_ports (override v f c) = cfg_whitelist_ports c"
  "(\<And>x c. cfg_blacklist_ports (f x c) = cfg_blacklist_ports c) \<Longrightarrow>
     cfg_blacklist_ports (override v f c) = cfg_blacklist_ports c"
  by (simp_all add: override_def split: option.splits)

definition listed_hosts :: "JsonFilterList option \<Rightarrow> string list" where
  "listed_hosts fl = (case fl of None \<Rightarrow> [] | Some l \<Rightarrow> jf_hostnames l)"

definition listed_ports :: "JsonFilterList option \<Rightarrow> PortEntry list" where
  "listed_ports fl = (case fl of None \<Rightarrow> [] | Some l \<Rightarrow> jf_ports l)"

lemma merged_filters:
  "cfg_whitelist_hostnames (merge_json_config j) = lower_set (listed_hosts (js_whitelist j))"
  "cfg_blacklist_hostnames (merge_json_config j) = lower_set (listed_hosts (js_blacklist j))"
  "cfg_whitelist_ports (merge_json_config j) = expand_ports (listed_ports (js_whitelist j))"
  "cfg_blacklist_ports (merge_json_config j) = expand_ports (listed_ports (js_blacklist j))"
  by (cases "js_whitelist j"; cases "js_blacklist j";
      simp add: merge_json_config_def Let_def frame_simps ServerConfig_default_def listed_hosts_def
        listed_ports_def lower_set_def)+

section \<open>Properties\<close>

text \<open>The CONTINUE threshold is nine tenths of the buffer, rounded down, but at least one packet; it
  never exceeds a non-zero buffer, so a client that spends its credits always earns a CONTINUE.\<close>

theorem continue_threshold_bounds:
  "unat (continue_threshold c) = max (unat (cfg_buffer_size c) * 9 div 10) 1 \<and>
   1 \<le> unat (continue_threshold c) \<and>
   (cfg_buffer_size c \<noteq> 0 \<longrightarrow> continue_threshold c \<le> cfg_buffer_size c)"
proof -
  have "cfg_buffer_size c \<noteq> 0 \<Longrightarrow> 1 \<le> unat (cfg_buffer_size c)"
    by (metis less_one not_le unat_eq_zero)
  then show ?thesis
    unfolding word_le_nat_alt continue_threshold_nat by auto
qed

theorem continue_threshold_bounds_witness:
  "cfg_buffer_size ServerConfig_default \<noteq> 0 \<and>
   continue_threshold ServerConfig_default \<le> cfg_buffer_size ServerConfig_default"
proof -
  have "cfg_buffer_size ServerConfig_default \<noteq> 0"
    by (simp add: ServerConfig_default_def)
  with continue_threshold_bounds [of ServerConfig_default] show ?thesis
    by blast
qed

text \<open>C25. Filter policy of a loaded configuration: a non-empty whitelist admits exactly its entries and
  the blacklist is then ignored; otherwise exactly the blacklisted entries are refused.  Host names
  compare without regard to ASCII case, port ranges are inclusive and may be written in either order.\<close>

theorem filter_policy:
  "(is_hostname_blocked (merge_json_config j) h \<longleftrightarrow>
     (let wl = listed_hosts (js_whitelist j); bl = listed_hosts (js_blacklist j);
          lists = (\<lambda>hs. \<exists>x \<in> set hs. to_ascii_lowercase h = to_ascii_lowercase x)
      in if wl \<noteq> [] then \<not> lists wl else lists bl)) \<and>
   (is_port_blocked (merge_json_config j) p \<longleftrightarrow>
     (let wl = listed_ports (js_whitelist j); bl = listed_ports (js_blacklist j)
      in if wl \<noteq> [] then \<not> port_in wl p else port_in bl p))"
  (is "?hosts \<and> ?ports")
proof
  show ?hosts
    by (auto simp: is_hostname_blocked_def merged_filters lower_set_def image_iff Let_def)
  show ?ports
    by (auto simp: is_port_blocked_def merged_filters expand_ports_empty_iff mem_expand_ports
        Let_def port_in_def)
qed

end
