(* ===== verification/Net_Addr.thy ===== *)
theory Net_Addr
  imports Prelude
begin

text \<open>
  The address types of \<^verbatim>\<open>std::net\<close> that the sources use: \<^verbatim>\<open>Ipv4Addr\<close>, \<^verbatim>\<open>Ipv6Addr\<close>, \<^verbatim>\<open>IpAddr\<close>,
  \<^verbatim>\<open>SocketAddr\<close>, their classification methods and their \<^verbatim>\<open>FromStr\<close> parsers, together with the string
  operations \<^verbatim>\<open>trim\<close>, \<^verbatim>\<open>find\<close>, \<^verbatim>\<open>split\<close> and \<^verbatim>\<open>parse::<u8>\<close>.  These model the standard library and have no
  counterpart under \<^verbatim>\<open>src/\<close>; \<^verbatim>\<open>Security\<close>, \<^verbatim>\<open>Dns\<close> and \<^verbatim>\<open>Connection\<close> use them.
\<close>

datatype Ipv4Addr = Ipv4 u8 u8 u8 u8

text \<open>An IPv6 address by its eight 16-bit segments.\<close>

datatype Ipv6Addr = Ipv6 u16 u16 u16 u16 u16 u16 u16 u16

datatype IpAddr = V4 Ipv4Addr | V6 Ipv6Addr

record SocketAddr =
  sa_ip :: IpAddr
  sa_port :: u16

section \<open>Classification\<close>

fun v4_is_loopback :: "Ipv4Addr \<Rightarrow> bool" where
  "v4_is_loopback (Ipv4 a b c d) \<longleftrightarrow> a = 127"

fun v4_is_private :: "Ipv4Addr \<Rightarrow> bool" where
  "v4_is_private (Ipv4 a b c d) \<longleftrightarrow>
     a = 10 \<or> (a = 172 \<and> 16 \<le> b \<and> b \<le> 31) \<or> (a = 192 \<and> b = 168)"

fun v4_is_unspecified :: "Ipv4Addr \<Rightarrow> bool" where
  "v4_is_unspecified (Ipv4 a b c d) \<longleftrightarrow> a = 0 \<and> b = 0 \<and> c = 0 \<and> d = 0"

fun v4_is_link_local :: "Ipv4Addr \<Rightarrow> bool" where
  "v4_is_link_local (Ipv4 a b c d) \<longleftrightarrow> a = 169 \<and> b = 254"

definition v6_is_loopback :: "Ipv6Addr \<Rightarrow> bool" where
  "v6_is_loopback v6 \<longleftrightarrow> v6 = Ipv6 0 0 0 0 0 0 0 1"

definition v6_is_unspecified :: "Ipv6Addr \<Rightarrow> bool" where
  "v6_is_unspecified v6 \<longleftrightarrow> v6 = Ipv6 0 0 0 0 0 0 0 0"

fun v6_segments :: "Ipv6Addr \<Rightarrow> u16 list" where
  "v6_segments (Ipv6 a b c d e f g h) = [a, b, c, d, e, f, g, h]"

definition hi8 :: "u16 \<Rightarrow> u8" where
  "hi8 w = of_nat (unat w div 256)"

definition lo8 :: "u16 \<Rightarrow> u8" where
  "lo8 w = of_nat (unat w)"

text \<open>\<^verbatim>\<open>to_ipv4_mapped\<close>: the \<open>::ffff:a.b.c.d\<close> form only.\<close>

fun to_ipv4_mapped :: "Ipv6Addr \<Rightarrow> Ipv4Addr option" where
  "to_ipv4_mapped (Ipv6 a b c d e f g h) =
     (if a = 0 \<and> b = 0 \<and> c = 0 \<and> d = 0 \<and> e = 0 \<and> f = 0xffff
      then Some (Ipv4 (hi8 g) (lo8 g) (hi8 h) (lo8 h)) else None)"

definition mapped :: "Ipv4Addr \<Rightarrow> Ipv6Addr" where
  "mapped v4 = (case v4 of Ipv4 a b c d \<Rightarrow>
     Ipv6 0 0 0 0 0 0xffff (of_nat (256 * unat a + unat b)) (of_nat (256 * unat c + unat d)))"

lemma hi8_lo8_of_nat:
  "hi8 (of_nat (256 * unat (a :: u8) + unat (b :: u8))) = a"
  "lo8 (of_nat (256 * unat a + unat b)) = b"
proof -
  have "256 * unat a + unat b < 65536"
    using unat_u8_less [of a] unat_u8_less [of b] by linarith
  then have "unat (of_nat (256 * unat a + unat b) :: u16) = 256 * unat a + unat b"
    by (simp add: unat_of_nat del: of_nat_add of_nat_mult)
  moreover have "unat (of_nat (256 * unat a + unat b) :: u8) = unat b"
    by (simp add: unat_of_nat del: of_nat_add of_nat_mult)
  ultimately show "hi8 (of_nat (256 * unat a + unat b)) = a"
    and "lo8 (of_nat (256 * unat a + unat b)) = b"
    by (simp_all add: hi8_def lo8_def word_unat_eq_iff [of _ b] del: of_nat_add of_nat_mult)
qed

lemma to_ipv4_mapped_mapped [simp]: "to_ipv4_mapped (mapped v4) = Some v4"
  by (cases v4) (simp add: mapped_def hi8_lo8_of_nat del: of_nat_add of_nat_mult)

section \<open>Number and address parsers\<close>

type_synonym 'a reader = "string \<Rightarrow> ('a \<times> string) option"

text \<open>\<^verbatim>\<open>char::to_digit\<close>.\<close>

definition to_digit :: "nat \<Rightarrow> char \<Rightarrow> nat option" where
  "to_digit radix c =
     (let n = of_char c :: nat;
          d = (if 48 \<le> n \<and> n \<le> 57 then n - 48
               else if 97 \<le> n \<and> n \<le> 122 then n - 87
               else if 65 \<le> n \<and> n \<le> 90 then n - 55 else radix)
      in if d < radix then Some d else None)"

text \<open>
  \<^verbatim>\<open>Parser::read_number\<close> with a digit limit: it reads digits while there are any, fails on more than
  \<open>max_digits\<close>, on none, on a leading zero when that is not allowed, and above \<open>bound\<close>.
\<close>

fun read_digits :: "nat \<Rightarrow> nat \<Rightarrow> nat \<Rightarrow> nat \<Rightarrow> string \<Rightarrow> (nat \<times> nat \<times> string) option" where
  "read_digits radix max_digits acc count [] = Some (acc, count, [])"
| "read_digits radix max_digits acc count (c # cs) =
     (case to_digit radix c of
        None \<Rightarrow> Some (acc, count, c # cs)
      | Some d \<Rightarrow> if count + 1 > max_digits then None
                  else read_digits radix max_digits (acc * radix + d) (count + 1) cs)"

definition read_number :: "nat \<Rightarrow> nat \<Rightarrow> bool \<Rightarrow> nat \<Rightarrow> nat reader" where
  "read_number radix max_digits allow_zero_prefix bound s =
     (case read_digits radix max_digits 0 0 s of
        None \<Rightarrow> None
      | Some (n, count, rest) \<Rightarrow>
          if count = 0 then None
          else if \<not> allow_zero_prefix \<and> take 1 s = ''0'' \<and> count > 1 then None
          else if n > bound then None else Some (n, rest))"

definition read_given_char :: "char \<Rightarrow> unit reader" where
  "read_given_char c s = (case s of [] \<Rightarrow> None | x # xs \<Rightarrow> if x = c then Some ((), xs) else None)"

definition read_separator :: "char \<Rightarrow> nat \<Rightarrow> 'a reader \<Rightarrow> 'a reader" where
  "read_separator sep index inner s =
     (if index > 0 then (case read_given_char sep s of None \<Rightarrow> None | Some (_, rest) \<Rightarrow> inner rest)
      else inner s)"

definition read_octet :: "nat \<Rightarrow> u8 reader" where
  "read_octet i s = map_option (\<lambda>(n, rest). (of_nat n, rest))
     (read_separator (CHR ''.'') i (read_number 10 3 False 255) s)"

definition read_ipv4_addr :: "Ipv4Addr reader" where
  "read_ipv4_addr s =
     (case read_octet 0 s of None \<Rightarrow> None | Some (a, s1) \<Rightarrow>
      case read_octet 1 s1 of None \<Rightarrow> None | Some (b, s2) \<Rightarrow>
      case read_octet 2 s2 of None \<Rightarrow> None | Some (c, s3) \<Rightarrow>
      case read_octet 3 s3 of None \<Rightarrow> None | Some (d, s4) \<Rightarrow> Some (Ipv4 a b c d, s4))"

text \<open>
  \<^verbatim>\<open>read_groups\<close>: up to \<open>k\<close> more groups, group \<open>i\<close> next; an embedded IPv4 address is tried wherever two
  groups are left and ends the reading.
\<close>

fun read_groups :: "nat \<Rightarrow> nat \<Rightarrow> u16 list \<Rightarrow> string \<Rightarrow> u16 list \<times> bool \<times> string" where
  "read_groups 0 i groups s = (groups, False, s)"
| "read_groups (Suc k) i groups s =
     (case (if k \<ge> 1 then read_separator (CHR '':'') i read_ipv4_addr s else None) of
        Some (Ipv4 a b c d, rest) \<Rightarrow>
          (groups @ [of_nat (256 * unat a + unat b), of_nat (256 * unat c + unat d)], True, rest)
      | None \<Rightarrow>
          (case read_separator (CHR '':'') i (read_number 16 4 True 65535) s of
             Some (g, rest) \<Rightarrow> read_groups k (Suc i) (groups @ [of_nat g]) rest
           | None \<Rightarrow> (groups, False, s)))"

fun ipv6_of_groups :: "u16 list \<Rightarrow> Ipv6Addr option" where
  "ipv6_of_groups [a, b, c, d, e, f, g, h] = Some (Ipv6 a b c d e f g h)"
| "ipv6_of_groups _ = None"

definition read_ipv6_addr :: "Ipv6Addr reader" where
  "read_ipv6_addr s =
     (case read_groups 8 0 [] s of (hd_groups, head_ipv4, s1) \<Rightarrow>
      if length hd_groups = 8 then map_option (\<lambda>a. (a, s1)) (ipv6_of_groups hd_groups)
      else if head_ipv4 then None
      else case read_given_char (CHR '':'') s1 of None \<Rightarrow> None | Some (_, s2) \<Rightarrow>
      case read_given_char (CHR '':'') s2 of None \<Rightarrow> None | Some (_, s3) \<Rightarrow>
      case read_groups (8 - (length hd_groups + 1)) 0 [] s3 of (tl_groups, _, s4) \<Rightarrow>
        map_option (\<lambda>a. (a, s4))
          (ipv6_of_groups
             (hd_groups @ replicate (8 - length hd_groups - length tl_groups) 0 @ tl_groups)))"

text \<open>\<^verbatim>\<open>parse_with\<close> accepts only if the whole input was read.\<close>

definition parse_with :: "'a reader \<Rightarrow> string \<Rightarrow> 'a option" where
  "parse_with r s = (case r s of Some (x, []) \<Rightarrow> Some x | _ \<Rightarrow> None)"

definition parse_Ipv4Addr :: "string \<Rightarrow> Ipv4Addr option" where
  "parse_Ipv4Addr s = (if length s > 15 then None else parse_with read_ipv4_addr s)"

definition parse_Ipv6Addr :: "string \<Rightarrow> Ipv6Addr option" where
  "parse_Ipv6Addr s = parse_with read_ipv6_addr s"

definition parse_IpAddr :: "string \<Rightarrow> IpAddr option" where
  "parse_IpAddr s = parse_with
     (\<lambda>s. case read_ipv4_addr s of
        Some (a, rest) \<Rightarrow> Some (V4 a, rest)
      | None \<Rightarrow> map_option (\<lambda>(a, rest). (V6 a, rest)) (read_ipv6_addr s)) s"

text \<open>\<^verbatim>\<open>str::parse\<close> to an unsigned type: an optional plus sign, then decimal digits, at most \<open>bound\<close>.\<close>

fun parse_decimal :: "nat \<Rightarrow> nat \<Rightarrow> string \<Rightarrow> nat option" where
  "parse_decimal bound acc [] = Some acc"
| "parse_decimal bound acc (c # cs) =
     (case to_digit 10 c of
        None \<Rightarrow> None
      | Some d \<Rightarrow> if acc * 10 + d > bound then None else parse_decimal bound (acc * 10 + d) cs)"

definition parse_unsigned :: "nat \<Rightarrow> string \<Rightarrow> nat option" where
  "parse_unsigned bound s =
     (if s = [] \<or> s = ''+'' \<or> s = ''-'' then None
      else parse_decimal bound 0 (if take 1 s = ''+'' then drop 1 s else s))"

definition parse_u8 :: "string \<Rightarrow> u8 option" where
  "parse_u8 s = map_option of_nat (parse_unsigned 255 s)"

text \<open>
  \<^verbatim>\<open>str::parse::<SocketAddr>\<close>: an IPv4 address, or an IPv6 address in brackets with an optional scope, and a port.
  The scope is read and not kept.
\<close>

definition read_port :: "u16 reader" where
  "read_port s =
     (case read_given_char (CHR '':'') s of None \<Rightarrow> None | Some (_, s1) \<Rightarrow>
        map_option (\<lambda>(n, rest). (of_nat n, rest)) (read_number 10 (length s1) True 65535 s1))"

definition skip_scope_id :: "string \<Rightarrow> string" where
  "skip_scope_id s =
     (case read_given_char (CHR ''%'') s of None \<Rightarrow> s | Some (_, s1) \<Rightarrow>
        (case read_number 10 (length s1) True (2 ^ 32 - 1) s1 of None \<Rightarrow> s | Some (_, s2) \<Rightarrow> s2))"

definition read_socket_addr_v4 :: "SocketAddr reader" where
  "read_socket_addr_v4 s =
     (case read_ipv4_addr s of None \<Rightarrow> None | Some (ip, s1) \<Rightarrow>
        map_option (\<lambda>(port, rest). (\<lparr>sa_ip = V4 ip, sa_port = port\<rparr>, rest)) (read_port s1))"

definition read_socket_addr_v6 :: "SocketAddr reader" where
  "read_socket_addr_v6 s =
     (case read_given_char (CHR ''['') s of None \<Rightarrow> None | Some (_, s1) \<Rightarrow>
      case read_ipv6_addr s1 of None \<Rightarrow> None | Some (ip, s2) \<Rightarrow>
      case read_given_char (CHR '']'') (skip_scope_id s2) of None \<Rightarrow> None | Some (_, s3) \<Rightarrow>
        map_option (\<lambda>(port, rest). (\<lparr>sa_ip = V6 ip, sa_port = port\<rparr>, rest)) (read_port s3))"

definition parse_SocketAddr :: "string \<Rightarrow> SocketAddr option" where
  "parse_SocketAddr s = parse_with
     (\<lambda>s. case read_socket_addr_v4 s of Some r \<Rightarrow> Some r | None \<Rightarrow> read_socket_addr_v6 s) s"

section \<open>Other string operations\<close>

text \<open>\<^verbatim>\<open>str::find(char)\<close>: the index of the first occurrence.\<close>

fun find_char :: "char \<Rightarrow> string \<Rightarrow> nat option" where
  "find_char c [] = None"
| "find_char c (x # xs) = (if x = c then Some 0 else map_option Suc (find_char c xs))"

text \<open>\<^verbatim>\<open>str::trim\<close> removes Unicode white space; these are its UTF-8 encodings.\<close>

definition white_space :: "string list" where
  "white_space = map (map char_of)
     ([[9], [10], [11], [12], [13], [32], [0xC2, 0x85], [0xC2, 0xA0], [0xE1, 0x9A, 0x80],
       [0xE2, 0x80, 0xA8], [0xE2, 0x80, 0xA9], [0xE2, 0x80, 0xAF], [0xE2, 0x81, 0x9F],
       [0xE3, 0x80, 0x80]] @ map (\<lambda>i. [0xE2, 0x80, 0x80 + i]) [0..<11] :: nat list list)"

function trim_prefixes :: "string list \<Rightarrow> string \<Rightarrow> string" where
  "trim_prefixes ws s =
     (case find (\<lambda>w. w \<noteq> [] \<and> s \<noteq> [] \<and> starts_with s w) ws of
        None \<Rightarrow> s
      | Some w \<Rightarrow> trim_prefixes ws (drop (length w) s))"
  by pat_completeness auto
termination
  by (relation "measure (length \<circ> snd)") (auto simp: find_Some_iff)

declare trim_prefixes.simps [simp del]

definition trim :: "string \<Rightarrow> string" where
  "trim s = rev (trim_prefixes (map rev white_space) (rev (trim_prefixes white_space s)))"

text \<open>\<^verbatim>\<open>value.split(',').next()\<close>: the part before the first comma, the whole string if there is none.\<close>

definition first_field :: "char \<Rightarrow> string \<Rightarrow> string" where
  "first_field sep s = takeWhile (\<lambda>c. c \<noteq> sep) s"

section \<open>Dotted quads\<close>

text \<open>The canonical decimal text of an octet and of an IPv4 address.\<close>

definition digit_char :: "nat \<Rightarrow> char" where
  "digit_char d = char_of (48 + d)"

definition octet_digits :: "u8 \<Rightarrow> nat list" where
  "octet_digits b =
     (let n = unat b in
      if n < 10 then [n] else if n < 100 then [n div 10, n mod 10]
      else [n div 100, n div 10 mod 10, n mod 10])"

definition show_octet :: "u8 \<Rightarrow> string" where
  "show_octet b = map digit_char (octet_digits b)"

fun show_ipv4 :: "Ipv4Addr \<Rightarrow> string" where
  "show_ipv4 (Ipv4 a b c d) =
     show_octet a @ ''.'' @ show_octet b @ ''.'' @ show_octet c @ ''.'' @ show_octet d"

lemma to_digit_digit_char [simp]: "d < 10 \<Longrightarrow> to_digit 10 (digit_char d) = Some d"
  by (simp add: to_digit_def digit_char_def of_char_of Let_def)

lemma char_of_48: "char_of (48 :: nat) = CHR ''0''"
proof -
  have "char_of (of_char (CHR ''0'') :: nat) = CHR ''0''"
    by (simp only: char_of_char)
  then show ?thesis by simp
qed

lemma u8_le_255: "\<not> 255 < unat (b :: u8)" "unat b div 100 < 10"
  using unat_u8_less [of b] by linarith+

lemma digit_char_zero: "d < 10 \<Longrightarrow> digit_char d = CHR ''0'' \<longleftrightarrow> d = 0"
proof
  assume "d < 10" and "digit_char d = CHR ''0''"
  then have "of_char (digit_char d) = (48 :: nat)" by simp
  with \<open>d < 10\<close> show "d = 0" by (simp add: digit_char_def of_char_of)
qed (simp add: digit_char_def char_of_48)

definition no_digit_ahead :: "string \<Rightarrow> bool" where
  "no_digit_ahead s \<longleftrightarrow> (case s of [] \<Rightarrow> True | c # _ \<Rightarrow> to_digit 10 c = None)"

lemma read_digits_stop: "no_digit_ahead s \<Longrightarrow> read_digits 10 m acc k s = Some (acc, k, s)"
  by (cases s) (simp_all add: no_digit_ahead_def)

lemma read_digits_digits:
  "\<lbrakk>list_all (\<lambda>d. d < 10) ds; k + length ds \<le> m; no_digit_ahead rest\<rbrakk> \<Longrightarrow>
   read_digits 10 m acc k (map digit_char ds @ rest)
     = Some (foldl (\<lambda>a d. a * 10 + d) acc ds, k + length ds, rest)"
  by (induction ds arbitrary: acc k) (simp_all add: read_digits_stop)

lemma octet_digits:
  "list_all (\<lambda>d. d < 10) (octet_digits b)"
  "length (octet_digits b) \<le> 3" "octet_digits b \<noteq> []"
  "foldl (\<lambda>a d. a * 10 + d) 0 (octet_digits b) = unat b"
  "length (octet_digits b) > 1 \<Longrightarrow> hd (octet_digits b) \<noteq> 0"
proof -
  show "list_all (\<lambda>d. d < 10) (octet_digits b)"
    by (auto simp: octet_digits_def Let_def u8_le_255)
  show "length (octet_digits b) \<le> 3" "octet_digits b \<noteq> []"
    by (simp_all add: octet_digits_def Let_def)
  have "unat b div 100 = unat b div 10 div 10"
    by (simp flip: div_mult2_eq)
  then have "(unat b div 100 * 10 + unat b div 10 mod 10) * 10 + unat b mod 10 = unat b"
    by (simp only: div_mult_mod_eq)
  then show "foldl (\<lambda>a d. a * 10 + d) 0 (octet_digits b) = unat b"
    by (simp add: octet_digits_def Let_def)
  show "length (octet_digits b) > 1 \<Longrightarrow> hd (octet_digits b) \<noteq> 0"
    by (auto simp: octet_digits_def Let_def div_eq_0_iff split: if_splits)
qed

lemma read_number_show_octet:
  assumes "no_digit_ahead rest"
  shows "read_number 10 3 False 255 (show_octet b @ rest) = Some (unat b, rest)"
proof -
  have digits: "read_digits 10 3 0 0 (show_octet b @ rest)
      = Some (unat b, length (octet_digits b), rest)"
    using read_digits_digits [of "octet_digits b" 0 3 rest 0] octet_digits [of b] assms
    by (simp add: show_octet_def)
  obtain d ds where ds: "octet_digits b = d # ds"
    using octet_digits(3) [of b] by (cases "octet_digits b") auto
  then have "d < 10" using octet_digits(1) [of b] by simp
  then have "\<not> (take 1 (show_octet b @ rest) = ''0'' \<and> length (octet_digits b) > 1)"
    using octet_digits(5) [of b] ds by (auto simp: show_octet_def digit_char_zero)
  with digits ds show ?thesis
    by (auto simp: read_number_def u8_le_255)
qed

lemma read_octet_show:
  "no_digit_ahead rest \<Longrightarrow> read_octet 0 (show_octet b @ rest) = Some (b, rest)"
  "no_digit_ahead rest \<Longrightarrow> 0 < i \<Longrightarrow> read_octet i (CHR ''.'' # show_octet b @ rest) = Some (b, rest)"
  by (simp_all add: read_octet_def read_separator_def read_given_char_def read_number_show_octet)

lemma no_digit_ahead_simps [simp]: "no_digit_ahead []" "no_digit_ahead (CHR ''.'' # s)"
  by (simp_all add: no_digit_ahead_def to_digit_def)

lemma read_ipv4_addr_show: "read_ipv4_addr (show_ipv4 v4) = Some (v4, [])"
proof (cases v4)
  case (Ipv4 a b c d)
  then show ?thesis
    using read_octet_show(2) [of "[]" 3 d] by (simp add: read_ipv4_addr_def read_octet_show)
qed

lemma parse_show_ipv4 [simp]:
  "parse_Ipv4Addr (show_ipv4 v4) = Some v4" "parse_IpAddr (show_ipv4 v4) = Some (V4 v4)"
proof -
  have "length (show_octet b) \<le> 3" for b
    using octet_digits(2) [of b] by (simp add: show_octet_def)
  moreover obtain a b c d where "v4 = Ipv4 a b c d" by (cases v4)
  ultimately have "length (show_ipv4 v4) \<le> 15"
    using add_mono [of "length (show_octet a)" 3 "length (show_octet b)" 3]
      add_mono [of "length (show_octet c)" 3 "length (show_octet d)" 3] by simp
  then show "parse_Ipv4Addr (show_ipv4 v4) = Some v4"
    by (simp add: parse_Ipv4Addr_def parse_with_def read_ipv4_addr_show)
  show "parse_IpAddr (show_ipv4 v4) = Some (V4 v4)"
    by (simp add: parse_IpAddr_def parse_with_def read_ipv4_addr_show)
qed

text \<open>Prefixes of dotted quads: a prefix that ends in a dot is decided octet by octet.\<close>

lemma digit_char_neq: "d < 10 \<Longrightarrow> digit_char d \<noteq> CHR ''.''" "d < 10 \<Longrightarrow> digit_char d \<noteq> CHR ''+''"
  "d < 10 \<Longrightarrow> digit_char d \<noteq> CHR ''-''"
  using to_digit_digit_char [of d] by (auto simp: to_digit_def)

lemma show_octet_chars: "CHR ''.'' \<notin> set (show_octet b)"
  using octet_digits(1) [of b] digit_char_neq(1) by (force simp: show_octet_def list_all_iff)

lemma show_octet_inject [simp]: "show_octet a = show_octet b \<longleftrightarrow> a = b"
proof
  assume "show_octet a = show_octet b"
  then have "unat a = unat b"
    using read_number_show_octet [of "[]" a] read_number_show_octet [of "[]" b] by simp
  then show "a = b"
    by (simp only: word_unat_eq_iff)
qed simp

lemma starts_with_iff: "starts_with s p \<longleftrightarrow> (\<exists>t. s = p @ t)"
  by (metis append_eq_conv_conj append_take_drop_id starts_with_def)

lemma split_at_sep:
  assumes "c \<notin> set xs" and "c \<notin> set ys"
  shows "xs @ c # r = ys @ c # r' \<longleftrightarrow> xs = ys \<and> r = r'"
proof
  assume eq: "xs @ c # r = ys @ c # r'"
  have "takeWhile (\<lambda>x. x \<noteq> c) (xs @ c # r) = xs" "takeWhile (\<lambda>x. x \<noteq> c) (ys @ c # r') = ys"
    using assms by (auto simp: takeWhile_append2 intro!: takeWhile_append2 [THEN trans])
  with eq show "xs = ys \<and> r = r'" by simp
qed simp

lemma starts_with_octet:
  "starts_with (show_octet a @ CHR ''.'' # r) (show_octet b @ CHR ''.'' # p) \<longleftrightarrow>
     a = b \<and> starts_with r p"
proof -
  have "(\<exists>t. show_octet a @ CHR ''.'' # r = (show_octet b @ CHR ''.'' # p) @ t) \<longleftrightarrow>
        (\<exists>t. show_octet a = show_octet b \<and> r = p @ t)"
    using split_at_sep [OF show_octet_chars show_octet_chars] by simp
  then show ?thesis
    by (simp add: starts_with_iff)
qed

lemma starts_with_Nil [simp]: "starts_with s []"
  by (simp add: starts_with_def)

lemma octet_literals:
  "''10.'' = show_octet 10 @ ''.''" "''127.'' = show_octet 127 @ ''.''"
  "''172.'' = show_octet 172 @ ''.''"
  "''192.168.'' = show_octet 192 @ CHR ''.'' # show_octet 168 @ ''.''"
  "''169.254.'' = show_octet 169 @ CHR ''.'' # show_octet 254 @ ''.''"
  "''127.0.0.1'' = show_ipv4 (Ipv4 127 0 0 1)" "''0.0.0.0'' = show_ipv4 (Ipv4 0 0 0 0)"
  by code_simp+

lemma show_ipv4_inject [simp]: "show_ipv4 v = show_ipv4 w \<longleftrightarrow> v = w"
  by (metis option.inject parse_show_ipv4(1))

lemma show_ipv4_no_name: "show_ipv4 v \<noteq> ''localhost''" "show_ipv4 v \<noteq> ''::1''" "show_ipv4 v \<noteq> ''::''"
proof -
  have "parse_Ipv4Addr ''localhost'' = None" "parse_Ipv4Addr ''::1'' = None"
    "parse_Ipv4Addr ''::'' = None"
    by code_simp+
  then show "show_ipv4 v \<noteq> ''localhost''" "show_ipv4 v \<noteq> ''::1''" "show_ipv4 v \<noteq> ''::''"
    by (metis option.distinct(1) parse_show_ipv4(1))+
qed

lemma find_char_append: "c \<notin> set xs \<Longrightarrow> find_char c (xs @ c # r) = Some (length xs)"
  by (induction xs) auto

lemma foldl_digits_ge: "acc \<le> foldl (\<lambda>a d. a * 10 + d) acc ds" for acc :: nat
proof (induction ds arbitrary: acc)
  case (Cons d ds)
  have "acc \<le> acc * 10 + d" by simp
  also have "\<dots> \<le> foldl (\<lambda>a d. a * 10 + d) (acc * 10 + d) ds" by (rule Cons.IH)
  finally show ?case by simp
qed simp

lemma parse_decimal_digits:
  "\<lbrakk>list_all (\<lambda>d. d < 10) ds; foldl (\<lambda>a d. a * 10 + d) acc ds \<le> bound\<rbrakk> \<Longrightarrow>
   parse_decimal bound acc (map digit_char ds) = Some (foldl (\<lambda>a d. a * 10 + d) acc ds)"
proof (induction ds arbitrary: acc)
  case (Cons d ds)
  then have "acc * 10 + d \<le> bound"
    using foldl_digits_ge [of "acc * 10 + d" ds] by simp
  with Cons show ?case by simp
qed simp

lemma parse_u8_show_octet [simp]: "parse_u8 (show_octet b) = Some b"
proof -
  obtain d ds where ds: "octet_digits b = d # ds" and "d < 10"
    using octet_digits(1,3) [of b] by (cases "octet_digits b") auto
  then have "show_octet b \<noteq> ''+''" "show_octet b \<noteq> ''-''" "take 1 (show_octet b) \<noteq> ''+''"
    by (auto simp: show_octet_def digit_char_neq)
  moreover have "parse_decimal 255 0 (show_octet b) = Some (unat b)"
    using parse_decimal_digits [of "octet_digits b" 0 255] octet_digits(1,4) [of b] u8_le_255(1) [of b]
    by (simp add: show_octet_def not_less)
  ultimately show ?thesis
    using ds by (auto simp: parse_u8_def parse_unsigned_def show_octet_def)
qed

text \<open>A name that starts with neither a hexadecimal digit nor a colon is not an address.\<close>

lemma parse_IpAddr_name:
  assumes "to_digit 16 c = None" "c \<noteq> CHR '':''"
  shows "parse_IpAddr (c # cs) = None"
proof -
  have "to_digit 10 c = None"
    using assms(1) by (auto simp: to_digit_def Let_def split: if_splits)
  then have "read_ipv4_addr (c # cs) = None"
    by (simp add: read_ipv4_addr_def read_octet_def read_separator_def read_number_def)
  moreover have "read_groups (Suc k) 0 [] (c # cs) = ([], False, c # cs)" for k
    using assms(1) calculation by (simp add: read_separator_def read_number_def)
  then have "read_groups 8 0 [] (c # cs) = ([], False, c # cs)"
    by (metis Suc_numeral numeral_eq_Suc)
  then have "read_ipv6_addr (c # cs) = None"
    using assms(2) by (simp add: read_ipv6_addr_def read_given_char_def)
  ultimately show ?thesis
    by (simp add: parse_IpAddr_def parse_with_def)
qed

end
