(* ===== verification/Dns.thy ===== *)
theory Dns
  imports Config Net_Addr
begin

text \<open>
  The per-worker DNS cache, \<^verbatim>\<open>src/server/dns.rs\<close>, and \<open>dns_resolve_no_hold\<close> of
  \<^verbatim>\<open>src/server/connection.rs\<close>, which resolves a host name through it.

  An \<^verbatim>\<open>Instant\<close> is a number of nanoseconds since the clock's origin and a \<^verbatim>\<open>Duration\<close> a number of
  nanoseconds; adding them panics when the seconds leave the range of \<^verbatim>\<open>i64\<close>.  A panic is the value
  \<^const>\<open>None\<close>.  The operating system's resolver is a parameter: while it is awaited the other tasks of the
  worker run and may change the cache, so the parameter maps the cache too.
\<close>

section \<open>The cache\<close>

type_synonym Instant = nat
type_synonym Duration = nat

definition from_secs :: "u64 \<Rightarrow> Duration" where
  "from_secs s = 1000000000 * unat s"

definition instant_add :: "Instant \<Rightarrow> Duration \<Rightarrow> Instant option" where
  "instant_add t d = (if (t + d) div 1000000000 < 2 ^ 63 then Some (t + d) else None)"

record CacheEntry =
  ce_addrs :: "IpAddr list"
  ce_expires_at :: Instant

record DnsCache =
  dc_cache :: "(string, CacheEntry) mapping"
  dc_ttl :: Duration
  dc_ipv4_first :: bool

datatype DnsError = ResolveFailed string | NoAddresses string

definition DnsCache_new :: "ServerConfig \<Rightarrow> DnsCache" where
  "DnsCache_new config =
     \<lparr>dc_cache = Mapping.empty, dc_ttl = from_secs (cfg_dns_ttl config),
      dc_ipv4_first = (cfg_dns_result_order config = ''ipv4first'')\<rparr>"

definition ipv4_first :: "DnsCache \<Rightarrow> bool" where
  "ipv4_first c = dc_ipv4_first c"

text \<open>The outer option is the panic of \<^verbatim>\<open>addrs[0]\<close> on an empty vector.\<close>

definition get_cached :: "Instant \<Rightarrow> string \<Rightarrow> DnsCache \<Rightarrow> IpAddr option option" where
  "get_cached now hostname c =
     (case Mapping.lookup (dc_cache c) hostname of
        None \<Rightarrow> Some None
      | Some entry \<Rightarrow>
          if now < ce_expires_at entry
          then (case ce_addrs entry of [] \<Rightarrow> None | ip # _ \<Rightarrow> Some (Some ip))
          else Some None)"

definition insert_resolved ::
  "Instant \<Rightarrow> string \<Rightarrow> IpAddr list \<Rightarrow> DnsCache \<Rightarrow> (IpAddr \<times> DnsCache) option" where
  "insert_resolved now hostname addrs c =
     (case addrs of
        [] \<Rightarrow> None
      | first # _ \<Rightarrow>
          (case instant_add now (dc_ttl c) of
             None \<Rightarrow> None
           | Some expires \<Rightarrow>
               Some (first, c\<lparr>dc_cache := Mapping.update hostname
                                \<lparr>ce_addrs = addrs, ce_expires_at = expires\<rparr> (dc_cache c)\<rparr>)))"

definition evict_expired :: "Instant \<Rightarrow> DnsCache \<Rightarrow> DnsCache" where
  "evict_expired now c =
     c\<lparr>dc_cache := Mapping.filter (\<lambda>_ entry. now < ce_expires_at entry) (dc_cache c)\<rparr>"

section \<open>Resolution\<close>

type_synonym 'w resolver =
  "string \<Rightarrow> DnsCache \<times> 'w \<Rightarrow> (string + SocketAddr list) \<times> DnsCache \<times> 'w"

text \<open>\<^verbatim>\<open>Display\<close> of an unsigned integer.\<close>

fun show_nat :: "nat \<Rightarrow> string" where
  "show_nat n = (if n < 10 then [digit_char n] else show_nat (n div 10) @ [digit_char (n mod 10)])"

declare show_nat.simps [simp del]

definition family :: "IpAddr \<Rightarrow> nat" where
  "family a = (case a of V4 _ \<Rightarrow> 0 | V6 _ \<Rightarrow> 1)"

definition order_addrs :: "bool \<Rightarrow> SocketAddr list \<Rightarrow> IpAddr list" where
  "order_addrs v4_first sock_addrs =
     (let addrs = remdups_adj (map sa_ip sock_addrs)
      in if v4_first then sort_key family addrs else addrs)"

definition dns_resolve_no_hold ::
  "('w \<Rightarrow> Instant) \<Rightarrow> 'w resolver \<Rightarrow> string \<Rightarrow> u16 \<Rightarrow> DnsCache \<times> 'w \<Rightarrow>
   ((DnsError + SocketAddr) \<times> DnsCache \<times> 'w) option" where
  "dns_resolve_no_hold now lookup_host hostname port = (\<lambda>(dns_cache, w).
     (case parse_IpAddr hostname of
        Some ip \<Rightarrow> Some (Inr \<lparr>sa_ip = ip, sa_port = port\<rparr>, dns_cache, w)
      | None \<Rightarrow>
     (case get_cached (now w) hostname dns_cache of
        None \<Rightarrow> None
      | Some (Some cached) \<Rightarrow> Some (Inr \<lparr>sa_ip = cached, sa_port = port\<rparr>, dns_cache, w)
      | Some None \<Rightarrow>
     (let v4_first = ipv4_first dns_cache;
          lookup_str = hostname @ '':'' @ show_nat (unat port)
      in case lookup_host lookup_str (dns_cache, w) of
           (Inl e, dns_cache', w') \<Rightarrow>
             Some (Inl (ResolveFailed (hostname @ '': '' @ e)), dns_cache', w')
         | (Inr sock_addrs, dns_cache', w') \<Rightarrow>
             if sock_addrs = [] then Some (Inl (NoAddresses hostname), dns_cache', w')
             else
               (case insert_resolved (now w') hostname (order_addrs v4_first sock_addrs) dns_cache' of
                  None \<Rightarrow> None
                | Some (first_ip, dns_cache'') \<Rightarrow>
                    Some (Inr \<lparr>sa_ip = first_ip, sa_port = port\<rparr>, dns_cache'', w'))))))"

section \<open>The cache keeps non-empty, timely answers\<close>

text \<open>
  \<open>cache_ok now c\<close>: no entry is empty, and none outlives the time to live counted from \<open>now\<close>.
\<close>

definition cache_ok :: "Instant \<Rightarrow> DnsCache \<Rightarrow> bool" where
  "cache_ok now c \<longleftrightarrow>
     (\<forall>h e. Mapping.lookup (dc_cache c) h = Some e \<longrightarrow> ce_addrs e \<noteq> [] \<and> ce_expires_at e \<le> now + dc_ttl c)"

lemma cache_ok_mono: "cache_ok t c \<Longrightarrow> t \<le> t' \<Longrightarrow> cache_ok t' c"
  by (fastforce simp: cache_ok_def)

lemma cache_ok_new [simp]: "cache_ok t (DnsCache_new config)"
  by (simp add: cache_ok_def DnsCache_new_def)

lemma get_cached_total: "cache_ok t c \<Longrightarrow> \<exists>r. get_cached now h c = Some r"
  by (fastforce simp: cache_ok_def get_cached_def split: option.split list.split)

lemma insert_resolved_eq:
  assumes "(now + dc_ttl c) div 1000000000 < 2 ^ 63" "addrs \<noteq> []"
  shows "insert_resolved now h addrs c =
     Some (hd addrs, c\<lparr>dc_cache := Mapping.update h \<lparr>ce_addrs = addrs, ce_expires_at = now + dc_ttl c\<rparr> (dc_cache c)\<rparr>)"
  using assms by (cases addrs) (auto simp: insert_resolved_def instant_add_def)

lemma cache_ok_insert:
  assumes "cache_ok now c" "insert_resolved now h addrs c = Some (ip, c')"
  shows "cache_ok now c'" "dc_ttl c' = dc_ttl c" "dc_ipv4_first c' = dc_ipv4_first c" "addrs \<noteq> []" "ip = hd addrs"
  using assms by (auto simp: insert_resolved_def instant_add_def cache_ok_def lookup_update'
      split: list.splits option.splits if_splits)

lemma lookup_evict:
  "Mapping.lookup (dc_cache (evict_expired t c)) h =
     (case Mapping.lookup (dc_cache c) h of
        None \<Rightarrow> None | Some e \<Rightarrow> if t < ce_expires_at e then Some e else None)"
  by (simp add: evict_expired_def lookup_filter)

section \<open>Order of the answers\<close>

lemma sort_key_family: "sort_key family xs = filter (\<lambda>a. family a = 0) xs @ filter (\<lambda>a. family a = 1) xs"
proof (induction xs)
  case (Cons x xs)
  have low: "family x = 0 \<Longrightarrow> insort_key family x ys = x # ys" for ys
    by (cases ys) simp_all
  have high: "family x = 1 \<Longrightarrow> \<forall>y \<in> set ys. family y = 0 \<Longrightarrow> \<forall>z \<in> set zs. family z = 1 \<Longrightarrow>
      insort_key family x (ys @ zs) = ys @ x # zs" for ys zs
    by (induction ys) (cases zs, simp_all)
  have "family x = 0 \<or> family x = 1"
    by (simp add: family_def split: IpAddr.split)
  with Cons.IH show ?case
    by (auto simp: low high)
qed simp

lemma find_remdups_adj: "find P (remdups_adj xs) = find P xs"
  by (induction xs rule: remdups_adj.induct) auto

lemma hd_order_addrs:
  assumes "as \<noteq> []"
  shows "hd (order_addrs b as) =
     (case find (\<lambda>a. b \<and> family a = 0) (map sa_ip as) of Some a \<Rightarrow> a | None \<Rightarrow> sa_ip (hd as))"
proof (cases "b \<and> (\<exists>a \<in> set (map sa_ip as). family a = 0)")
  case True
  then have "filter (\<lambda>a. family a = 0) (remdups_adj (map sa_ip as)) \<noteq> []"
    by (auto simp: filter_empty_conv)
  then have "hd (order_addrs b as) = hd (filter (\<lambda>a. family a = 0) (remdups_adj (map sa_ip as)))"
    using True by (simp add: order_addrs_def sort_key_family Let_def)
  moreover have "find P xs = Some (hd (filter P xs))" if "filter P xs \<noteq> []" for P :: "IpAddr \<Rightarrow> bool" and xs
    using that by (induction xs) auto
  ultimately have "find (\<lambda>a. family a = 0) (map sa_ip as) = Some (hd (order_addrs b as))"
    using find_remdups_adj [of "\<lambda>a. family a = 0" "map sa_ip as"]
      \<open>filter (\<lambda>a. family a = 0) (remdups_adj (map sa_ip as)) \<noteq> []\<close> by simp
  then show ?thesis
    using True by simp
next
  case False
  then have "find (\<lambda>a. b \<and> family a = 0) (map sa_ip as) = None"
    by (auto simp: find_None_iff)
  moreover have "b \<Longrightarrow> filter (\<lambda>a. family a = 1) (remdups_adj (map sa_ip as)) = remdups_adj (map sa_ip as)"
    "b \<Longrightarrow> filter (\<lambda>a. family a = 0) (remdups_adj (map sa_ip as)) = []"
    using False by (auto simp: filter_id_conv filter_empty_conv family_def split: IpAddr.splits)
  ultimately show ?thesis
    using assms by (cases b) (simp_all add: order_addrs_def sort_key_family Let_def hd_map)
qed

lemma set_order_addrs [simp]: "set (order_addrs b as) = sa_ip ` set as"
  by (simp add: order_addrs_def Let_def)

lemma order_addrs_empty [simp]: "order_addrs b as = [] \<longleftrightarrow> as = []"
  using set_order_addrs [of b as] by (metis image_is_empty set_empty)

section \<open>Properties\<close>

text \<open>
  What the resolver and the other tasks of the worker promise while a lookup is awaited: time does not go
  back, the cache stays well formed and keeps its settings, and the clock is far from overflow.
\<close>

definition resolver_ok :: "('w \<Rightarrow> Instant) \<Rightarrow> 'w resolver \<Rightarrow> Duration \<Rightarrow> bool" where
  "resolver_ok now lookup_host ttl \<longleftrightarrow>
     (\<forall>q c w r c' w'. lookup_host q (c, w) = (r, c', w') \<longrightarrow>
        now w \<le> now w' \<and> (cache_ok (now w) c \<longrightarrow> cache_ok (now w') c') \<and> dc_ttl c' = dc_ttl c) \<and>
     (\<forall>w. (now w + ttl) div 1000000000 < 2 ^ 63)"

text \<open>C20. Resolving a host name over a well-formed cache never panics and leaves the cache well formed.  A
  literal address is used as it is, without a lookup or a cache access.  A name with a fresh entry gives
  the entry's first address without a lookup.  Otherwise the resolver is asked: its failure and an
  empty answer are errors, and a non-empty answer gives its first IPv4 address, when IPv4 is preferred and
  there is one, and else its first address, which the cache then returns until the time to live is
  over.\<close>

theorem dns_resolution:
  fixes now :: "'w \<Rightarrow> Instant"
  assumes ok: "cache_ok (now w) c" "resolver_ok now lookup_host (dc_ttl c)"
  shows "\<exists>r c' w'. dns_resolve_no_hold now lookup_host host port (c, w) = Some (r, c', w') \<and>
     cache_ok (now w') c' \<and> now w \<le> now w' \<and> dc_ttl c' = dc_ttl c \<and>
     (case (parse_IpAddr host, get_cached (now w) host c) of
        (Some ip, _) \<Rightarrow> r = Inr \<lparr>sa_ip = ip, sa_port = port\<rparr> \<and> c' = c \<and> w' = w
      | (None, Some (Some ip)) \<Rightarrow> r = Inr \<lparr>sa_ip = ip, sa_port = port\<rparr> \<and> c' = c \<and> w' = w
      | (None, Some None) \<Rightarrow>
          (case fst (lookup_host (host @ '':'' @ show_nat (unat port)) (c, w)) of
             Inl e \<Rightarrow> r = Inl (ResolveFailed (host @ '': '' @ e))
           | Inr as \<Rightarrow>
               if as = [] then r = Inl (NoAddresses host)
               else let ip = (case find (\<lambda>a. ipv4_first c \<and> family a = 0) (map sa_ip as) of
                                Some a \<Rightarrow> a | None \<Rightarrow> sa_ip (hd as))
                    in r = Inr \<lparr>sa_ip = ip, sa_port = port\<rparr> \<and>
                       (\<forall>t. get_cached t host c' = Some (if t < now w' + dc_ttl c then Some ip else None)))
      | (None, None) \<Rightarrow> False)"
proof -
  obtain g where g: "get_cached (now w) host c = Some g"
    using get_cached_total [OF ok(1)] by blast
  obtain a c1 w1 where lk: "lookup_host (host @ '':'' @ show_nat (unat port)) (c, w) = (a, c1, w1)"
    by (metis prod_cases3)
  have c1: "now w \<le> now w1" "cache_ok (now w1) c1" "dc_ttl c1 = dc_ttl c"
    and time: "(now w1 + dc_ttl c1) div 1000000000 < 2 ^ 63"
    using ok lk unfolding resolver_ok_def by metis+
  show ?thesis
  proof (cases "parse_IpAddr host")
    case (Some ip)
    with ok show ?thesis
      by (simp add: dns_resolve_no_hold_def)
  next
    case None
    consider (cached) ip where "g = Some ip" | (failed) e where "g = None" "a = Inl e"
      | (empty) "g = None" "a = Inr []" | (found) as where "g = None" "a = Inr as" "as \<noteq> []"
      by (cases g; cases a) auto
    then show ?thesis
    proof cases
      case found
      let ?as = "order_addrs (ipv4_first c) as"
      note ins = insert_resolved_eq [OF time, of ?as host]
      have "cache_ok (now w1) (snd (the (insert_resolved (now w1) host ?as c1)))"
        using cache_ok_insert(1) [OF c1(2)] ins found by fastforce
      moreover have "get_cached t host (snd (the (insert_resolved (now w1) host ?as c1))) =
          Some (if t < now w1 + dc_ttl c then Some (hd ?as) else None)" for t
        using ins found c1 by (cases ?as) (auto simp: get_cached_def)
      ultimately show ?thesis
        using None g lk found c1 ins hd_order_addrs [of as "ipv4_first c"]
        by (simp add: dns_resolve_no_hold_def Let_def)
    qed (use None g lk c1 ok in \<open>simp_all add: dns_resolve_no_hold_def Let_def\<close>)
  qed
qed

definition one_host :: "'w resolver" where
  "one_host q = (\<lambda>(c, w).
     (Inr [\<lparr>sa_ip = V6 (Ipv6 0x2001 0xdb8 0 0 0 0 0 1), sa_port = 80\<rparr>,
           \<lparr>sa_ip = V4 (Ipv4 93 184 216 34), sa_port = 80\<rparr>], c, w))"

theorem dns_resolution_witness:
  "\<exists>c'. dns_resolve_no_hold (\<lambda>_. 5) one_host ''www.example.com'' 80 (DnsCache_new ServerConfig_default, ()) =
     Some (Inr \<lparr>sa_ip = V4 (Ipv4 93 184 216 34), sa_port = 80\<rparr>, c', ())"
proof -
  let ?c = "DnsCache_new ServerConfig_default"
  have "resolver_ok (\<lambda>_. 5) one_host (dc_ttl ?c)"
    by (auto simp: resolver_ok_def one_host_def DnsCache_new_def ServerConfig_default_def from_secs_def)
  moreover have "parse_IpAddr ''www.example.com'' = None"
    by (rule parse_IpAddr_name) (simp_all add: to_digit_def)
  moreover have "get_cached 5 ''www.example.com'' ?c = Some None" "ipv4_first ?c"
    by (simp_all add: get_cached_def DnsCache_new_def ipv4_first_def ServerConfig_default_def)
  ultimately show ?thesis
    using dns_resolution [of "\<lambda>_. 5" "()" ?c one_host "''www.example.com''" 80]
    by (auto simp: one_host_def family_def Let_def)
qed

text \<open>C34. The time to live bounds what the cache returns: an answer inserted at time \<open>t\<close> is returned at exactly
  the times before \<open>t + ttl\<close>, other names keep their answers, and dropping the expired entries changes no
  answer from then on and leaves only entries that are still fresh.\<close>

theorem dns_cache_freshness:
  assumes "cache_ok now c" "insert_resolved now host addrs c = Some (ip, c')"
  shows "addrs \<noteq> [] \<and> ip = hd addrs \<and> cache_ok now c' \<and>
     get_cached t other c' =
       (if other = host then Some (if t < now + dc_ttl c then Some ip else None)
        else get_cached t other c) \<and>
     (now \<le> t \<longrightarrow> get_cached t other (evict_expired now c') = get_cached t other c') \<and>
     (\<forall>e. Mapping.lookup (dc_cache (evict_expired t c')) other = Some e \<longrightarrow> t < ce_expires_at e)"
proof -
  note c' = cache_ok_insert [OF assms]
  have c'_eq: "c' = c\<lparr>dc_cache := Mapping.update host \<lparr>ce_addrs = addrs, ce_expires_at = now + dc_ttl c\<rparr> (dc_cache c)\<rparr>"
    using assms(2) by (auto simp: insert_resolved_def instant_add_def split: list.splits option.splits if_splits)
  have "get_cached t other c' =
       (if other = host then Some (if t < now + dc_ttl c then Some ip else None)
        else get_cached t other c)"
    using c' by (cases addrs) (auto simp: c'_eq get_cached_def lookup_update')
  moreover have "now \<le> t \<Longrightarrow> get_cached t other (evict_expired now c') = get_cached t other c'"
    by (simp add: get_cached_def lookup_evict split: option.split)
  moreover have "\<forall>e. Mapping.lookup (dc_cache (evict_expired t c')) other = Some e \<longrightarrow> t < ce_expires_at e"
    by (simp add: lookup_evict split: option.split)
  ultimately show ?thesis
    using c' by blast
qed

theorem dns_cache_freshness_witness:
  "\<exists>c'. insert_resolved 7 ''a.org'' [V4 (Ipv4 1 2 3 4)] (DnsCache_new ServerConfig_default) = Some (V4 (Ipv4 1 2 3 4), c') \<and>
     get_cached 8 ''a.org'' c' = Some (Some (V4 (Ipv4 1 2 3 4)))"
proof -
  let ?c = "DnsCache_new ServerConfig_default"
  have ttl: "dc_ttl ?c = 120000000000"
    by (simp add: DnsCache_new_def ServerConfig_default_def from_secs_def)
  then obtain c' where ins: "insert_resolved 7 ''a.org'' [V4 (Ipv4 1 2 3 4)] ?c = Some (V4 (Ipv4 1 2 3 4), c')"
    using insert_resolved_eq [of 7 ?c "[V4 (Ipv4 1 2 3 4)]" "''a.org''"] by simp
  with dns_cache_freshness [OF cache_ok_new ins, of 8 "''a.org''"] ttl show ?thesis
    by auto
qed

end
