(* ===== verification/Accept.thy ===== *)
theory Accept
  imports Dns Config
begin

text \<open>
  The accept loop of a worker, \<open>accept_loop\<close> of \<^verbatim>\<open>src/server/mod.rs\<close>: the limit of simultaneous connections, the
  limit of connections per address and window, and the periodic eviction of expired windows.

  The state of the loop is the record \<open>worker\<close>.  An iteration is \<open>accept_conn\<close> for an accepted socket; an error of
  \<^verbatim>\<open>accept\<close> changes nothing; and \<open>conn_finished\<close> is the last action of the task of a connection.  The clock is
  monotonic, so the times of the iterations do not decrease.  Socket options, logging and the task
  itself (theory \<open>Conn_Loop\<close>) are not part of this model.
\<close>

section \<open>The loop\<close>

record worker =
  wk_conn_count :: usize
  wk_ip_rate_map :: "(IpAddr, usize \<times> Instant) mapping"
  wk_accept_count :: u64

definition worker_new :: worker where
  "worker_new = \<lparr>wk_conn_count = 0, wk_ip_rate_map = Mapping.empty, wk_accept_count = 0\<rparr>"

definition conn_window :: "ServerConfig \<Rightarrow> Duration" where
  "conn_window config = from_secs (cfg_connection_window_secs config)"

text \<open>The entry of an address after one more attempt; \<^verbatim>\<open>duration_since\<close> saturates at zero.\<close>

definition rate_entry :: "Duration \<Rightarrow> Instant \<Rightarrow> (usize \<times> Instant) option \<Rightarrow> usize \<times> Instant" where
  "rate_entry window now e =
     (let (n, start) = (case e of Some e \<Rightarrow> e | None \<Rightarrow> (0, now));
          (n, start) = (if now - start \<ge> window then (0, now) else (n, start))
      in (n + 1, start))"

definition evict_windows :: "Duration \<Rightarrow> Instant \<Rightarrow> (IpAddr, usize \<times> Instant) mapping \<Rightarrow> (IpAddr, usize \<times> Instant) mapping" where
  "evict_windows cutoff now m = Mapping.filter (\<lambda>_ (_, window_start). now - window_start < cutoff) m"

text \<open>The limit per address: whether the connection may go on, and the new state.\<close>

definition rate_limit :: "ServerConfig \<Rightarrow> IpAddr \<Rightarrow> Instant \<Rightarrow> worker \<Rightarrow> bool \<times> worker" where
  "rate_limit config ip now wk =
     (if cfg_max_connections_per_ip config > 0 then
        let entry = rate_entry (conn_window config) now (Mapping.lookup (wk_ip_rate_map wk) ip);
            m = Mapping.update ip entry (wk_ip_rate_map wk)
        in if fst entry > cfg_max_connections_per_ip config then (False, wk\<lparr>wk_ip_rate_map := m\<rparr>)
           else
             let n = wk_accept_count wk + 1
             in (True, wk\<lparr>wk_ip_rate_map := (if n AND 1023 = 0 then evict_windows (conn_window config) now m else m),
                          wk_accept_count := n\<rparr>)
      else (True, wk))"

text \<open>One accepted socket: \<^const>\<open>True\<close> when a connection task is spawned for it, \<^const>\<open>False\<close> when it is dropped.\<close>

definition accept_conn :: "ServerConfig \<Rightarrow> IpAddr \<Rightarrow> Instant \<Rightarrow> worker \<Rightarrow> bool \<times> worker" where
  "accept_conn config ip now wk =
     (if cfg_max_connections config > 0 \<and> wk_conn_count wk \<ge> cfg_max_connections config then (False, wk)
      else
        case rate_limit config ip now wk of
          (False, wk') \<Rightarrow> (False, wk')
        | (True, wk') \<Rightarrow> (True, wk'\<lparr>wk_conn_count := wk_conn_count wk' + 1\<rparr>))"

definition conn_finished :: "worker \<Rightarrow> worker" where
  "conn_finished wk = wk\<lparr>wk_conn_count := wk_conn_count wk - 1\<rparr>"

section \<open>Runs of the loop\<close>

datatype accept_event = Arrival IpAddr Instant | Accept_error | Conn_end

text \<open>The connections served by a run, with their times.\<close>

fun accept_run :: "ServerConfig \<Rightarrow> accept_event list \<Rightarrow> worker \<Rightarrow> (IpAddr \<times> Instant) list \<times> worker" where
  "accept_run config [] wk = ([], wk)"
| "accept_run config (Arrival ip now # evs) wk =
     (case accept_conn config ip now wk of (ok, wk1) \<Rightarrow>
        case accept_run config evs wk1 of (served, wk2) \<Rightarrow> ((if ok then [(ip, now)] else []) @ served, wk2))"
| "accept_run config (Accept_error # evs) wk = accept_run config evs wk"
| "accept_run config (Conn_end # evs) wk = accept_run config evs (conn_finished wk)"

fun arrival_times :: "accept_event list \<Rightarrow> Instant list" where
  "arrival_times [] = []"
| "arrival_times (Arrival ip now # evs) = now # arrival_times evs"
| "arrival_times (ev # evs) = arrival_times evs"

text \<open>The worker with the number of its connection tasks that have not ended.\<close>

inductive worker_reaches :: "ServerConfig \<Rightarrow> worker \<Rightarrow> nat \<Rightarrow> bool" for config :: ServerConfig where
  start: "worker_reaches config worker_new 0"
| served: "worker_reaches config wk live \<Longrightarrow> accept_conn config ip now wk = (True, wk') \<Longrightarrow> worker_reaches config wk' (Suc live)"
| dropped: "worker_reaches config wk live \<Longrightarrow> accept_conn config ip now wk = (False, wk') \<Longrightarrow> worker_reaches config wk' live"
| ended: "worker_reaches config wk (Suc live) \<Longrightarrow> worker_reaches config (conn_finished wk) live"

section \<open>The window of one address\<close>

text \<open>
  \<open>window_ok max window T H e\<close>: at time \<open>T\<close>, after connections served to an address at the times \<open>H\<close>, its entry
  is \<open>e\<close>.  The connections of the current window are counted, those before it lie in one earlier window as
  far as they are recent, and no interval as long as a window holds more than two windows' worth.
\<close>

definition within :: "(Instant \<Rightarrow> bool) \<Rightarrow> Instant list \<Rightarrow> nat" where
  "within P H = length (filter P H)"

lemma within_simps [simp]:
  "within P [] = 0" "within P (H @ [s]) = within P H + (if P s then 1 else 0)"
  by (simp_all add: within_def)

lemma within_mono: "(\<And>s. s \<in> set H \<Longrightarrow> P s \<Longrightarrow> Q s) \<Longrightarrow> within P H \<le> within Q H"
  by (induction H) (auto simp: within_def)

lemma within_split: "within P H = within (\<lambda>s. P s \<and> Q s) H + within (\<lambda>s. P s \<and> \<not> Q s) H"
  by (induction H) (auto simp: within_def)

lemma within_none: "(\<And>s. s \<in> set H \<Longrightarrow> \<not> P s) \<Longrightarrow> within P H = 0"
  by (simp add: within_def filter_empty_conv)

fun entry_ok :: "nat \<Rightarrow> Duration \<Rightarrow> Instant \<Rightarrow> Instant list \<Rightarrow> (usize \<times> Instant) option \<Rightarrow> bool" where
  "entry_ok lim window T H None \<longleftrightarrow> (\<forall>s \<in> set H. s < T) \<and> (\<forall>u \<ge> T. within (\<lambda>s. u < s + window) H \<le> lim)"
| "entry_ok lim window T H (Some (n, w)) \<longleftrightarrow>
     w \<le> T \<and> (\<forall>s \<in> set H. s \<le> T \<and> s < w + window) \<and>
     within (\<lambda>s. w \<le> s) H \<le> min n lim \<and> within (\<lambda>s. w < s + window \<and> s < w) H \<le> lim"

definition window_ok :: "nat \<Rightarrow> Duration \<Rightarrow> Instant \<Rightarrow> Instant list \<Rightarrow> (usize \<times> Instant) option \<Rightarrow> bool" where
  "window_ok lim window T H e \<longleftrightarrow>
     entry_ok lim window T H e \<and> (\<forall>t. within (\<lambda>s. t \<le> s \<and> s < t + window) H \<le> 2 * lim)"

lemma window_ok_later: "window_ok lim window T H e \<Longrightarrow> T \<le> T' \<Longrightarrow> window_ok lim window T' H e"
  by (cases e) (fastforce simp: window_ok_def)+

lemma window_ok_evict:
  assumes "window_ok lim window T H (Some (n, w))" "window \<le> T - w" "0 < window"
  shows "window_ok lim window T H None"
proof -
  have "within (\<lambda>s. u < s + window) H \<le> lim" if "T \<le> u" for u
  proof -
    have "within (\<lambda>s. u < s + window) H \<le> within (\<lambda>s. w \<le> s) H"
      using that assms(2,3) by (intro within_mono) linarith
    with assms(1) show ?thesis
      by (simp add: window_ok_def)
  qed
  with assms show ?thesis
    by (fastforce simp: window_ok_def)
qed

text \<open>A new window starts, and a connection is counted in it.\<close>

lemma window_ok_new:
  assumes "window_ok lim window T H e" "T \<le> u" "0 < window" "e = None \<or> (\<exists>n w. e = Some (n, w) \<and> window \<le> u - w)"
  shows "window_ok lim window u H (Some (0, u))"
proof -
  have "window_ok lim window u H None"
    using assms(4)
  proof
    assume "\<exists>n w. e = Some (n, w) \<and> window \<le> u - w"
    then show ?thesis
      using window_ok_evict [OF _ _ assms(3)] window_ok_later [OF assms(1,2)] by blast
  qed (use window_ok_later [OF assms(1,2)] in simp)
  then have none: "\<forall>s \<in> set H. s < u" "within (\<lambda>s. u < s + window) H \<le> lim"
    and all: "\<forall>t. within (\<lambda>s. t \<le> s \<and> s < t + window) H \<le> 2 * lim"
    by (auto simp: window_ok_def)
  have "within (\<lambda>s. u < s + window \<and> s < u) H \<le> lim"
    using within_mono [of H "\<lambda>s. u < s + window \<and> s < u" "\<lambda>s. u < s + window"] none(2) by simp
  moreover have "within (\<lambda>s. u \<le> s) H = 0"
    using none(1) by (intro within_none) auto
  ultimately show ?thesis
    using none(1) all assms(3) by (auto simp: window_ok_def)
qed

lemma window_ok_count:
  assumes "window_ok lim window u H (Some (n, w))" "u < w + window"
  shows "window_ok lim window u (if n + 1 \<le> lim then H @ [u] else H) (Some (n + 1, w))"
proof (cases "n + 1 \<le> lim")
  case True
  have "within (\<lambda>s. t \<le> s \<and> s < t + window) (H @ [u]) \<le> 2 * lim" for t
  proof (cases "t \<le> u \<and> u < t + window")
    case inside: True
    have "within (\<lambda>s. (t \<le> s \<and> s < t + window) \<and> w \<le> s) H \<le> n"
      using within_mono [of H "\<lambda>s. (t \<le> s \<and> s < t + window) \<and> w \<le> s" "\<lambda>s. w \<le> s"] assms(1) by (simp add: window_ok_def)
    moreover have "within (\<lambda>s. (t \<le> s \<and> s < t + window) \<and> \<not> w \<le> s) H \<le> lim"
      using within_mono [of H "\<lambda>s. (t \<le> s \<and> s < t + window) \<and> \<not> w \<le> s" "\<lambda>s. w < s + window \<and> s < w"] assms(1) inside
      by (fastforce simp: window_ok_def)
    ultimately show ?thesis
      using within_split [of "\<lambda>s. t \<le> s \<and> s < t + window" H "\<lambda>s. w \<le> s"] True inside by simp
  qed (use assms in \<open>auto simp: window_ok_def\<close>)
  with True assms show ?thesis
    by (auto simp: window_ok_def)
qed (use assms in \<open>auto simp: window_ok_def\<close>)

lemma window_ok_attempt:
  assumes "window_ok lim window T H e" "T \<le> u" "0 < window" "rate_entry window u e = (n, w)"
  shows "window_ok lim window u (if n \<le> lim then H @ [u] else H) (Some (n, w))"
proof -
  let ?fresh = "e = None \<or> (\<exists>n w. e = Some (n, w) \<and> window \<le> u - w)"
  show ?thesis
  proof (cases ?fresh)
    case True
    then have "n = 0 + 1 \<and> w = u"
      using assms(3,4) by (auto simp: rate_entry_def)
    with window_ok_count [OF window_ok_new [OF assms(1-3) True]] assms(3) show ?thesis
      by simp
  next
    case False
    then obtain k where k: "e = Some (k, w)" "n = k + 1" "u - w < window"
      using assms(4) by (cases e) (auto simp: rate_entry_def Let_def not_le)
    with window_ok_count [OF window_ok_later [OF assms(1,2), unfolded k]] show ?thesis
      by simp
  qed
qed

section \<open>The windows of a run\<close>

lemma lookup_evict_windows:
  "Mapping.lookup (evict_windows window now m) ip =
     (case Mapping.lookup m ip of Some (n, w) \<Rightarrow> if now - w < window then Some (n, w) else None | None \<Rightarrow> None)"
  by (simp add: evict_windows_def lookup_filter split: option.split)

lemma window_ok_evict_windows:
  assumes "window_ok lim window T H (Mapping.lookup m ip)" "0 < window"
  shows "window_ok lim window T H (Mapping.lookup (evict_windows window T m) ip)"
proof (cases "Mapping.lookup m ip")
  case (Some e)
  with assms window_ok_evict [of lim window T H "fst e" "snd e"] show ?thesis
    by (cases e) (simp add: lookup_evict_windows not_less)
qed (use assms in \<open>simp add: lookup_evict_windows\<close>)

lemma accept_conn_window:
  assumes "window_ok (cfg_max_connections_per_ip config) (conn_window config) T H (Mapping.lookup (wk_ip_rate_map wk) ip)" "T \<le> now"
    "0 < cfg_max_connections_per_ip config" "0 < conn_window config" "accept_conn config jp now wk = (ok, wk')"
  shows "window_ok (cfg_max_connections_per_ip config) (conn_window config) now (if ok \<and> jp = ip then H @ [now] else H)
    (Mapping.lookup (wk_ip_rate_map wk') ip)"
proof (cases "cfg_max_connections config > 0 \<and> wk_conn_count wk \<ge> cfg_max_connections config")
  case True
  with assms show ?thesis
    using window_ok_later by (auto simp: accept_conn_def)
next
  case False
  let ?lim = "cfg_max_connections_per_ip config" and ?window = "conn_window config"
  obtain n w where e: "rate_entry ?window now (Mapping.lookup (wk_ip_rate_map wk) jp) = (n, w)"
    by fastforce
  let ?m = "Mapping.update jp (n, w) (wk_ip_rate_map wk)" and ?H = "if n \<le> ?lim \<and> jp = ip then H @ [now] else H"
  have m: "window_ok ?lim ?window now ?H (Mapping.lookup ?m ip)"
    using window_ok_attempt [OF assms(1,2,4)] window_ok_later [OF assms(1,2)] e by (auto simp: lookup_update')
  have "ok \<longleftrightarrow> n \<le> ?lim" "wk_ip_rate_map wk' = ?m \<or> wk_ip_rate_map wk' = evict_windows ?window now ?m"
    using assms(3,5) False e by (auto simp: accept_conn_def rate_limit_def Let_def split: if_splits)
  with m window_ok_evict_windows [OF m assms(4)] show ?thesis
    by auto
qed

lemma accept_run_window:
  assumes "0 < cfg_max_connections_per_ip config" "0 < conn_window config"
  shows "window_ok (cfg_max_connections_per_ip config) (conn_window config) T H (Mapping.lookup (wk_ip_rate_map wk) ip) \<Longrightarrow>
    sorted (T # arrival_times evs) \<Longrightarrow>
    within (\<lambda>s. t \<le> s \<and> s < t + conn_window config)
      (H @ map snd (filter (\<lambda>c. fst c = ip) (fst (accept_run config evs wk)))) \<le> 2 * cfg_max_connections_per_ip config"
proof (induction evs arbitrary: T H wk)
  case Nil
  then show ?case
    by (simp add: window_ok_def)
next
  case (Cons ev evs)
  show ?case
  proof (cases ev)
    case (Arrival jp now)
    obtain ok wk1 where acc: "accept_conn config jp now wk = (ok, wk1)"
      by fastforce
    with Cons.prems Arrival assms
    have "window_ok (cfg_max_connections_per_ip config) (conn_window config) now (if ok \<and> jp = ip then H @ [now] else H)
        (Mapping.lookup (wk_ip_rate_map wk1) ip)"
      by (intro accept_conn_window [of config T]) auto
    from Cons.IH [OF this] Cons.prems(2) Arrival acc show ?thesis
      by (cases "accept_run config evs wk1") auto
  next
    case Accept_error
    with Cons show ?thesis
      by simp
  next
    case Conn_end
    with Cons.IH [of T H "conn_finished wk"] Cons.prems show ?thesis
      by (simp add: conn_finished_def)
  qed
qed

section \<open>A limiter without eviction\<close>

text \<open>The specification: a total map of windows that is never cleaned up.\<close>

type_synonym limiter = "nat \<times> (IpAddr \<Rightarrow> (usize \<times> Instant) option)"

definition spec_accept :: "ServerConfig \<Rightarrow> IpAddr \<Rightarrow> Instant \<Rightarrow> limiter \<Rightarrow> bool \<times> limiter" where
  "spec_accept config ip now = (\<lambda>(live, m).
     if cfg_max_connections config > 0 \<and> live \<ge> cfg_max_connections config then (False, live, m)
     else if cfg_max_connections_per_ip config = 0 then (True, live + 1, m)
     else
       let e = rate_entry (conn_window config) now (m ip); ok = (fst e \<le> cfg_max_connections_per_ip config)
       in (ok, if ok then live + 1 else live, m(ip \<mapsto> e)))"

fun spec_run :: "ServerConfig \<Rightarrow> accept_event list \<Rightarrow> limiter \<Rightarrow> (IpAddr \<times> Instant) list" where
  "spec_run config [] l = []"
| "spec_run config (Arrival ip now # evs) l =
     (case spec_accept config ip now l of (ok, l') \<Rightarrow> (if ok then [(ip, now)] else []) @ spec_run config evs l')"
| "spec_run config (Accept_error # evs) l = spec_run config evs l"
| "spec_run config (Conn_end # evs) (live, m) = spec_run config evs (live - 1, m)"

text \<open>The maps differ only in windows that have expired.\<close>

definition agree :: "ServerConfig \<Rightarrow> Instant \<Rightarrow> worker \<Rightarrow> limiter \<Rightarrow> bool" where
  "agree config T wk l \<longleftrightarrow> wk_conn_count wk = fst l \<and>
     (\<forall>ip. Mapping.lookup (wk_ip_rate_map wk) ip = snd l ip \<or>
        Mapping.lookup (wk_ip_rate_map wk) ip = None \<and> (\<exists>n w. snd l ip = Some (n, w) \<and> conn_window config \<le> T - w))"

lemma agree_later: "agree config T wk l \<Longrightarrow> T \<le> T' \<Longrightarrow> agree config T' wk l"
  unfolding agree_def by (meson diff_le_mono order_trans)

lemma agree_entry:
  assumes "agree config T wk l" "T \<le> now"
  shows "rate_entry (conn_window config) now (Mapping.lookup (wk_ip_rate_map wk) ip) = rate_entry (conn_window config) now (snd l ip)"
proof -
  have "Mapping.lookup (wk_ip_rate_map wk) ip = snd l ip \<or>
      Mapping.lookup (wk_ip_rate_map wk) ip = None \<and> (\<exists>n w. snd l ip = Some (n, w) \<and> conn_window config \<le> now - w)"
    using agree_later [OF assms] unfolding agree_def by blast
  then show ?thesis
    by (auto simp: rate_entry_def)
qed

lemma agree_update:
  assumes "agree config now wk (live, m)" "wk_conn_count wk' = live'"
    "wk_ip_rate_map wk' = Mapping.update ip e (wk_ip_rate_map wk) \<or>
     wk_ip_rate_map wk' = evict_windows (conn_window config) now (Mapping.update ip e (wk_ip_rate_map wk))"
  shows "agree config now wk' (live', m(ip \<mapsto> e))"
  unfolding agree_def
proof (intro conjI allI)
  fix jp
  let ?m = "Mapping.update ip e (wk_ip_rate_map wk)"
  have upd: "Mapping.lookup ?m jp = (m(ip \<mapsto> e)) jp \<or> Mapping.lookup ?m jp = None \<and>
      (\<exists>n w. (m(ip \<mapsto> e)) jp = Some (n, w) \<and> conn_window config \<le> now - w)"
    using assms(1) by (simp add: agree_def lookup_update')
  then have "Mapping.lookup (evict_windows (conn_window config) now ?m) jp = (m(ip \<mapsto> e)) jp \<or>
      Mapping.lookup (evict_windows (conn_window config) now ?m) jp = None \<and>
      (\<exists>n w. (m(ip \<mapsto> e)) jp = Some (n, w) \<and> conn_window config \<le> now - w)"
    unfolding lookup_evict_windows
    by (cases "(m(ip \<mapsto> e)) jp") (auto simp: not_less simp del: fun_upd_apply split: prod.split if_splits)
  with upd assms(3) show "Mapping.lookup (wk_ip_rate_map wk') jp = snd (live', m(ip \<mapsto> e)) jp \<or>
      Mapping.lookup (wk_ip_rate_map wk') jp = None \<and>
      (\<exists>n w. snd (live', m(ip \<mapsto> e)) jp = Some (n, w) \<and> conn_window config \<le> now - w)"
    by auto
qed (simp add: assms(2))

lemma agree_accept:
  assumes "agree config T wk (live, m)" "T \<le> now" "accept_conn config ip now wk = (ok, wk')"
  shows "\<exists>l'. spec_accept config ip now (live, m) = (ok, l') \<and> agree config now wk' l'"
proof -
  note later = agree_later [OF assms(1,2)]
  let ?e = "rate_entry (conn_window config) now (m ip)"
  have entry: "rate_entry (conn_window config) now (Mapping.lookup (wk_ip_rate_map wk) ip) = ?e"
    using agree_entry [OF assms(1,2), of ip] by simp
  have live: "wk_conn_count wk = live"
    using assms(1) by (simp add: agree_def)
  consider (full) "cfg_max_connections config > 0 \<and> live \<ge> cfg_max_connections config"
    | (free) "\<not> (cfg_max_connections config > 0 \<and> live \<ge> cfg_max_connections config)" "cfg_max_connections_per_ip config = 0"
    | (rated) "\<not> (cfg_max_connections config > 0 \<and> live \<ge> cfg_max_connections config)" "cfg_max_connections_per_ip config > 0"
    by blast
  then show ?thesis
  proof cases
    case full
    with assms(3) later live show ?thesis
      by (simp add: accept_conn_def spec_accept_def)
  next
    case free
    with assms(3) later live show ?thesis
      by (auto simp: accept_conn_def spec_accept_def rate_limit_def agree_def)
  next
    case rated
    let ?ok = "fst ?e \<le> cfg_max_connections_per_ip config"
    have "ok = ?ok" "wk_conn_count wk' = (if ?ok then live + 1 else live)"
      "wk_ip_rate_map wk' = Mapping.update ip ?e (wk_ip_rate_map wk) \<or>
       wk_ip_rate_map wk' = evict_windows (conn_window config) now (Mapping.update ip ?e (wk_ip_rate_map wk))"
      using assms(3) rated live by (auto simp: accept_conn_def rate_limit_def Let_def entry split: if_splits)
    with agree_update [OF later] rated show ?thesis
      by (auto simp: spec_accept_def Let_def)
  qed
qed

lemma agree_run: "agree config T wk l \<Longrightarrow> sorted (T # arrival_times evs) \<Longrightarrow> fst (accept_run config evs wk) = spec_run config evs l"
proof (induction evs arbitrary: T wk l)
  case (Cons ev evs)
  obtain live m where l: "l = (live, m)"
    by fastforce
  show ?case
  proof (cases ev)
    case (Arrival ip now)
    obtain ok wk1 where acc: "accept_conn config ip now wk = (ok, wk1)"
      by fastforce
    with agree_accept [of config T wk live m now ip ok wk1] Cons.prems Arrival l
    obtain l' where "spec_accept config ip now l = (ok, l')" "agree config now wk1 l'"
      by auto
    with Cons.IH [of now wk1 l'] Cons.prems Arrival acc show ?thesis
      by (cases "accept_run config evs wk1") auto
  next
    case Accept_error
    with Cons.IH [OF Cons.prems(1)] Cons.prems(2) show ?thesis
      by simp
  next
    case Conn_end
    have "agree config T (conn_finished wk) (live - 1, m)"
      using Cons.prems(1) by (simp add: agree_def conn_finished_def l)
    with Cons.IH Cons.prems(2) Conn_end l show ?thesis
      by simp
  qed
qed simp

section \<open>Properties\<close>

text \<open>C15. The limit of simultaneous connections: the counter of a worker is always the number of its connections that
  have not ended; that number never exceeds the limit; and a new connection is served exactly when there
  is room for it and the limit per address lets it pass.\<close>

theorem connection_limit:
  assumes "worker_reaches config wk live"
  shows "wk_conn_count wk = live \<and> (cfg_max_connections config = 0 \<or> live \<le> cfg_max_connections config) \<and>
    fst (accept_conn config ip now wk) =
      ((cfg_max_connections config = 0 \<or> live < cfg_max_connections config) \<and> fst (rate_limit config ip now wk))"
proof -
  have keep: "wk_conn_count (snd (rate_limit config jp t v)) = wk_conn_count v" for jp t v
    by (simp add: rate_limit_def Let_def)
  from assms have "wk_conn_count wk = live \<and> (cfg_max_connections config = 0 \<or> live \<le> cfg_max_connections config)"
  proof induction
    case (served wk live jp t wk')
    then show ?case
      using keep [of jp t wk] by (auto simp: accept_conn_def split: if_splits prod.splits bool.splits)
  next
    case (dropped wk live jp t wk')
    then show ?case
      using keep [of jp t wk] by (auto simp: accept_conn_def split: if_splits prod.splits bool.splits)
  qed (auto simp: worker_new_def conn_finished_def)
  then show ?thesis
    by (auto simp: accept_conn_def split: prod.split bool.split)
qed

definition small_config :: ServerConfig where
  "small_config = ServerConfig_default\<lparr>cfg_max_connections := 2, cfg_max_connections_per_ip := 1\<rparr>"

abbreviation host_a :: IpAddr where
  "host_a \<equiv> V4 (Ipv4 10 0 0 1)"

lemma small_config_simps [simp]:
  "cfg_max_connections small_config = 2" "cfg_max_connections_per_ip small_config = 1" "conn_window small_config = 60000000000"
  by (simp_all add: small_config_def ServerConfig_default_def conn_window_def from_secs_def)

lemma small_accept: "accept_conn small_config host_a 5 worker_new =
    (True, \<lparr>wk_conn_count = 1, wk_ip_rate_map = Mapping.update host_a (1, 5) Mapping.empty, wk_accept_count = 1\<rparr>)"
  by (simp add: accept_conn_def rate_limit_def rate_entry_def worker_new_def Let_def)

theorem connection_limit_witness:
  "\<exists>wk. worker_reaches small_config wk 1 \<and> wk_conn_count wk = 1 \<and> \<not> fst (accept_conn small_config host_a 6 wk)"
proof -
  let ?wk = "snd (accept_conn small_config host_a 5 worker_new)"
  have "worker_reaches small_config ?wk 1"
    using worker_reaches.served [OF worker_reaches.start, of small_config host_a 5] small_accept by simp
  moreover from connection_limit [OF this, of host_a 6]
  have "wk_conn_count ?wk = 1 \<and> \<not> fst (accept_conn small_config host_a 6 ?wk)"
    by (simp add: small_accept rate_limit_def rate_entry_def Let_def)
  ultimately show ?thesis
    by blast
qed

text \<open>C13. The limit per address holds for every window of time, not only for the windows that the worker keeps: in a
  run of any length, with connections refused, ended and evicted at any point, no interval as long as the
  configured window has more than twice the limit of connections served to one address.\<close>

theorem rate_limit_any_window:
  assumes "0 < cfg_max_connections_per_ip config" "sorted (arrival_times evs)"
  shows "length (filter (\<lambda>c. fst c = ip \<and> t \<le> snd c \<and> snd c < t + conn_window config) (fst (accept_run config evs worker_new)))
     \<le> 2 * cfg_max_connections_per_ip config"
proof (cases "conn_window config = 0")
  case False
  have "window_ok (cfg_max_connections_per_ip config) (conn_window config) 0 [] (Mapping.lookup (wk_ip_rate_map worker_new) ip)"
    by (simp add: worker_new_def window_ok_def)
  from accept_run_window [OF assms(1) _ this, of evs t] False assms(2) show ?thesis
    by (simp add: within_def filter_map comp_def conj_commute)
qed simp

theorem rate_limit_any_window_witness:
  "length (filter (\<lambda>c. fst c = host_a \<and> 0 \<le> snd c \<and> snd c < 0 + conn_window small_config)
     (fst (accept_run small_config [Arrival host_a 5, Accept_error, Arrival host_a 6] worker_new))) \<le> 2"
  using rate_limit_any_window [of small_config "[Arrival host_a 5, Accept_error, Arrival host_a 6]" host_a 0] by simp

text \<open>C38. Dropping expired windows never changes a decision: on every run, the connections served are those that a
  limiter which keeps every window forever would serve.\<close>

theorem eviction_unobservable:
  assumes "sorted (arrival_times evs)"
  shows "fst (accept_run config evs worker_new) = spec_run config evs (0, \<lambda>_. None)"
proof -
  have "agree config 0 worker_new (0, \<lambda>_. None)"
    by (simp add: agree_def worker_new_def)
  then show ?thesis
    using assms by (intro agree_run) auto
qed

theorem eviction_unobservable_witness:
  "spec_run small_config [Arrival host_a 5, Arrival host_a 6, Conn_end] (0, \<lambda>_. None) =
   fst (accept_run small_config [Arrival host_a 5, Arrival host_a 6, Conn_end] worker_new)"
  using eviction_unobservable [of "[Arrival host_a 5, Arrival host_a 6, Conn_end]" small_config] by simp

end
