(* ===== verification/Ws_Mask.thy ===== *)
theory Ws_Mask
  imports Prelude
begin

text \<open>
  Payload masking, \<^verbatim>\<open>vendor/fastwebsockets/src/mask.rs\<close>: the byte-wise reference routine, the
  word-wise routine over an aligned middle part, and the SSE2 and AVX2 block routines.  The lemmas show
  that all of them compute the same function, for every alignment of the buffer and either byte order.

  A mask \<^verbatim>\<open>[u8; 4]\<close> is a byte list of length four.  How \<^verbatim>\<open>align_to_mut\<close> splits a slice is not specified by
  the standard library beyond the sizes of the parts, so the split is an argument: \<open>split a n\<close> gives, for
  a slice of \<open>n\<close> bytes at address \<open>a\<close>, the length of the prefix and the number of words.  The byte order
  of the target is the argument \<open>big\<close>.
\<close>

section \<open>Routines\<close>

definition unmask_easy :: "bytes \<Rightarrow> bytes \<Rightarrow> bytes" where
  "unmask_easy payload key =
     map (\<lambda>(i, v). v XOR key ! unat ((of_nat i :: u64) AND 3)) (enumerate 0 payload)"

definition u32_from_ne_bytes :: "bool \<Rightarrow> bytes \<Rightarrow> u32" where
  "u32_from_ne_bytes big bs = u32_from_le_bytes (if big then rev bs else bs)"

definition u32_to_ne_bytes :: "bool \<Rightarrow> u32 \<Rightarrow> bytes" where
  "u32_to_ne_bytes big w = (if big then rev (u32_to_le_bytes w) else u32_to_le_bytes w)"

text \<open>Consecutive groups of \<open>n\<close> bytes.\<close>

fun groups :: "nat \<Rightarrow> nat \<Rightarrow> 'a list \<Rightarrow> 'a list list" where
  "groups n 0 xs = []"
| "groups n (Suc k) xs = take n xs # groups n k (drop n xs)"

type_synonym align = "usize \<Rightarrow> usize \<Rightarrow> nat \<times> nat"

definition unmask_fallback :: "bool \<Rightarrow> align \<Rightarrow> usize \<Rightarrow> bytes \<Rightarrow> bytes \<Rightarrow> bytes" where
  "unmask_fallback big split addr buf key =
     (let mask_u32 = u32_from_ne_bytes big key;
          (p, k) = split addr (length buf);
          prefix = take p buf;
          words = map (u32_from_ne_bytes big) (groups 4 k (drop p buf));
          suffix = drop (p + 4 * k) buf;
          head = p mod 4;
          mask_u32 = (if head > 0 then
                        (if big then word_rotl (8 * head) mask_u32 else word_rotr (8 * head) mask_u32)
                      else mask_u32)
      in unmask_easy prefix key
         @ concat (map (\<lambda>w. u32_to_ne_bytes big (w XOR mask_u32)) words)
         @ unmask_easy suffix (u32_to_ne_bytes big mask_u32))"

text \<open>
  The vector loops: each block is loaded, combined lane by lane with the broadcast mask and stored.  A
  vector register is the list of its bytes in memory order.
\<close>

definition set1_epi32 :: "nat \<Rightarrow> bytes \<Rightarrow> bytes" where
  "set1_epi32 lanes key = concat (replicate lanes key)"

definition vec_xor :: "bytes \<Rightarrow> bytes \<Rightarrow> bytes" where
  "vec_xor a b = map2 (XOR) a b"

definition xor_blocks :: "nat \<Rightarrow> nat \<Rightarrow> bytes \<Rightarrow> bytes \<Rightarrow> bytes" where
  "xor_blocks block k mask_v payload = concat (map (\<lambda>data. vec_xor data mask_v) (groups block k payload))"

definition unmask_sse2 :: "bool \<Rightarrow> align \<Rightarrow> usize \<Rightarrow> bytes \<Rightarrow> bytes \<Rightarrow> bytes" where
  "unmask_sse2 big split addr payload key =
     (let len = length payload in
      if len < 16 then unmask_fallback big split addr payload key
      else let mask_v = set1_epi32 4 key;
               aligned_end = len - len mod 16
           in xor_blocks 16 (aligned_end div 16) mask_v payload
              @ (if aligned_end < len
                 then unmask_fallback big split (addr + aligned_end) (drop aligned_end payload) key
                 else []))"

definition unmask_avx2 :: "bool \<Rightarrow> align \<Rightarrow> usize \<Rightarrow> bytes \<Rightarrow> bytes \<Rightarrow> bytes" where
  "unmask_avx2 big split addr payload key =
     (let len = length payload;
          mask_v = set1_epi32 8 key;
          aligned_end = len - len mod 32
      in xor_blocks 32 (aligned_end div 32) mask_v payload
         @ (if aligned_end < len
            then unmask_sse2 big split (addr + aligned_end) (drop aligned_end payload) key
            else []))"

text \<open>\<open>x86_64\<close> and \<open>avx2\<close> stand for the compile-time target and the (static or detected) feature.\<close>

definition unmask :: "bool \<Rightarrow> bool \<Rightarrow> bool \<Rightarrow> align \<Rightarrow> usize \<Rightarrow> bytes \<Rightarrow> bytes \<Rightarrow> bytes" where
  "unmask x86_64 avx2 big split addr payload key =
     (if x86_64 then
        (let len = length payload in
         if len \<ge> 32 \<and> avx2 then unmask_avx2 big split addr payload key
         else if len \<ge> 16 then unmask_sse2 big split addr payload key
         else unmask_fallback big split addr payload key)
      else unmask_fallback big split addr payload key)"

text \<open>The reference: byte \<open>i\<close> is combined with byte \<open>i mod 4\<close> of the mask, from offset \<open>k\<close> on.\<close>

definition mask_from :: "nat \<Rightarrow> bytes \<Rightarrow> bytes \<Rightarrow> bytes" where
  "mask_from k key payload = map (\<lambda>(i, v). v XOR key ! (i mod 4)) (enumerate k payload)"

definition align_ok :: "align \<Rightarrow> bool" where
  "align_ok split \<longleftrightarrow> (\<forall>addr n. fst (split addr n) + 4 * snd (split addr n) \<le> n)"

section \<open>Lemmas on the reference\<close>

lemma length_mask_from [simp]: "length (mask_from k key xs) = length xs"
  by (simp add: mask_from_def)

lemma nth_mask_from: "i < length xs \<Longrightarrow> mask_from k key xs ! i = xs ! i XOR key ! ((k + i) mod 4)"
  by (simp add: mask_from_def nth_enumerate_eq)

lemma mask_from_append: "mask_from k key (xs @ ys) = mask_from k key xs @ mask_from (k + length xs) key ys"
  by (simp add: mask_from_def enumerate_append_eq)

lemma mask_from_Nil [simp]: "mask_from k key [] = []"
  by (simp add: mask_from_def)

lemma mask_from_mod: "mask_from (k mod 4) key xs = mask_from k key xs"
  by (rule nth_equalityI) (simp_all add: nth_mask_from mod_add_left_eq)

lemma mask_from_add4: "4 dvd d \<Longrightarrow> mask_from (k + d) key xs = mask_from k key xs"
  by (metis mask_from_mod mod_add_right_eq add.right_neutral dvd_imp_mod_0)

lemma mask_from_involution: "mask_from k key (mask_from k key xs) = xs"
  by (rule nth_equalityI) (simp_all add: nth_mask_from xor.assoc)

lemma unmask_easy_eq: "unmask_easy payload key = mask_from 0 key payload"
proof -
  have "unat ((of_nat i :: u64) AND 3) = i mod 4" for i
  proof -
    have "(of_nat i :: u64) AND 3 = take_bit 2 (of_nat i)"
      by (simp add: take_bit_eq_mask mask_eq_exp_minus_1)
    then have "unat ((of_nat i :: u64) AND 3) = take_bit 2 (unat (of_nat i :: u64))"
      by (simp add: unsigned_take_bit_eq)
    also have "\<dots> = i mod 4"
      by (simp add: unat_of_nat take_bit_eq_mod mod_mod_cancel)
    finally show ?thesis .
  qed
  then show ?thesis
    by (simp add: unmask_easy_def mask_from_def)
qed

section \<open>Words as bytes\<close>

lemma nth_le_bytes: "i < k \<Longrightarrow> le_bytes k n ! i = of_nat (n div 256 ^ i)"
  by (induction k arbitrary: n i) (auto simp: nth_Cons div_mult2_eq split: nat.split)

lemma nth_u32_bytes: "i < 4 \<Longrightarrow> u32_to_le_bytes w ! i = ucast (drop_bit (8 * i) w)"
proof -
  assume "i < 4"
  then have "u32_to_le_bytes w ! i = of_nat (unat w div 2 ^ (8 * i))"
    by (simp add: u32_to_le_bytes_def nth_le_bytes power_mult)
  also have "unat w div 2 ^ (8 * i) = unat (drop_bit (8 * i) w)"
    by (simp add: unsigned_drop_bit_eq take_bit_nat_eq_self flip: drop_bit_eq_div [of _ "unat w"])
  finally show ?thesis
    by (simp add: unsigned_ucast_eq of_nat_unat)
qed

lemma u32_bytes_xor: "u32_to_le_bytes (v XOR w) = map2 (XOR) (u32_to_le_bytes v) (u32_to_le_bytes w)"
proof (rule nth_equalityI)
  fix i
  assume "i < length (u32_to_le_bytes (v XOR w))"
  then show "u32_to_le_bytes (v XOR w) ! i = map2 (XOR) (u32_to_le_bytes v) (u32_to_le_bytes w) ! i"
    by (simp add: nth_u32_bytes) (rule bit_word_eqI, auto simp: bit_simps)
qed simp

lemma u32_bytes_rotr:
  assumes "i < 4"
  shows "u32_to_le_bytes (word_rotr (8 * h) w) ! i = u32_to_le_bytes w ! ((i + h) mod 4)"
proof -
  have "ucast (drop_bit (8 * i) (word_rotr (8 * h) w)) = (ucast (drop_bit (8 * ((i + h) mod 4)) w) :: u8)"
  proof (rule bit_word_eqI)
    fix n :: nat
    assume "n < LENGTH(8)"
    then have n: "n < 8" by simp
    have "(n + 8 * i + 8 * h) mod 32 = n + 8 * ((i + h) mod 4)"
    proof -
      have "(n + 8 * (i + h)) div 8 = i + h" "(n + 8 * (i + h)) mod 8 = n"
        using n mod_mult_self2 [of n 8 "i + h"] by simp_all
      then show ?thesis
        using mod_mult2_eq [of "n + 8 * (i + h)" 8 4] by (simp add: distrib_left add.assoc)
    qed
    with n assms show "bit (ucast (drop_bit (8 * i) (word_rotr (8 * h) w)) :: u8) n \<longleftrightarrow>
        bit (ucast (drop_bit (8 * ((i + h) mod 4)) w) :: u8) n"
      by (auto simp: bit_simps bit_word_rotr_iff ac_simps)
  qed
  with assms show ?thesis
    by (simp add: nth_u32_bytes)
qed

lemma less_4_cases: "(n :: nat) < 4 \<Longrightarrow> n = 0 \<or> n = 1 \<or> n = 2 \<or> n = 3"
  by linarith

lemma word_rotl_rotr: "h < 4 \<Longrightarrow> word_rotl (8 * h) (w :: u32) = word_rotr (8 * (4 - h)) w"
  using less_4_cases [of h] by (auto intro!: bit_word_eqI simp: bit_word_rotl_iff bit_word_rotr_iff)

lemma length_ne_bytes [simp]: "length (u32_to_ne_bytes big w) = 4"
  by (simp add: u32_to_ne_bytes_def)

lemma ne_bytes_roundtrip: "length bs = 4 \<Longrightarrow> u32_to_ne_bytes big (u32_from_ne_bytes big bs) = bs"
  by (simp add: u32_to_ne_bytes_def u32_from_ne_bytes_def to_bytes_from_bytes)

lemma nth_xor_ne_bytes:
  "length bs = 4 \<Longrightarrow> i < 4 \<Longrightarrow>
   u32_to_ne_bytes big (u32_from_ne_bytes big bs XOR m) ! i = bs ! i XOR u32_to_ne_bytes big m ! i"
  by (simp add: u32_to_ne_bytes_def u32_from_ne_bytes_def u32_bytes_xor to_bytes_from_bytes rev_nth)

text \<open>Rotating the word by whole bytes starts the mask at another offset, in either byte order.\<close>

definition rotate_key :: "bool \<Rightarrow> nat \<Rightarrow> u32 \<Rightarrow> u32" where
  "rotate_key big h w = (if h > 0 then (if big then word_rotl (8 * h) w else word_rotr (8 * h) w) else w)"

lemma nth_rotate_key:
  assumes "h < 4" "i < 4" "length key = 4"
  shows "u32_to_ne_bytes big (rotate_key big h (u32_from_ne_bytes big key)) ! i = key ! ((i + h) mod 4)"
proof (cases big)
  case True
  have "(3 - i + (4 - h)) mod 4 = 3 - (i + h) mod 4"
    using less_4_cases [OF assms(1)] less_4_cases [OF assms(2)] by (elim disjE) simp_all
  moreover have "(i + h) mod 4 < 4"
    by simp
  ultimately show ?thesis
    using True assms
    by (simp add: rotate_key_def u32_to_ne_bytes_def u32_from_ne_bytes_def rev_nth word_rotl_rotr
        u32_bytes_rotr to_bytes_from_bytes Suc_diff_Suc)
next
  case False
  with assms show ?thesis
    by (simp add: rotate_key_def u32_to_ne_bytes_def u32_from_ne_bytes_def u32_bytes_rotr
        to_bytes_from_bytes)
qed

section \<open>Blocks\<close>

text \<open>
  Masking in groups of \<open>n\<close> bytes, \<open>n\<close> a multiple of four, is masking the whole.
\<close>

lemma concat_groups_mask:
  assumes "\<And>xs. length xs = n \<Longrightarrow> f xs = mask_from k key xs" "4 dvd n" "n * m \<le> length xs"
  shows "concat (map f (groups n m xs)) = mask_from k key (take (n * m) xs)"
  using assms(3)
proof (induction m arbitrary: xs)
  case (Suc m)
  then have "concat (map f (groups n m (drop n xs))) = mask_from k key (take (n * m) (drop n xs))"
    by simp
  moreover have "f (take n xs) = mask_from k key (take n xs)"
    using Suc.prems by (intro assms(1)) simp
  moreover have "take (n * Suc m) xs = take n xs @ take (n * m) (drop n xs)"
    by (simp add: take_add)
  ultimately show ?case
    using Suc.prems assms(2) by (simp add: mask_from_append mask_from_add4)
qed simp

lemma word_group_mask:
  assumes "length xs = 4" "length key = 4" "h < 4"
  shows "u32_to_ne_bytes big (u32_from_ne_bytes big xs XOR rotate_key big h (u32_from_ne_bytes big key)) =
    mask_from h key xs"
  by (rule nth_equalityI)
    (use assms in \<open>simp_all add: nth_xor_ne_bytes nth_rotate_key nth_mask_from add.commute\<close>)

lemma nth_set1: "length key = 4 \<Longrightarrow> i < 4 * lanes \<Longrightarrow> set1_epi32 lanes key ! i = key ! (i mod 4)"
proof (induction lanes arbitrary: i)
  case (Suc l)
  show ?case
  proof (cases "i < 4")
    case True
    with Suc.prems show ?thesis
      by (simp add: set1_epi32_def nth_append)
  next
    case False
    with Suc.prems Suc.IH [of "i - 4"] have "set1_epi32 l key ! (i - 4) = key ! ((i - 4) mod 4)"
      by simp
    moreover have "(i - 4) mod 4 = i mod 4"
      using False by (simp add: le_mod_geq)
    ultimately show ?thesis
      using False Suc.prems by (simp add: set1_epi32_def nth_append)
  qed
qed simp

lemma length_set1 [simp]: "length key = 4 \<Longrightarrow> length (set1_epi32 lanes key) = 4 * lanes"
  by (simp add: set1_epi32_def length_concat sum_list_replicate)

lemma xor_blocks_eq:
  assumes "length key = 4" "4 * lanes * m \<le> length xs"
  shows "xor_blocks (4 * lanes) m (set1_epi32 lanes key) xs = mask_from 0 key (take (4 * lanes * m) xs)"
  unfolding xor_blocks_def
proof (rule concat_groups_mask)
  fix ys :: bytes
  assume "length ys = 4 * lanes"
  with assms(1) show "vec_xor ys (set1_epi32 lanes key) = mask_from 0 key ys"
    by (intro nth_equalityI) (simp_all add: vec_xor_def nth_set1 nth_mask_from)
qed (use assms in simp_all)

section \<open>All routines agree\<close>

lemma unmask_fallback_eq:
  assumes "align_ok split" "length key = 4"
  shows "unmask_fallback big split addr buf key = mask_from 0 key buf"
proof -
  obtain p k where sp: "split addr (length buf) = (p, k)"
    by fastforce
  with assms(1) have le: "p + 4 * k \<le> length buf"
    by (metis align_ok_def fst_conv snd_conv)
  let ?rot = "rotate_key big (p mod 4) (u32_from_ne_bytes big key)"
  let ?mid = "take (4 * k) (drop p buf)" and ?suf = "drop (p + 4 * k) buf"
  have words: "concat (map (\<lambda>w. u32_to_ne_bytes big (w XOR ?rot)) (map (u32_from_ne_bytes big) (groups 4 k (drop p buf)))) =
      mask_from (p mod 4) key ?mid"
    unfolding map_map comp_def
    by (rule concat_groups_mask) (use assms(2) le word_group_mask in simp_all)
  have suffix: "unmask_easy ?suf (u32_to_ne_bytes big ?rot) = mask_from (p mod 4) key ?suf"
    by (rule nth_equalityI) (use assms(2) in \<open>simp_all add: unmask_easy_eq nth_mask_from nth_rotate_key
        mod_add_left_eq add.commute\<close>)
  have "buf = take p buf @ ?mid @ ?suf"
    by (metis append_take_drop_id drop_drop add.commute)
  then have "mask_from 0 key buf = mask_from 0 key (take p buf @ ?mid @ ?suf)"
    by simp
  also have "\<dots> = mask_from 0 key (take p buf) @ mask_from p key ?mid @ mask_from (p + 4 * k) key ?suf"
    using le by (simp only: mask_from_append) simp
  also have "\<dots> = unmask_easy (take p buf) key @ mask_from (p mod 4) key ?mid @ mask_from (p mod 4) key ?suf"
    by (simp add: unmask_easy_eq mask_from_mod mask_from_add4)
  finally show ?thesis
    using words suffix unfolding unmask_fallback_def Let_def sp prod.case rotate_key_def [symmetric] by simp
qed

lemma block_split:
  assumes "4 dvd (b :: nat)" "length key = 4" "b > 0" "e = length xs - length xs mod b"
  shows "mask_from 0 key (take (b * (e div b)) xs) @ mask_from 0 key (drop e xs) = mask_from 0 key xs"
proof -
  have "b * (e div b) = e"
    using assms(3,4) by (simp add: minus_mod_eq_mult_div)
  moreover have "4 dvd e"
    using assms(1,4) by (simp add: minus_mod_eq_mult_div)
  ultimately show ?thesis
    using assms(4) mask_from_append [of 0 key "take e xs" "drop e xs"] mask_from_add4 [of e 0 key "drop e xs"]
    by simp
qed

lemma unmask_sse2_eq:
  assumes "align_ok split" "length key = 4"
  shows "unmask_sse2 big split addr xs key = mask_from 0 key xs"
  using xor_blocks_eq [OF assms(2), of 4 "(length xs - length xs mod 16) div 16" xs]
    block_split [of 16 key "length xs - length xs mod 16" xs] unmask_fallback_eq [OF assms] assms(2)
  by (auto simp: unmask_sse2_def Let_def minus_mod_eq_mult_div)

lemma unmask_avx2_eq:
  assumes "align_ok split" "length key = 4"
  shows "unmask_avx2 big split addr xs key = mask_from 0 key xs"
  using xor_blocks_eq [OF assms(2), of 8 "(length xs - length xs mod 32) div 32" xs]
    block_split [of 32 key "length xs - length xs mod 32" xs] unmask_sse2_eq [OF assms] assms(2)
  by (auto simp: unmask_avx2_def Let_def minus_mod_eq_mult_div)

lemma unmask_eq:
  "align_ok split \<Longrightarrow> length key = 4 \<Longrightarrow> unmask x86 avx2 big split addr xs key = mask_from 0 key xs"
  by (simp add: unmask_def unmask_avx2_eq unmask_sse2_eq unmask_fallback_eq Let_def)

section \<open>Properties\<close>

text \<open>C19. Whatever the processor features, the byte order, the alignment of the buffer and the payload length,
  the masking routine combines byte \<open>i\<close> with byte \<open>i mod 4\<close> of the mask; it keeps the length, and applying it
  twice with the same mask, also on differently aligned buffers, gives the payload back.\<close>

theorem unmask_correct:
  assumes "align_ok split" "length key = 4"
  shows "unmask x86 avx2 big split addr payload key =
      map (\<lambda>i. payload ! i XOR key ! (i mod 4)) [0..<length payload] \<and>
    unmask x86 avx2 big split addr payload key = unmask_easy payload key \<and>
    unmask x86' avx2' big' split addr' (unmask x86 avx2 big split addr payload key) key = payload"
proof -
  have "mask_from 0 key payload = map (\<lambda>i. payload ! i XOR key ! (i mod 4)) [0..<length payload]"
    by (rule nth_equalityI) (simp_all add: nth_mask_from)
  moreover note mask_from_involution [of 0 key payload]
  ultimately show ?thesis
    using assms by (simp add: unmask_eq unmask_easy_eq)
qed

theorem unmask_correct_witness:
  "unmask True True False (\<lambda>a n. (min n ((4 - a mod 4) mod 4), (n - min n ((4 - a mod 4) mod 4)) div 4)) 3
     (replicate 33 0) [1, 2, 3, 4] ! 32 = 1"
proof -
  let ?split = "\<lambda>a n. (min n ((4 - a mod 4) mod 4), (n - min n ((4 - a mod 4) mod 4)) div 4) :: nat \<times> nat"
  have "align_ok ?split"
    unfolding align_ok_def
    by (simp, metis le_add_diff_inverse min.cobounded1 nat_add_left_cancel_le times_div_less_eq_dividend)
  then have "unmask True True False ?split 3 (replicate 33 0) [1, 2, 3, 4] =
      map (\<lambda>i. replicate 33 0 ! i XOR [1, 2, 3, 4] ! (i mod 4)) [0..<33]"
    using unmask_correct [of ?split "[1, 2, 3, 4]" True True False 3 "replicate 33 0"] by simp
  then show ?thesis
    by (simp del: upt_Suc upt_rec_numeral)
qed

end
