(* ===== verification/Protocol_Types.thy ===== *)
theory Protocol_Types
  imports Prelude
begin

text \<open>
  Wisp v2.1 protocol constants and enums, \<^verbatim>\<open>src/protocol/types.rs\<close>: packet types, stream types, close
  reasons and their one-byte codes, and the two payload structs.  The lemmas show that the close
  reason codes are a faithful one-byte encoding.
\<close>

definition WISP_VERSION_MAJOR :: u8 where [simp]: "WISP_VERSION_MAJOR = 2"
definition WISP_VERSION_MINOR :: u8 where [simp]: "WISP_VERSION_MINOR = 1"
definition PACKET_CONNECT :: u8 where [simp]: "PACKET_CONNECT = 0x01"
definition PACKET_DATA :: u8 where [simp]: "PACKET_DATA = 0x02"
definition PACKET_CONTINUE :: u8 where [simp]: "PACKET_CONTINUE = 0x03"
definition PACKET_CLOSE :: u8 where [simp]: "PACKET_CLOSE = 0x04"
definition PACKET_INFO :: u8 where [simp]: "PACKET_INFO = 0x05"
definition STREAM_ID_CONTROL :: u32 where [simp]: "STREAM_ID_CONTROL = 0"
definition WISP_HEADER_SIZE :: usize where [simp]: "WISP_HEADER_SIZE = 5"

datatype StreamType = Tcp | Udp

definition StreamType_from_byte :: "u8 \<Rightarrow> StreamType option" where
  "StreamType_from_byte b =
     (if b = 0x01 then Some Tcp else if b = 0x02 then Some Udp else None)"

definition StreamType_as_byte :: "StreamType \<Rightarrow> u8" where
  "StreamType_as_byte t = (case t of Tcp \<Rightarrow> 0x01 | Udp \<Rightarrow> 0x02)"

datatype CloseReason =
    Unknown | Voluntary | NetworkError | IncompatibleExtensions
  | InvalidInfo | Unreachable | TimedOut | Refused
  | TransferTimeout | Blocked | Throttled | ClientError
  | AuthInvalidCredentials | AuthInvalidSignature | AuthRequired

text \<open>\<^verbatim>\<open>self as u8\<close> on a \<^verbatim>\<open>repr(u8)\<close> enum is its discriminant.\<close>

fun CloseReason_as_byte :: "CloseReason \<Rightarrow> u8" where
  "CloseReason_as_byte Unknown = 0x01"
| "CloseReason_as_byte Voluntary = 0x02"
| "CloseReason_as_byte NetworkError = 0x03"
| "CloseReason_as_byte IncompatibleExtensions = 0x04"
| "CloseReason_as_byte InvalidInfo = 0x41"
| "CloseReason_as_byte Unreachable = 0x42"
| "CloseReason_as_byte TimedOut = 0x43"
| "CloseReason_as_byte Refused = 0x44"
| "CloseReason_as_byte TransferTimeout = 0x47"
| "CloseReason_as_byte Blocked = 0x48"
| "CloseReason_as_byte Throttled = 0x49"
| "CloseReason_as_byte ClientError = 0x81"
| "CloseReason_as_byte AuthInvalidCredentials = 0xc0"
| "CloseReason_as_byte AuthInvalidSignature = 0xc1"
| "CloseReason_as_byte AuthRequired = 0xc2"

definition CloseReason_from_byte :: "u8 \<Rightarrow> CloseReason" where
  "CloseReason_from_byte b =
     (if b = 0x01 then Unknown else if b = 0x02 then Voluntary
      else if b = 0x03 then NetworkError else if b = 0x04 then IncompatibleExtensions
      else if b = 0x41 then InvalidInfo else if b = 0x42 then Unreachable
      else if b = 0x43 then TimedOut else if b = 0x44 then Refused
      else if b = 0x47 then TransferTimeout else if b = 0x48 then Blocked
      else if b = 0x49 then Throttled else if b = 0x81 then ClientError
      else if b = 0xc0 then AuthInvalidCredentials else if b = 0xc1 then AuthInvalidSignature
      else if b = 0xc2 then AuthRequired else Unknown)"

record ConnectPayload =
  cp_stream_type :: StreamType
  cp_port :: u16
  cp_hostname :: string

record ExtensionEntry =
  ext_id :: u8
  ext_payload :: bytes

lemma StreamType_from_as_byte [codec, simp]: "StreamType_from_byte (StreamType_as_byte t) = Some t"
  by (cases t) (simp_all add: StreamType_from_byte_def StreamType_as_byte_def)

lemma StreamType_from_byte_Some:
  "StreamType_from_byte b = Some t \<Longrightarrow> StreamType_as_byte t = b"
  by (auto simp: StreamType_from_byte_def StreamType_as_byte_def split: if_splits)

lemma CloseReason_from_as_byte [codec, simp]: "CloseReason_from_byte (CloseReason_as_byte r) = r"
  by (cases r) (simp_all add: CloseReason_from_byte_def)

lemma CloseReason_as_byte_inject [simp]: "CloseReason_as_byte r = CloseReason_as_byte r' \<longleftrightarrow> r = r'"
  by (metis CloseReason_from_as_byte)

text \<open>A byte decodes to the reason it encodes, or it is not a code of the protocol at all.\<close>

lemma CloseReason_as_from_byte:
  "CloseReason_as_byte (CloseReason_from_byte b) = b \<or>
   (CloseReason_from_byte b = Unknown \<and> (\<forall>r. CloseReason_as_byte r \<noteq> b))"
proof (cases "\<exists>r. CloseReason_as_byte r = b")
  case True
  then show ?thesis by auto
next
  case False
  then have "b \<noteq> CloseReason_as_byte r" for r by blast
  from this [of Voluntary] this [of NetworkError] this [of IncompatibleExtensions]
    this [of InvalidInfo] this [of Unreachable] this [of TimedOut] this [of Refused]
    this [of TransferTimeout] this [of Blocked] this [of Throttled] this [of ClientError]
    this [of AuthInvalidCredentials] this [of AuthInvalidSignature] this [of AuthRequired]
  have "CloseReason_from_byte b = Unknown"
    by (simp add: CloseReason_from_byte_def)
  with False show ?thesis by blast
qed

end
