(* ===== verification/Stream_Table.thy ===== *)
theory Stream_Table
  imports Protocol_Types Net_Addr
begin

text \<open>
  Per-stream proxy state and the hybrid stream table, \<^verbatim>\<open>src/proxy/stream.rs\<close>.

  A \<^verbatim>\<open>CancelFlag\<close> is an \<^verbatim>\<open>Rc<Cell<bool>>\<close>: its clones share one cell, so it is modelled as the address
  of a cell in an explicit store that the operations pass along.  A socket half is a handle; what
  the socket does is the business of the environment (theory \<open>Backend_Write\<close>).

  The table keeps identifiers below 8192 in a vector and all others in a hash map.  The lemmas show
  that the two together implement one finite map, and the locale \<open>stream_store\<close> states that interface
  for the connection handlers.
\<close>

section \<open>Cancellation flags\<close>

type_synonym CancelFlag = nat
type_synonym cells = "bool list"
type_synonym sock = nat

definition CancelFlag_new :: "cells \<Rightarrow> CancelFlag \<times> cells" where
  "CancelFlag_new h = (length h, h @ [False])"

definition CancelFlag_cancel :: "CancelFlag \<Rightarrow> cells \<Rightarrow> cells" where
  "CancelFlag_cancel c h = h[c := True]"

definition CancelFlag_is_cancelled :: "CancelFlag \<Rightarrow> cells \<Rightarrow> bool" where
  "CancelFlag_is_cancelled c h \<longleftrightarrow> c < length h \<and> h ! c"

section \<open>Streams\<close>

record TcpProxyStream =
  tcp_writer :: sock
  tcp_pending :: "bytes list"
  tcp_packets_since_continue :: u32
  tcp_queued_for_drain :: bool
  tcp_cancel :: CancelFlag

record UdpProxyStream =
  udp_socket :: sock
  udp_dest_addr :: SocketAddr
  udp_cancel :: CancelFlag

record ConnectingStream =
  conn_early_data :: "bytes list"
  conn_cancel :: CancelFlag

datatype ProxyStream =
    ProxyTcp TcpProxyStream
  | ProxyUdp UdpProxyStream
  | ProxyConnecting ConnectingStream

fun ProxyStream_cancel :: "ProxyStream \<Rightarrow> CancelFlag" where
  "ProxyStream_cancel (ProxyTcp t) = tcp_cancel t"
| "ProxyStream_cancel (ProxyConnecting c) = conn_cancel c"
| "ProxyStream_cancel (ProxyUdp u) = udp_cancel u"

definition TcpProxyStream_with_pending :: "sock \<Rightarrow> bytes list \<Rightarrow> CancelFlag \<Rightarrow> TcpProxyStream" where
  "TcpProxyStream_with_pending writer pending cancel =
     \<lparr>tcp_writer = writer, tcp_pending = pending, tcp_packets_since_continue = 0,
      tcp_queued_for_drain = (pending \<noteq> []), tcp_cancel = cancel\<rparr>"

definition record_packet :: "u32 \<Rightarrow> TcpProxyStream \<Rightarrow> bool \<times> TcpProxyStream" where
  "record_packet threshold t =
     (let t' = t\<lparr>tcp_packets_since_continue := tcp_packets_since_continue t + 1\<rparr>
      in (threshold \<le> tcp_packets_since_continue t', t'))"

definition reset_counter :: "TcpProxyStream \<Rightarrow> TcpProxyStream" where
  "reset_counter t = t\<lparr>tcp_packets_since_continue := 0\<rparr>"

definition UdpProxyStream_new :: "sock \<Rightarrow> SocketAddr \<Rightarrow> CancelFlag \<Rightarrow> UdpProxyStream" where
  "UdpProxyStream_new s dest cancel =
     \<lparr>udp_socket = s, udp_dest_addr = dest, udp_cancel = cancel\<rparr>"

definition ConnectingStream_new :: "cells \<Rightarrow> ConnectingStream \<times> cells" where
  "ConnectingStream_new h =
     (let (c, h') = CancelFlag_new h in (\<lparr>conn_early_data = [], conn_cancel = c\<rparr>, h'))"

definition queue_early_data :: "bytes \<Rightarrow> ConnectingStream \<Rightarrow> ConnectingStream" where
  "queue_early_data d c = c\<lparr>conn_early_data := conn_early_data c @ [d]\<rparr>"

section \<open>The stream table\<close>

definition DIRECT_INDEX_LIMIT :: usize where [simp]: "DIRECT_INDEX_LIMIT = 8192"

record StreamTable =
  st_direct :: "ProxyStream option list"
  st_sparse :: "(u32, ProxyStream) mapping"
  st_active_count :: usize
  st_max_streams :: usize

definition StreamTable_new :: "usize \<Rightarrow> StreamTable" where
  "StreamTable_new m =
     \<lparr>st_direct = [], st_sparse = Mapping.empty, st_active_count = 0, st_max_streams = m\<rparr>"

text \<open>\<^verbatim>\<open>Vec::resize_with(n, || None)\<close> on a vector that is shorter than \<open>n\<close>.\<close>

definition resize_none :: "'a option list \<Rightarrow> nat \<Rightarrow> 'a option list" where
  "resize_none xs n = xs @ replicate (n - length xs) None"

definition StreamTable_insert :: "u32 \<Rightarrow> ProxyStream \<Rightarrow> StreamTable \<Rightarrow> bool \<times> StreamTable" where
  "StreamTable_insert stream_id stream st =
     (if st_max_streams st > 0 \<and> st_active_count st \<ge> st_max_streams st then (False, st)
      else let i = unat stream_id in
        if i < DIRECT_INDEX_LIMIT then
          (let d = (if i \<ge> length (st_direct st) then resize_none (st_direct st) (i + 1)
                    else st_direct st)
           in if d ! i \<noteq> None then (False, st\<lparr>st_direct := d\<rparr>)
              else (True, st\<lparr>st_direct := d[i := Some stream],
                             st_active_count := st_active_count st + 1\<rparr>))
        else if Mapping.lookup (st_sparse st) stream_id \<noteq> None then (False, st)
        else (True, st\<lparr>st_sparse := Mapping.update stream_id stream (st_sparse st),
                       st_active_count := st_active_count st + 1\<rparr>))"

text \<open>
  \<^verbatim>\<open>get_mut\<close> hands out a mutable reference: reading it is \<open>StreamTable_get_mut\<close>, writing the
  stream behind it back is \<open>StreamTable_set\<close>.
\<close>

definition StreamTable_get_mut :: "u32 \<Rightarrow> StreamTable \<Rightarrow> ProxyStream option" where
  "StreamTable_get_mut stream_id st =
     (let i = unat stream_id in
      if i < DIRECT_INDEX_LIMIT then
        (if i \<ge> length (st_direct st) then None else st_direct st ! i)
      else Mapping.lookup (st_sparse st) stream_id)"

definition StreamTable_set :: "u32 \<Rightarrow> ProxyStream \<Rightarrow> StreamTable \<Rightarrow> StreamTable" where
  "StreamTable_set stream_id s st =
     (let i = unat stream_id in
      if i < DIRECT_INDEX_LIMIT then st\<lparr>st_direct := (st_direct st)[i := Some s]\<rparr>
      else st\<lparr>st_sparse := Mapping.update stream_id s (st_sparse st)\<rparr>)"

definition StreamTable_remove ::
  "u32 \<Rightarrow> cells \<Rightarrow> StreamTable \<Rightarrow> ProxyStream option \<times> cells \<times> StreamTable" where
  "StreamTable_remove stream_id h st =
     (let i = unat stream_id in
      if i < DIRECT_INDEX_LIMIT \<and> i \<ge> length (st_direct st) then (None, h, st)
      else
        let (taken, st') =
          (if i < DIRECT_INDEX_LIMIT
           then (st_direct st ! i, st\<lparr>st_direct := (st_direct st)[i := None]\<rparr>)
           else (Mapping.lookup (st_sparse st) stream_id,
                 st\<lparr>st_sparse := Mapping.delete stream_id (st_sparse st)\<rparr>))
        in case taken of
             None \<Rightarrow> (None, h, st')
           | Some stream \<Rightarrow>
               (Some stream, CancelFlag_cancel (ProxyStream_cancel stream) h,
                st'\<lparr>st_active_count := st_active_count st' - 1\<rparr>))"

definition StreamTable_contains :: "u32 \<Rightarrow> StreamTable \<Rightarrow> bool" where
  "StreamTable_contains stream_id st =
     (let i = unat stream_id in
      if i < DIRECT_INDEX_LIMIT
      then i < length (st_direct st) \<and> st_direct st ! i \<noteq> None
      else Mapping.lookup (st_sparse st) stream_id \<noteq> None)"

definition StreamTable_len :: "StreamTable \<Rightarrow> usize" where
  "StreamTable_len st = st_active_count st"

section \<open>The interface of a stream store\<close>

text \<open>
  What the connection handlers rely on: lookups after each operation, the count, and the bound.
  \<open>delete\<close> is the effect of a removal on the table alone.
\<close>

locale stream_store =
  fixes lookup :: "u32 \<Rightarrow> 't \<Rightarrow> 's option"
    and insert :: "u32 \<Rightarrow> 's \<Rightarrow> 't \<Rightarrow> bool \<times> 't"
    and put :: "u32 \<Rightarrow> 's \<Rightarrow> 't \<Rightarrow> 't"
    and delete :: "u32 \<Rightarrow> 't \<Rightarrow> 't"
    and count :: "'t \<Rightarrow> nat"
    and bound :: "'t \<Rightarrow> nat"
    and invar :: "'t \<Rightarrow> bool"
  assumes count_card: "invar t \<Longrightarrow> count t = card {k. lookup k t \<noteq> None}"
    and bounded: "invar t \<Longrightarrow> bound t = 0 \<or> count t \<le> bound t"
    and insert_ok: "invar t \<Longrightarrow> fst (insert k s t) \<longleftrightarrow>
          lookup k t = None \<and> (bound t = 0 \<or> count t < bound t)"
    and lookup_insert: "invar t \<Longrightarrow>
          lookup j (snd (insert k s t)) = (if fst (insert k s t) \<and> j = k then Some s else lookup j t)"
    and lookup_put: "invar t \<Longrightarrow> lookup k t \<noteq> None \<Longrightarrow>
          lookup j (put k s t) = (if j = k then Some s else lookup j t)"
    and lookup_delete: "invar t \<Longrightarrow> lookup j (delete k t) = (if j = k then None else lookup j t)"
    and invar_insert: "invar t \<Longrightarrow> invar (snd (insert k s t))"
    and invar_put: "invar t \<Longrightarrow> lookup k t \<noteq> None \<Longrightarrow> invar (put k s t)"
    and invar_delete: "invar t \<Longrightarrow> invar (delete k t)"
    and bound_kept: "bound (snd (insert k s t)) = bound t" "bound (put k s t) = bound t"
          "bound (delete k t) = bound t"
begin

lemma finite_keys: "finite {k :: u32. lookup k t \<noteq> None}"
  by (rule finite_subset [OF subset_UNIV]) simp

lemma count_insert:
  assumes "invar t"
  shows "count (snd (insert k s t)) = (if fst (insert k s t) then Suc (count t) else count t)"
proof (cases "fst (insert k s t)")
  case True
  then have "{j. lookup j (snd (insert k s t)) \<noteq> None} = {j. lookup j t \<noteq> None} \<union> {k}"
    and "k \<notin> {j. lookup j t \<noteq> None}"
    using assms insert_ok lookup_insert by auto
  then show ?thesis
    using assms True finite_keys by (simp add: count_card invar_insert)
next
  case False
  then show ?thesis
    using assms lookup_insert by (simp add: count_card invar_insert)
qed

lemma count_put: "invar t \<Longrightarrow> lookup k t \<noteq> None \<Longrightarrow> count (put k s t) = count t"
  using lookup_put [of t k] invar_put [of t k s] count_card
  by (simp, metis (mono_tags, lifting) Collect_cong option.distinct(1))

lemma count_delete:
  assumes "invar t"
  shows "count (delete k t) = (if lookup k t = None then count t else count t - 1)"
proof -
  have "{j. lookup j (delete k t) \<noteq> None} = {j. lookup j t \<noteq> None} - {k}"
    using assms by (auto simp: lookup_delete)
  then show ?thesis
    using assms finite_keys by (auto simp: count_card invar_delete)
qed

lemma count_pos: "invar t \<Longrightarrow> lookup k t \<noteq> None \<Longrightarrow> 0 < count t"
  using finite_keys by (simp add: count_card card_gt_0_iff) blast

text \<open>A freed identifier can be used again, also at the stream limit.\<close>

lemma insert_after_delete:
  assumes "invar t" "lookup k t \<noteq> None"
  shows "fst (insert k s (delete k t))"
proof -
  have "count (delete k t) < count t"
    using assms count_delete count_pos by simp
  then show ?thesis
    using assms bounded [OF assms(1)] by (auto simp: insert_ok invar_delete lookup_delete bound_kept)
qed

end

section \<open>The table implements a finite map\<close>

text \<open>The effect of a removal on the table, without the cancelled flag.\<close>

definition StreamTable_delete :: "u32 \<Rightarrow> StreamTable \<Rightarrow> StreamTable" where
  "StreamTable_delete k st = snd (snd (StreamTable_remove k [] st))"

definition table_inv :: "StreamTable \<Rightarrow> bool" where
  "table_inv st \<longleftrightarrow>
     length (st_direct st) \<le> DIRECT_INDEX_LIMIT \<and>
     (\<forall>k. Mapping.lookup (st_sparse st) k \<noteq> None \<longrightarrow> DIRECT_INDEX_LIMIT \<le> unat k) \<and>
     st_active_count st = card {k. StreamTable_get_mut k st \<noteq> None} \<and>
     (st_max_streams st = 0 \<or> st_active_count st \<le> st_max_streams st)"

lemmas table_defs = StreamTable_insert_def StreamTable_get_mut_def StreamTable_set_def
  StreamTable_remove_def StreamTable_delete_def StreamTable_contains_def StreamTable_len_def

lemma finite_u32_keys [simp]: "finite {k :: u32. P k}"
  by (rule finite_subset [OF subset_UNIV]) simp

lemma resize_none_nth: "n < length xs \<or> n < m \<Longrightarrow> resize_none xs m ! n = (if n < length xs then xs ! n else None)"
  by (auto simp: resize_none_def nth_append)

lemma length_resize_none: "length (resize_none xs m) = max (length xs) m"
  by (simp add: resize_none_def)

lemma remove_eq:
  "StreamTable_remove k h st =
     (StreamTable_get_mut k st,
      (case StreamTable_get_mut k st of
         None \<Rightarrow> h | Some s \<Rightarrow> CancelFlag_cancel (ProxyStream_cancel s) h),
      StreamTable_delete k st)"
  by (auto simp: table_defs Let_def split: option.split)

lemma insert_ok_table:
  "table_inv st \<Longrightarrow> fst (StreamTable_insert k s st) \<longleftrightarrow>
     StreamTable_get_mut k st = None \<and> (st_max_streams st = 0 \<or> st_active_count st < st_max_streams st)"
  by (auto simp: StreamTable_insert_def StreamTable_get_mut_def Let_def resize_none_nth)

lemma get_insert:
  "StreamTable_get_mut j (snd (StreamTable_insert k s st)) =
     (if fst (StreamTable_insert k s st) \<and> j = k then Some s else StreamTable_get_mut j st)"
  by (auto simp: StreamTable_insert_def StreamTable_get_mut_def Let_def resize_none_nth
      length_resize_none nth_list_update lookup_update')

lemma get_set:
  "StreamTable_get_mut k st \<noteq> None \<Longrightarrow>
   StreamTable_get_mut j (StreamTable_set k s st) = (if j = k then Some s else StreamTable_get_mut j st)"
  by (auto simp: StreamTable_set_def StreamTable_get_mut_def Let_def nth_list_update lookup_update'
      split: if_splits)

lemma get_delete:
  "StreamTable_get_mut j (StreamTable_delete k st) = (if j = k then None else StreamTable_get_mut j st)"
  by (auto simp: table_defs Let_def nth_list_update lookup_delete' split: option.split)

lemma count_insert_table:
  "st_active_count (snd (StreamTable_insert k s st)) =
     (if fst (StreamTable_insert k s st) then st_active_count st + 1 else st_active_count st)"
  by (simp add: StreamTable_insert_def Let_def)

lemma count_delete_table:
  "st_active_count (StreamTable_delete k st) =
     (if StreamTable_get_mut k st = None then st_active_count st else st_active_count st - 1)"
  by (auto simp: table_defs Let_def split: option.split)

lemma max_streams_kept [simp]:
  "st_max_streams (snd (StreamTable_insert k s st)) = st_max_streams st"
  "st_max_streams (StreamTable_set k s st) = st_max_streams st"
  "st_max_streams (StreamTable_delete k st) = st_max_streams st"
  by (auto simp: table_defs Let_def split: option.split)

lemma table_inv_insert:
  assumes "table_inv st"
  shows "table_inv (snd (StreamTable_insert k s st))"
proof -
  let ?st = "snd (StreamTable_insert k s st)"
  have "st_active_count ?st = card {j. StreamTable_get_mut j ?st \<noteq> None}"
  proof (cases "fst (StreamTable_insert k s st)")
    case True
    then have "{j. StreamTable_get_mut j ?st \<noteq> None} = insert k {j. StreamTable_get_mut j st \<noteq> None}"
      and "StreamTable_get_mut k st = None"
      using assms insert_ok_table by (auto simp: get_insert)
    with assms True show ?thesis
      by (simp add: count_insert_table table_inv_def)
  next
    case False
    with assms show ?thesis
      by (simp add: count_insert_table get_insert table_inv_def)
  qed
  moreover have "length (st_direct ?st) \<le> DIRECT_INDEX_LIMIT"
    "\<forall>k. Mapping.lookup (st_sparse ?st) k \<noteq> None \<longrightarrow> DIRECT_INDEX_LIMIT \<le> unat k"
    using assms by (auto simp: table_inv_def StreamTable_insert_def Let_def length_resize_none
        lookup_update' split: if_splits)
  moreover have "st_max_streams st = 0 \<or> st_active_count ?st \<le> st_max_streams st"
    using assms insert_ok_table [OF assms, of k s] by (auto simp: count_insert_table table_inv_def)
  ultimately show ?thesis
    by (simp add: table_inv_def)
qed

lemma table_inv_set:
  assumes "table_inv st" "StreamTable_get_mut k st \<noteq> None"
  shows "table_inv (StreamTable_set k s st)"
proof -
  have "{j. StreamTable_get_mut j (StreamTable_set k s st) \<noteq> None} = {j. StreamTable_get_mut j st \<noteq> None}"
    using assms(2) by (auto simp: get_set)
  moreover have "st_active_count (StreamTable_set k s st) = st_active_count st"
    "length (st_direct (StreamTable_set k s st)) = length (st_direct st)"
    by (simp_all add: StreamTable_set_def Let_def)
  moreover have "Mapping.lookup (st_sparse (StreamTable_set k s st)) j \<noteq> None \<Longrightarrow>
      DIRECT_INDEX_LIMIT \<le> unat j" for j
    using assms(1) by (auto simp: StreamTable_set_def table_inv_def Let_def lookup_update' split: if_splits)
  ultimately show ?thesis
    using assms(1) unfolding table_inv_def by auto
qed

lemma table_inv_delete:
  assumes "table_inv st"
  shows "table_inv (StreamTable_delete k st)"
proof -
  have "{j. StreamTable_get_mut j (StreamTable_delete k st) \<noteq> None} =
      {j. StreamTable_get_mut j st \<noteq> None} - {k}"
    by (auto simp: get_delete)
  then have "card {j. StreamTable_get_mut j (StreamTable_delete k st) \<noteq> None} =
      (if StreamTable_get_mut k st = None then st_active_count st else st_active_count st - 1)"
    using assms by (auto simp: table_inv_def)
  moreover have "length (st_direct (StreamTable_delete k st)) = length (st_direct st)"
    by (auto simp: table_defs Let_def split: option.split)
  moreover have "Mapping.lookup (st_sparse (StreamTable_delete k st)) j \<noteq> None \<Longrightarrow>
      Mapping.lookup (st_sparse st) j \<noteq> None" for j
    by (auto simp: table_defs Let_def lookup_delete' split: option.splits if_splits)
  ultimately show ?thesis
    using assms unfolding table_inv_def by (auto simp: count_delete_table)
qed

lemma table_inv_new [simp]: "table_inv (StreamTable_new m)" "StreamTable_get_mut k (StreamTable_new m) = None"
  by (simp_all add: table_inv_def StreamTable_new_def StreamTable_get_mut_def Let_def)

interpretation table: stream_store StreamTable_get_mut StreamTable_insert StreamTable_set
  StreamTable_delete StreamTable_len st_max_streams table_inv
proof unfold_locales
  fix st k s j
  assume inv: "table_inv st"
  show "StreamTable_len st = card {k. StreamTable_get_mut k st \<noteq> None}"
    "st_max_streams st = 0 \<or> StreamTable_len st \<le> st_max_streams st"
    using inv by (simp add: table_inv_def StreamTable_len_def, auto simp: table_inv_def StreamTable_len_def)
  show "fst (StreamTable_insert k s st) \<longleftrightarrow> StreamTable_get_mut k st = None \<and>
      (st_max_streams st = 0 \<or> StreamTable_len st < st_max_streams st)"
    unfolding StreamTable_len_def by (rule insert_ok_table [OF inv])
  assume "StreamTable_get_mut k st \<noteq> None"
  then show "table_inv (StreamTable_set k s st)"
    by (rule table_inv_set [OF inv])
qed (simp_all add: get_insert get_set get_delete table_inv_insert table_inv_delete)

lemma contains_iff: "StreamTable_contains k st \<longleftrightarrow> StreamTable_get_mut k st \<noteq> None"
  by (auto simp: StreamTable_contains_def StreamTable_get_mut_def Let_def)

section \<open>Cells\<close>

lemma is_cancelled_new [simp]:
  "CancelFlag_is_cancelled c (h @ [False]) \<longleftrightarrow> CancelFlag_is_cancelled c h"
  by (auto simp: CancelFlag_is_cancelled_def nth_append)

lemma is_cancelled_cancel:
  "CancelFlag_is_cancelled c (CancelFlag_cancel d h) \<longleftrightarrow>
     CancelFlag_is_cancelled c h \<or> (c = d \<and> c < length h)"
  by (cases "c = d") (auto simp: CancelFlag_is_cancelled_def CancelFlag_cancel_def)

lemma length_cancel [simp]: "length (CancelFlag_cancel d h) = length h"
  by (simp add: CancelFlag_cancel_def)

section \<open>Properties\<close>

text \<open>C9. The vector and the hash map of a stream table together implement one finite map with at most
  \<^verbatim>\<open>max_streams\<close> entries: each operation acts on the map as its name says and keeps the invariant, the
  count is the number of streams (positive whenever a removal decrements it), an insertion is refused exactly for a used identifier or a
  full table and then changes nothing visible, and a removal returns the stream and cancels its flag and no
  other.\<close>

theorem stream_table_refines_map:
  assumes "table_inv st"
  shows
  "StreamTable_len st = card (dom (\<lambda>k. StreamTable_get_mut k st)) \<and>
   (st_max_streams st = 0 \<or> StreamTable_len st \<le> st_max_streams st) \<and>
   StreamTable_contains k st = (k \<in> dom (\<lambda>k. StreamTable_get_mut k st)) \<and>
   (let (ok, st') = StreamTable_insert k s st
    in table_inv st' \<and> st_max_streams st' = st_max_streams st \<and>
       ok = (StreamTable_get_mut k st = None \<and>
             (st_max_streams st = 0 \<or> StreamTable_len st < st_max_streams st)) \<and>
       (\<lambda>j. StreamTable_get_mut j st') =
         (if ok then (\<lambda>j. StreamTable_get_mut j st)(k \<mapsto> s) else (\<lambda>j. StreamTable_get_mut j st))) \<and>
   (let (taken, h', st') = StreamTable_remove k h st
    in table_inv st' \<and> st_max_streams st' = st_max_streams st \<and>
       taken = StreamTable_get_mut k st \<and>
       (\<lambda>j. StreamTable_get_mut j st') = (\<lambda>j. StreamTable_get_mut j st)(k := None) \<and>
       (case taken of
          None \<Rightarrow> h' = h \<and> StreamTable_len st' = StreamTable_len st
        | Some t \<Rightarrow> h' = h[ProxyStream_cancel t := True] \<and>
            StreamTable_len st = StreamTable_len st' + 1)) \<and>
   (StreamTable_get_mut k st \<noteq> None \<longrightarrow>
      table_inv (StreamTable_set k s st) \<and>
      (\<lambda>j. StreamTable_get_mut j (StreamTable_set k s st)) = (\<lambda>j. StreamTable_get_mut j st)(k \<mapsto> s))"
proof (intro conjI impI)
  show "StreamTable_len st = card (dom (\<lambda>k. StreamTable_get_mut k st))"
    using table.count_card [OF assms] by (simp add: dom_def)
  show "let (ok, st') = StreamTable_insert k s st
    in table_inv st' \<and> st_max_streams st' = st_max_streams st \<and>
       ok = (StreamTable_get_mut k st = None \<and>
             (st_max_streams st = 0 \<or> StreamTable_len st < st_max_streams st)) \<and>
       (\<lambda>j. StreamTable_get_mut j st') =
         (if ok then (\<lambda>j. StreamTable_get_mut j st)(k \<mapsto> s) else (\<lambda>j. StreamTable_get_mut j st))"
    using table_inv_insert [OF assms, of k s] table.insert_ok [OF assms, of k s]
      get_insert [of _ k s st] max_streams_kept(1) [of k s st]
    by (auto simp: case_prod_beta Let_def fun_eq_iff)
  show "let (taken, h', st') = StreamTable_remove k h st
    in table_inv st' \<and> st_max_streams st' = st_max_streams st \<and>
       taken = StreamTable_get_mut k st \<and>
       (\<lambda>j. StreamTable_get_mut j st') = (\<lambda>j. StreamTable_get_mut j st)(k := None) \<and>
       (case taken of
          None \<Rightarrow> h' = h \<and> StreamTable_len st' = StreamTable_len st
        | Some t \<Rightarrow> h' = h[ProxyStream_cancel t := True] \<and>
            StreamTable_len st = StreamTable_len st' + 1)"
    using table_inv_delete [OF assms, of k] table.count_delete [OF assms, of k]
      table.count_pos [OF assms, of k]
    by (auto simp: remove_eq get_delete fun_eq_iff CancelFlag_cancel_def split: option.split)
qed (use assms table.bounded in \<open>auto simp: contains_iff table_inv_set get_set fun_eq_iff dom_def\<close>)

theorem stream_table_refines_map_witness:
  "let s = ProxyConnecting \<lparr>conn_early_data = [], conn_cancel = 0\<rparr>;
       st = snd (StreamTable_insert 9000 s (StreamTable_new 1))
   in table_inv st \<and> StreamTable_get_mut 9000 st = Some s \<and>
      \<not> fst (StreamTable_insert 5 s st) \<and> StreamTable_remove 9000 [False] st = (Some s, [True], StreamTable_delete 9000 st) \<and>
      table_inv (StreamTable_set 9000 s st)"
proof -
  let ?s = "ProxyConnecting \<lparr>conn_early_data = [], conn_cancel = 0\<rparr>"
  let ?st = "snd (StreamTable_insert 9000 ?s (StreamTable_new 1))"
  have ok: "fst (StreamTable_insert 9000 ?s (StreamTable_new 1))"
    by (simp add: insert_ok_table) (simp add: StreamTable_new_def)
  then have get: "StreamTable_get_mut 9000 ?st = Some ?s" and len: "StreamTable_len ?st = 1"
    and inv: "table_inv ?st"
    by (simp_all add: get_insert table_inv_insert StreamTable_len_def count_insert_table)
      (simp add: StreamTable_new_def)
  have "st_max_streams ?st = 1"
    by (simp add: StreamTable_new_def)
  with stream_table_refines_map [OF inv, of 5 ?s "[False]"]
    stream_table_refines_map [OF inv, of 9000 ?s "[False]"] get len inv show ?thesis
    by (simp add: Let_def case_prod_beta remove_eq)
qed

end
