(* ===== verification/Backend_Write.thy ===== *)
theory Backend_Write
  imports Stream_Table
begin

text \<open>
  The sockets of the server as an environment, and the non-blocking write path to a TCP backend,
  \<^verbatim>\<open>src/server/connection.rs\<close>: \<open>drain_pending\<close>, \<open>tcp_try_write\<close> and the flush of early data when a
  backend connects.

  The operating system is a parameter: a record of the system calls the sources make, each a function
  of a state \<open>'w\<close> of the outside world.  What the sources rely on is the predicate \<open>io_ok\<close>: a write
  reports how many bytes of a prefix the socket took.  The lemmas show that no byte of a stream is
  lost, duplicated or reordered between the client and the backend.
\<close>

section \<open>The environment\<close>

text \<open>\<^verbatim>\<open>std::io::ErrorKind\<close>, as far as the sources distinguish it.\<close>

datatype ErrorKind = WouldBlock | WriteZero | ConnectionRefused | OtherKind nat

type_synonym 'a io_result = "ErrorKind + 'a"

record 'w env =
  ev_try_write :: "sock \<Rightarrow> bytes \<Rightarrow> 'w \<Rightarrow> nat io_result \<times> 'w"
  ev_try_write_vectored :: "sock \<Rightarrow> bytes list \<Rightarrow> 'w \<Rightarrow> nat io_result \<times> 'w"
  ev_write_vectored :: "sock \<Rightarrow> bytes list \<Rightarrow> 'w \<Rightarrow> nat io_result \<times> 'w"
  ev_write_all :: "sock \<Rightarrow> bytes \<Rightarrow> 'w \<Rightarrow> unit io_result \<times> 'w"
  ev_udp_bind :: "'w \<Rightarrow> sock io_result \<times> 'w"
  ev_try_send_to :: "sock \<Rightarrow> bytes \<Rightarrow> SocketAddr \<Rightarrow> 'w \<Rightarrow> nat io_result \<times> 'w"

text \<open>
  The contract of the write calls.  \<open>sent w s\<close> is what socket \<open>s\<close> has taken so far.  A successful call
  takes the reported number of bytes from the front of what it was given; a failed non-blocking call
  takes nothing; a failed \<^verbatim>\<open>write_all\<close> may have taken a prefix.
\<close>

definition took :: "('w \<Rightarrow> sock \<Rightarrow> bytes) \<Rightarrow> sock \<Rightarrow> bytes \<Rightarrow> nat io_result \<Rightarrow> 'w \<Rightarrow> 'w \<Rightarrow> bool" where
  "took sent s bs r w w' \<longleftrightarrow>
     (case r of
        Inl _ \<Rightarrow> sent w' = sent w
      | Inr n \<Rightarrow> n \<le> length bs \<and> sent w' = (sent w)(s := sent w s @ take n bs))"

definition io_ok :: "'w env \<Rightarrow> ('w \<Rightarrow> sock \<Rightarrow> bytes) \<Rightarrow> bool" where
  "io_ok E sent \<longleftrightarrow>
     (\<forall>s bs w r w'. ev_try_write E s bs w = (r, w') \<longrightarrow> took sent s bs r w w') \<and>
     (\<forall>s bss w r w'. ev_try_write_vectored E s bss w = (r, w') \<longrightarrow> took sent s (concat bss) r w w') \<and>
     (\<forall>s bss w r w'. ev_write_vectored E s bss w = (r, w') \<longrightarrow> took sent s (concat bss) r w w') \<and>
     (\<forall>s bs w r w'. ev_write_all E s bs w = (r, w') \<longrightarrow>
        (\<exists>n \<le> length bs. sent w' = (sent w)(s := sent w s @ take n bs) \<and> (r = Inr () \<longrightarrow> n = length bs))) \<and>
     (\<forall>w. sent (snd (ev_udp_bind E w)) = sent w) \<and>
     (\<forall>s bs a w. sent (snd (ev_try_send_to E s bs a w)) = sent w)"

section \<open>The write path\<close>

text \<open>The loop of \<open>drain_pending\<close> that takes the written bytes off the front of the queue.\<close>

fun consume_front :: "nat \<Rightarrow> bytes list \<Rightarrow> bytes list" where
  "consume_front remaining [] = []"
| "consume_front remaining (front # rest) =
     (if remaining = 0 then front # rest
      else if remaining \<ge> length front then consume_front (remaining - length front) rest
      else drop remaining front # rest)"

definition drain_pending :: "'w env \<Rightarrow> TcpProxyStream \<Rightarrow> 'w \<Rightarrow> bool \<times> TcpProxyStream \<times> 'w" where
  "drain_pending E tcp w =
     (if length (tcp_pending tcp) \<le> 1 then
        (case tcp_pending tcp of
           [] \<Rightarrow> (False, tcp, w)
         | chunk # rest \<Rightarrow>
             (case ev_try_write E (tcp_writer tcp) chunk w of
                (Inr n, w') \<Rightarrow>
                  if n = length chunk then (False, tcp\<lparr>tcp_pending := rest\<rparr>, w')
                  else (False, tcp\<lparr>tcp_pending := drop n chunk # rest\<rparr>, w')
              | (Inl e, w') \<Rightarrow>
                  if e = WouldBlock then (False, tcp, w')
                  else (True, tcp\<lparr>tcp_pending := []\<rparr>, w')))
      else
        let slice_count = min (length (tcp_pending tcp)) 1024;
            slices = take slice_count (tcp_pending tcp);
            total = sum_list (map length slices)
        in case ev_try_write_vectored E (tcp_writer tcp) slices w of
             (Inr n, w') \<Rightarrow>
               if n = total \<and> slice_count = length (tcp_pending tcp)
               then (False, tcp\<lparr>tcp_pending := []\<rparr>, w')
               else if n > 0 then (False, tcp\<lparr>tcp_pending := consume_front n (tcp_pending tcp)\<rparr>, w')
               else (False, tcp, w')
           | (Inl e, w') \<Rightarrow>
               if e = WouldBlock then (False, tcp, w')
               else (True, tcp\<lparr>tcp_pending := []\<rparr>, w'))"

text \<open>
  \<^verbatim>\<open>tcp_try_write\<close>; the caller's buffer, which the source leaves empty or advanced, is not used again by
  any caller.
\<close>

definition try_write_now :: "'w env \<Rightarrow> TcpProxyStream \<Rightarrow> bytes \<Rightarrow> 'w \<Rightarrow> bool \<times> TcpProxyStream \<times> 'w" where
  "try_write_now E tcp data w =
     (case ev_try_write E (tcp_writer tcp) data w of
        (Inr n, w') \<Rightarrow>
          if n = length data then (False, tcp, w')
          else (False, tcp\<lparr>tcp_pending := tcp_pending tcp @ [drop n data]\<rparr>, w')
      | (Inl e, w') \<Rightarrow>
          if e = WouldBlock then (False, tcp\<lparr>tcp_pending := tcp_pending tcp @ [data]\<rparr>, w')
          else (True, tcp, w'))"

definition tcp_try_write :: "'w env \<Rightarrow> TcpProxyStream \<Rightarrow> bytes \<Rightarrow> 'w \<Rightarrow> bool \<times> TcpProxyStream \<times> 'w" where
  "tcp_try_write E tcp data w =
     (if tcp_pending tcp \<noteq> [] then
        (case drain_pending E tcp w of (dead, tcp', w') \<Rightarrow>
           if dead then (True, tcp', w')
           else if tcp_pending tcp' \<noteq> []
           then (False, tcp'\<lparr>tcp_pending := tcp_pending tcp' @ [data]\<rparr>, w')
           else try_write_now E tcp' data w')
      else try_write_now E tcp data w)"

text \<open>The loop over \<^verbatim>\<open>early_data\<close> in \<open>handle_control_event\<close>: dead, the pending queue, the world.\<close>

fun flush_early_data ::
  "'w env \<Rightarrow> sock \<Rightarrow> bytes list \<Rightarrow> bool \<Rightarrow> bytes list \<Rightarrow> 'w \<Rightarrow> bool \<times> bytes list \<times> 'w" where
  "flush_early_data E writer [] failed pending w = (False, pending, w)"
| "flush_early_data E writer (data # early) failed pending w =
     (if failed then flush_early_data E writer early True (pending @ [data]) w
      else case ev_try_write E writer data w of
             (Inr n, w') \<Rightarrow>
               if n = length data then flush_early_data E writer early False pending w'
               else flush_early_data E writer early True (pending @ [drop n data]) w'
           | (Inl e, w') \<Rightarrow>
               if e = WouldBlock then flush_early_data E writer early True (pending @ [data]) w'
               else (True, pending, w'))"

section \<open>Conservation of bytes\<close>

lemma consume_front_concat: "concat (consume_front n p) = drop n (concat p)"
  by (induction n p rule: consume_front.induct) auto

lemma io_okD:
  assumes "io_ok E sent"
  shows io_ok_try_write: "ev_try_write E s bs w = (r, w') \<Longrightarrow> took sent s bs r w w'"
    and io_ok_try_write_vectored:
      "ev_try_write_vectored E s bss w = (r, w') \<Longrightarrow> took sent s (concat bss) r w w'"
    and io_ok_write_vectored:
      "ev_write_vectored E s bss w = (r, w') \<Longrightarrow> took sent s (concat bss) r w w'"
    and io_ok_write_all:
      "ev_write_all E s bs w = (r2, w') \<Longrightarrow>
       \<exists>n \<le> length bs. sent w' = (sent w)(s := sent w s @ take n bs) \<and> (r2 = Inr () \<longrightarrow> n = length bs)"
    and io_ok_udp: "sent (snd (ev_udp_bind E w)) = sent w"
      "sent (snd (ev_try_send_to E s bs a w)) = sent w"
  using assms unfolding io_ok_def by simp_all

text \<open>
  The bookkeeping of one write step on socket \<open>s\<close>: nothing else is written, the socket only ever takes
  a prefix of what is due, and as long as the backend is not dead the bytes taken and the bytes pending
  make up exactly what is due.
\<close>

definition conserves ::
  "('w \<Rightarrow> sock \<Rightarrow> bytes) \<Rightarrow> sock \<Rightarrow> bytes \<Rightarrow> bool \<Rightarrow> bytes list \<Rightarrow> 'w \<Rightarrow> 'w \<Rightarrow> bool" where
  "conserves sent s due dead pending w w' \<longleftrightarrow>
     (\<exists>fwd. sent w' = (sent w)(s := sent w s @ fwd) \<and>
        (if dead then \<exists>rest. due = fwd @ rest else due = fwd @ concat pending))"

lemma conservesI:
  "sent w' = (sent w)(s := sent w s @ fwd) \<Longrightarrow>
   (dead \<Longrightarrow> \<exists>rest. due = fwd @ rest) \<Longrightarrow> (\<not> dead \<Longrightarrow> due = fwd @ concat pending) \<Longrightarrow>
   conserves sent s due dead pending w w'"
  by (auto simp: conserves_def)

lemma conserves_idle: "conserves sent s (concat p) False p w w' \<longleftrightarrow> sent w' = sent w"
  by (auto simp: conserves_def intro: exI [of _ "[]"])

lemma conserves_trans:
  assumes "conserves sent s due False p w w'" "conserves sent s (concat p @ extra) dead q w' w''"
  shows "conserves sent s (due @ extra) dead q w w''"
  using assms by (fastforce simp: conserves_def split: if_splits)

lemma try_write_now_conserves:
  assumes "io_ok E sent" "try_write_now E tcp data w = (dead, tcp', w')" "tcp_pending tcp = []"
  shows "conserves sent (tcp_writer tcp) data dead (tcp_pending tcp') w w'"
proof -
  obtain r w1 where wr: "ev_try_write E (tcp_writer tcp) data w = (r, w1)"
    by fastforce
  note took = io_ok_try_write [OF assms(1) wr]
  show ?thesis
  proof (cases r)
    case (Inl e)
    with took assms wr show ?thesis
      by (intro conservesI [where fwd = "[]"]) (auto simp: try_write_now_def took_def split: if_splits)
  next
    case (Inr n)
    with took assms wr show ?thesis
      by (intro conservesI [where fwd = "take n data"])
        (auto simp: try_write_now_def took_def split: if_splits)
  qed
qed

lemma drain_pending_conserves:
  assumes "io_ok E sent" "drain_pending E tcp w = (dead, tcp', w')"
  shows "conserves sent (tcp_writer tcp) (concat (tcp_pending tcp)) dead (tcp_pending tcp') w w'"
proof (cases "length (tcp_pending tcp) \<le> 1")
  case True
  show ?thesis
  proof (cases "tcp_pending tcp")
    case Nil
    with True assms show ?thesis
      by (auto simp: drain_pending_def conserves_idle intro: conservesI [where fwd = "[]"])
  next
    case (Cons chunk rest)
    with True have rest: "rest = []" by simp
    obtain r w1 where wr: "ev_try_write E (tcp_writer tcp) chunk w = (r, w1)"
      by fastforce
    note took = io_ok_try_write [OF assms(1) wr]
    show ?thesis
      using took assms(2) wr Cons rest
      by (intro conservesI [where fwd = "case r of Inl _ \<Rightarrow> [] | Inr n \<Rightarrow> take n chunk"])
        (auto simp: drain_pending_def took_def split: if_splits sum.splits)
  qed
next
  case False
  let ?k = "min (length (tcp_pending tcp)) 1024"
  let ?slices = "take ?k (tcp_pending tcp)"
  obtain r w1 where wr: "ev_try_write_vectored E (tcp_writer tcp) ?slices w = (r, w1)"
    by fastforce
  note took = io_ok_try_write_vectored [OF assms(1) wr]
  have split: "concat (tcp_pending tcp) = concat ?slices @ concat (drop ?k (tcp_pending tcp))"
    by (metis append_take_drop_id concat_append)
  show ?thesis
  proof (cases r)
    case (Inl e)
    with took assms(2) wr False show ?thesis
      by (intro conservesI [where fwd = "[]"])
        (auto simp: drain_pending_def took_def Let_def split: if_splits)
  next
    case (Inr n)
    with took have n: "n \<le> length (concat ?slices)"
      and sent: "sent w1 = (sent w)(tcp_writer tcp := sent w (tcp_writer tcp) @ take n (concat ?slices))"
      by (simp_all add: took_def)
    have front: "take n (concat ?slices) = take n (concat (tcp_pending tcp))"
      using n by (subst split) simp
    have whole: "n = length (concat ?slices) \<Longrightarrow> ?k = length (tcp_pending tcp) \<Longrightarrow>
        take n (concat (tcp_pending tcp)) = concat (tcp_pending tcp)"
      by simp
    show ?thesis
      using assms(2) wr Inr False sent front whole
      by (intro conservesI [where fwd = "take n (concat (tcp_pending tcp))"])
        (auto simp: drain_pending_def Let_def sum_list_map_length consume_front_concat split: if_splits)
  qed
qed

text \<open>The write path changes nothing of a stream but its queue.\<close>

lemma tcp_kept [frame_simps]:
  "drain_pending E tcp w = (dead, tcp', w') \<Longrightarrow> \<exists>p. tcp' = tcp\<lparr>tcp_pending := p\<rparr>"
  "try_write_now E tcp data w = (dead, tcp', w') \<Longrightarrow> \<exists>p. tcp' = tcp\<lparr>tcp_pending := p\<rparr>"
  by (auto simp: drain_pending_def try_write_now_def Let_def intro: exI [of _ "tcp_pending tcp"]
      split: if_splits sum.splits list.splits prod.splits)

lemma tcp_try_write_kept [frame_simps]:
  assumes "tcp_try_write E tcp data w = (dead, tcp', w')"
  shows "\<exists>p. tcp' = tcp\<lparr>tcp_pending := p\<rparr>"
proof (cases "tcp_pending tcp = []")
  case True
  with assms show ?thesis
    by (simp add: tcp_try_write_def tcp_kept(2))
next
  case False
  obtain d t1 w1 where dr: "drain_pending E tcp w = (d, t1, w1)"
    by (cases "drain_pending E tcp w")
  from tcp_kept(1) [OF dr] obtain p where "t1 = tcp\<lparr>tcp_pending := p\<rparr>"
    by auto
  with assms False dr show ?thesis
    by (auto simp: tcp_try_write_def split: if_splits dest!: tcp_kept(2))
qed

lemma tcp_try_write_conserves:
  assumes "io_ok E sent" "tcp_try_write E tcp data w = (dead, tcp', w')"
  shows "conserves sent (tcp_writer tcp) (concat (tcp_pending tcp) @ data) dead (tcp_pending tcp') w w'"
proof (cases "tcp_pending tcp = []")
  case True
  with assms show ?thesis
    by (simp add: tcp_try_write_def try_write_now_conserves)
next
  case False
  obtain d t1 w1 where dr: "drain_pending E tcp w = (d, t1, w1)"
    by (cases "drain_pending E tcp w")
  note con = drain_pending_conserves [OF assms(1) dr]
  have writer: "tcp_writer t1 = tcp_writer tcp"
    using tcp_kept(1) [OF dr] by auto
  consider (dead) d | (queued) "\<not> d" "tcp_pending t1 \<noteq> []" | (now) "\<not> d" "tcp_pending t1 = []"
    by blast
  then show ?thesis
  proof cases
    case dead
    with assms False dr con show ?thesis
      by (fastforce simp: tcp_try_write_def conserves_def)
  next
    case queued
    with assms False dr con show ?thesis
      by (auto simp: tcp_try_write_def conserves_def)
  next
    case now
    with assms False dr have tw: "try_write_now E t1 data w1 = (dead, tcp', w')"
      by (simp add: tcp_try_write_def)
    have "conserves sent (tcp_writer tcp) data dead (tcp_pending tcp') w1 w'"
      using try_write_now_conserves [OF assms(1) tw] now writer by simp
    moreover have "conserves sent (tcp_writer tcp) (concat (tcp_pending tcp)) False [] w w1"
      using con now by simp
    ultimately show ?thesis
      using conserves_trans [of sent "tcp_writer tcp" "concat (tcp_pending tcp)" "[]" w w1 data] by simp
  qed
qed

lemma flush_early_data_conserves:
  assumes "io_ok E sent" "flush_early_data E s early failed pending w = (dead, pending', w')"
    "failed \<or> pending = []"
  shows "conserves sent s (concat pending @ concat early) dead pending' w w'"
  using assms(2, 3)
proof (induction early arbitrary: failed pending w)
  case Nil
  then show ?case
    by (auto intro: conservesI [where fwd = "[]"])
next
  case (Cons data early)
  show ?case
  proof (cases failed)
    case True
    with Cons.prems Cons.IH [of True "pending @ [data]" w] show ?thesis
      by simp
  next
    case False
    with Cons.prems have p: "pending = []" by simp
    obtain r w1 where wr: "ev_try_write E s data w = (r, w1)"
      by fastforce
    note took = io_ok_try_write [OF assms(1) wr]
    show ?thesis
    proof (cases r)
      case (Inl e)
      show ?thesis
      proof (cases "e = WouldBlock")
        case True
        with Cons.prems False wr Inl Cons.IH [of True "[data]" w1] p
        have "conserves sent s (concat [data] @ concat early) dead pending' w1 w'"
          by simp
        moreover have "conserves sent s data False [data] w w1"
          using took Inl by (auto simp: took_def intro: conservesI [where fwd = "[]"])
        ultimately show ?thesis
          using conserves_trans [of sent s data "[data]" w w1 "concat early"] p by simp
      next
        case fatal: False
        with Cons.prems False wr Inl p took show ?thesis
          by (auto simp: took_def intro: conservesI [where fwd = "[]"])
      qed
    next
      case (Inr n)
      let ?rest = "if n = length data then [] else [drop n data]"
      have "conserves sent s (concat ?rest @ concat early) dead pending' w1 w'"
        using Cons.prems False wr Inr p Cons.IH [of "n \<noteq> length data" ?rest w1] by (auto split: if_splits)
      moreover have "conserves sent s data False ?rest w w1"
        using took Inr by (intro conservesI [where fwd = "take n data"]) (auto simp: took_def)
      ultimately show ?thesis
        using conserves_trans [of sent s data ?rest w w1 "concat early"] p by simp
    qed
  qed
qed

section \<open>Runs of a stream\<close>

text \<open>
  What the connection loop does to an open TCP stream: a DATA packet arrives, or the pending queue is
  drained in phase 0.  A run stops when the backend is found dead.
\<close>

datatype backend_op = BSend bytes | BDrain

fun backend_step :: "'w env \<Rightarrow> backend_op \<Rightarrow> TcpProxyStream \<Rightarrow> 'w \<Rightarrow> bool \<times> TcpProxyStream \<times> 'w" where
  "backend_step E (BSend data) tcp w = tcp_try_write E tcp data w"
| "backend_step E BDrain tcp w = drain_pending E tcp w"

fun backend_run :: "'w env \<Rightarrow> backend_op list \<Rightarrow> TcpProxyStream \<Rightarrow> 'w \<Rightarrow> bool \<times> TcpProxyStream \<times> 'w" where
  "backend_run E [] tcp w = (False, tcp, w)"
| "backend_run E (x # xs) tcp w =
     (case backend_step E x tcp w of (dead, tcp', w') \<Rightarrow>
        if dead then (True, tcp', w') else backend_run E xs tcp' w')"

fun op_bytes :: "backend_op \<Rightarrow> bytes" where
  "op_bytes (BSend data) = data"
| "op_bytes BDrain = []"

lemma conserves_due: "conserves sent s due True p w w' \<Longrightarrow> conserves sent s (due @ extra) True p w w'"
  by (fastforce simp: conserves_def)

lemma backend_step_conserves:
  "io_ok E sent \<Longrightarrow> backend_step E x tcp w = (dead, tcp', w') \<Longrightarrow>
   tcp_writer tcp' = tcp_writer tcp \<and>
   conserves sent (tcp_writer tcp) (concat (tcp_pending tcp) @ op_bytes x) dead (tcp_pending tcp') w w'"
  by (cases x) (auto simp: tcp_try_write_conserves drain_pending_conserves
      dest: tcp_kept(1) tcp_try_write_kept)

lemma backend_run_conserves:
  assumes "io_ok E sent" "backend_run E xs tcp w = (dead, tcp', w')"
  shows "conserves sent (tcp_writer tcp) (concat (tcp_pending tcp) @ concat (map op_bytes xs)) dead
     (tcp_pending tcp') w w'"
  using assms(2)
proof (induction xs arbitrary: tcp w)
  case Nil
  then show ?case
    by (simp add: conserves_idle)
next
  case (Cons x xs)
  obtain d t1 w1 where st: "backend_step E x tcp w = (d, t1, w1)"
    by (cases "backend_step E x tcp w")
  note step = backend_step_conserves [OF assms(1) st]
  show ?case
  proof (cases d)
    case True
    with Cons.prems st step show ?thesis
      by (auto simp flip: append_assoc intro: conserves_due)
  next
    case False
    with Cons.prems st have "backend_run E xs t1 w1 = (dead, tcp', w')"
      by simp
    from Cons.IH [OF this] step False show ?thesis
      by (auto simp flip: append_assoc intro: conserves_trans)
  qed
qed

section \<open>A scripted environment\<close>

text \<open>
  A concrete environment in which the contract holds: the outcomes of the non-blocking writes come from
  a script, and a socket with an exhausted script is busy.
\<close>

record script_world =
  sw_replies :: "nat io_result list"
  sw_sent :: "sock \<Rightarrow> bytes"

definition script_write :: "sock \<Rightarrow> bytes \<Rightarrow> script_world \<Rightarrow> nat io_result \<times> script_world" where
  "script_write s bs w =
     (case sw_replies w of
        [] \<Rightarrow> (Inl WouldBlock, w)
      | Inl e # rs \<Rightarrow> (Inl e, w\<lparr>sw_replies := rs\<rparr>)
      | Inr n # rs \<Rightarrow>
          (Inr (min n (length bs)),
           w\<lparr>sw_replies := rs, sw_sent := (sw_sent w)(s := sw_sent w s @ take (min n (length bs)) bs)\<rparr>))"

definition script_env :: "script_world env" where
  "script_env =
     \<lparr>ev_try_write = script_write,
      ev_try_write_vectored = (\<lambda>s bss. script_write s (concat bss)),
      ev_write_vectored = (\<lambda>s bss. script_write s (concat bss)),
      ev_write_all = (\<lambda>s bs w. (Inr (), w\<lparr>sw_sent := (sw_sent w)(s := sw_sent w s @ bs)\<rparr>)),
      ev_udp_bind = (\<lambda>w. (Inr 7, w)),
      ev_try_send_to = (\<lambda>s bs a w. (Inr (length bs), w))\<rparr>"

definition script_start :: "nat io_result list \<Rightarrow> script_world" where
  "script_start rs = \<lparr>sw_replies = rs, sw_sent = (\<lambda>_. [])\<rparr>"

lemma script_write_took: "script_write s bs w = (r, w') \<Longrightarrow> took sw_sent s bs r w w'"
  by (auto simp: script_write_def took_def split: list.splits sum.splits)

lemma script_env_ok: "io_ok script_env sw_sent"
  unfolding io_ok_def script_env_def by (auto simp: script_write_took)

section \<open>Properties\<close>

text \<open>C5. A TCP backend receives exactly what the client sent, in order: whatever the socket accepts at each
  try, after any sequence of DATA packets and queue drains the bytes the socket took followed by the bytes
  still queued are the bytes queued at the start followed by the bytes of the packets.  If the backend
  died meanwhile, the bytes it took are a prefix of that sequence.  No other socket is written.\<close>

theorem backend_receives_stream_in_order:
  assumes "io_ok E sent" "backend_run E ops tcp w = (dead, tcp', w')"
  shows "\<exists>fwd. sent w' = (sent w)(tcp_writer tcp := sent w (tcp_writer tcp) @ fwd) \<and>
     (if dead
      then \<exists>rest. concat (tcp_pending tcp) @ concat (map op_bytes ops) = fwd @ rest
      else concat (tcp_pending tcp) @ concat (map op_bytes ops) = fwd @ concat (tcp_pending tcp'))"
  using backend_run_conserves [OF assms] by (simp add: conserves_def)

theorem backend_receives_stream_in_order_witness:
  "let tcp = TcpProxyStream_with_pending 3 [] 0;
       (dead, tcp', w') = backend_run script_env [BSend [1, 2, 3], BSend [4, 5], BDrain] tcp
                            (script_start [Inr 2, Inl WouldBlock, Inr 2])
   in \<not> dead \<and> sw_sent w' 3 = [1, 2, 3, 4] \<and> concat (tcp_pending tcp') = [5]"
proof -
  let ?tcp = "TcpProxyStream_with_pending 3 [] 0"
  let ?ops = "[BSend [1, 2, 3], BSend [4, 5], BDrain]"
  let ?w = "script_start [Inr 2, Inl WouldBlock, Inr 2]"
  obtain dead tcp' w' where run: "backend_run script_env ?ops ?tcp ?w = (dead, tcp', w')"
    by (cases "backend_run script_env ?ops ?tcp ?w")
  then have eval: "\<not> dead" "concat (tcp_pending tcp') = [5]"
    by (auto simp: script_env_def script_start_def script_write_def tcp_try_write_def try_write_now_def
        drain_pending_def TcpProxyStream_with_pending_def)
  from backend_receives_stream_in_order [OF script_env_ok run]
  have "sw_sent w' 3 @ [5] = [1, 2, 3, 4, 5]"
    using eval by (auto simp: TcpProxyStream_with_pending_def script_start_def)
  with run eval show ?thesis
    by simp
qed

text \<open>C23. Data sent before the backend was connected reaches it first and in order: after the flush the bytes
  taken and the bytes queued are the early data, unless the backend died, and then it has a prefix.\<close>

theorem early_data_flushed_in_order:
  assumes "io_ok E sent" "flush_early_data E s early False [] w = (dead, pending, w')"
  shows "\<exists>fwd. sent w' = (sent w)(s := sent w s @ fwd) \<and>
     (if dead then \<exists>rest. concat early = fwd @ rest else concat early = fwd @ concat pending)"
  using flush_early_data_conserves [OF assms] by (simp add: conserves_def)

theorem early_data_flushed_in_order_witness:
  "flush_early_data script_env 3 [[1, 2], [3, 4], [5]] False [] (script_start [Inr 2, Inr 1]) =
     (False, [[4], [5]], \<lparr>sw_replies = [], sw_sent = (\<lambda>_. [])(3 := [1, 2, 3])\<rparr>) \<and>
   (\<exists>fwd. fwd @ [4, 5] = ([1, 2, 3, 4, 5] :: bytes))"
proof -
  have run: "flush_early_data script_env 3 [[1, 2], [3, 4], [5]] False [] (script_start [Inr 2, Inr 1]) =
     (False, [[4], [5]], \<lparr>sw_replies = [], sw_sent = (\<lambda>_. [])(3 := [1, 2, 3])\<rparr>)"
    by (simp add: script_env_def script_start_def script_write_def)
  with early_data_flushed_in_order [OF script_env_ok run] show ?thesis
    by auto
qed

end
