(* ===== verification/Ws_Frame.thy ===== *)
theory Ws_Frame
  imports Ws_Mask Backend_Write
begin

text \<open>
  WebSocket frames, \<^verbatim>\<open>vendor/fastwebsockets/src/frame.rs\<close>, close codes (\<^verbatim>\<open>close.rs\<close>), errors
  (\<^verbatim>\<open>error.rs\<close>) and the write half (\<^verbatim>\<open>WriteHalf\<close> of \<^verbatim>\<open>lib.rs\<close>).  The lemmas relate what is written to one
  description of the wire format, \<open>ws_wire\<close>, which the reader is shown to invert (theory \<open>Ws_Reader\<close>).

  The four variants of \<^verbatim>\<open>Payload\<close> differ in ownership only; a payload is its bytes.  The machine on which the
  masking routine runs is the argument \<open>cpu\<close>.
\<close>

section \<open>Errors, op-codes and close codes\<close>

datatype WebSocketError =
    InvalidFragment | InvalidUTF8 | InvalidContinuationFrame | InvalidStatusCode u16
  | InvalidUpgradeHeader | InvalidConnectionHeader | ConnectionClosed | InvalidCloseFrame
  | InvalidCloseCode | UnexpectedEOF | ReservedBitsNotZero | ControlFrameFragmented
  | ControlFrameTooLarge | PingFrameTooLarge | UnmaskedClientFrame | FrameTooLarge
  | InvalidSecWebsocketVersion | InvalidValue | MissingSecWebSocketKey | IoError ErrorKind
  | HTTPError | SendError

datatype OpCode = OpContinuation | OpText | OpBinary | OpClose | OpPing | OpPong

fun OpCode_as_byte :: "OpCode \<Rightarrow> u8" where
  "OpCode_as_byte OpContinuation = 0x0"
| "OpCode_as_byte OpText = 0x1"
| "OpCode_as_byte OpBinary = 0x2"
| "OpCode_as_byte OpClose = 0x8"
| "OpCode_as_byte OpPing = 0x9"
| "OpCode_as_byte OpPong = 0xA"

definition OpCode_try_from :: "u8 \<Rightarrow> WebSocketError + OpCode" where
  "OpCode_try_from v =
     (if v = OpCode_as_byte OpContinuation then Inr OpContinuation
      else if v = OpCode_as_byte OpText then Inr OpText
      else if v = OpCode_as_byte OpBinary then Inr OpBinary
      else if v = OpCode_as_byte OpClose then Inr OpClose
      else if v = OpCode_as_byte OpPing then Inr OpPing
      else if v = OpCode_as_byte OpPong then Inr OpPong
      else Inl InvalidValue)"

definition is_control :: "OpCode \<Rightarrow> bool" where
  "is_control opcode \<longleftrightarrow> opcode = OpClose \<or> opcode = OpPing \<or> opcode = OpPong"

datatype CloseCode =
    CcNormal | CcAway | CcProtocol | CcUnsupported | CcStatus | CcAbnormal | CcInvalid | CcPolicy
  | CcSize | CcExtension | CcError | CcRestart | CcAgain | CcTls
  | CcReserved u16 | CcIana u16 | CcLibrary u16 | CcBad u16

fun CloseCode_is_allowed :: "CloseCode \<Rightarrow> bool" where
  "CloseCode_is_allowed (CcBad _) = False"
| "CloseCode_is_allowed (CcReserved _) = False"
| "CloseCode_is_allowed CcStatus = False"
| "CloseCode_is_allowed CcAbnormal = False"
| "CloseCode_is_allowed CcTls = False"
| "CloseCode_is_allowed _ = True"

definition CloseCode_from_u16 :: "u16 \<Rightarrow> CloseCode" where
  "CloseCode_from_u16 code =
     (if code = 1000 then CcNormal else if code = 1001 then CcAway
      else if code = 1002 then CcProtocol else if code = 1003 then CcUnsupported
      else if code = 1005 then CcStatus else if code = 1006 then CcAbnormal
      else if code = 1007 then CcInvalid else if code = 1008 then CcPolicy
      else if code = 1009 then CcSize else if code = 1010 then CcExtension
      else if code = 1011 then CcError else if code = 1012 then CcRestart
      else if code = 1013 then CcAgain else if code = 1015 then CcTls
      else if 1 \<le> code \<and> code \<le> 999 then CcBad code
      else if 1016 \<le> code \<and> code \<le> 2999 then CcReserved code
      else if 3000 \<le> code \<and> code \<le> 3999 then CcIana code
      else if 4000 \<le> code \<and> code \<le> 4999 then CcLibrary code
      else CcBad code)"

fun CloseCode_to_u16 :: "CloseCode \<Rightarrow> u16" where
  "CloseCode_to_u16 CcNormal = 1000"
| "CloseCode_to_u16 CcAway = 1001"
| "CloseCode_to_u16 CcProtocol = 1002"
| "CloseCode_to_u16 CcUnsupported = 1003"
| "CloseCode_to_u16 CcStatus = 1005"
| "CloseCode_to_u16 CcAbnormal = 1006"
| "CloseCode_to_u16 CcInvalid = 1007"
| "CloseCode_to_u16 CcPolicy = 1008"
| "CloseCode_to_u16 CcSize = 1009"
| "CloseCode_to_u16 CcExtension = 1010"
| "CloseCode_to_u16 CcError = 1011"
| "CloseCode_to_u16 CcRestart = 1012"
| "CloseCode_to_u16 CcAgain = 1013"
| "CloseCode_to_u16 CcTls = 1015"
| "CloseCode_to_u16 (CcReserved code) = code"
| "CloseCode_to_u16 (CcIana code) = code"
| "CloseCode_to_u16 (CcLibrary code) = code"
| "CloseCode_to_u16 (CcBad code) = code"

section \<open>Frames\<close>

record cpu =
  cpu_x86_64 :: bool
  cpu_avx2 :: bool
  cpu_big_endian :: bool
  cpu_split :: align
  cpu_addr :: "bytes \<Rightarrow> usize"

definition cpu_ok :: "cpu \<Rightarrow> bool" where
  "cpu_ok cpu \<longleftrightarrow> align_ok (cpu_split cpu)"

definition unmask_on :: "cpu \<Rightarrow> bytes \<Rightarrow> bytes \<Rightarrow> bytes" where
  "unmask_on cpu payload key =
     unmask (cpu_x86_64 cpu) (cpu_avx2 cpu) (cpu_big_endian cpu) (cpu_split cpu) (cpu_addr cpu payload)
       payload key"

record Frame =
  fr_fin :: bool
  fr_opcode :: OpCode
  fr_mask :: "bytes option"
  fr_payload :: bytes

definition Frame_new :: "bool \<Rightarrow> OpCode \<Rightarrow> bytes option \<Rightarrow> bytes \<Rightarrow> Frame" where
  "Frame_new fin opcode key payload =
     \<lparr>fr_fin = fin, fr_opcode = opcode, fr_mask = key, fr_payload = payload\<rparr>"

definition Frame_text :: "bytes \<Rightarrow> Frame" where
  "Frame_text payload = \<lparr>fr_fin = True, fr_opcode = OpText, fr_mask = None, fr_payload = payload\<rparr>"

definition Frame_binary :: "bytes \<Rightarrow> Frame" where
  "Frame_binary payload = \<lparr>fr_fin = True, fr_opcode = OpBinary, fr_mask = None, fr_payload = payload\<rparr>"

definition Frame_close :: "u16 \<Rightarrow> bytes \<Rightarrow> Frame" where
  "Frame_close code reason =
     \<lparr>fr_fin = True, fr_opcode = OpClose, fr_mask = None, fr_payload = u16_to_be_bytes code @ reason\<rparr>"

definition Frame_close_raw :: "bytes \<Rightarrow> Frame" where
  "Frame_close_raw payload = \<lparr>fr_fin = True, fr_opcode = OpClose, fr_mask = None, fr_payload = payload\<rparr>"

definition Frame_pong :: "bytes \<Rightarrow> Frame" where
  "Frame_pong payload = \<lparr>fr_fin = True, fr_opcode = OpPong, fr_mask = None, fr_payload = payload\<rparr>"

definition is_utf8 :: "Frame \<Rightarrow> bool" where
  "is_utf8 f \<longleftrightarrow> utf8_valid (fr_payload f)"

text \<open>\<open>rnd\<close> is the mask that \<^verbatim>\<open>rand::random()\<close> yields.\<close>

definition Frame_mask :: "cpu \<Rightarrow> bytes \<Rightarrow> Frame \<Rightarrow> Frame" where
  "Frame_mask cpu rnd f =
     (case fr_mask f of
        Some key \<Rightarrow> f\<lparr>fr_payload := unmask_on cpu (fr_payload f) key\<rparr>
      | None \<Rightarrow> f\<lparr>fr_payload := unmask_on cpu (fr_payload f) rnd, fr_mask := Some rnd\<rparr>)"

definition Frame_unmask :: "cpu \<Rightarrow> Frame \<Rightarrow> Frame" where
  "Frame_unmask cpu f =
     (case fr_mask f of
        Some key \<Rightarrow> f\<lparr>fr_payload := unmask_on cpu (fr_payload f) key\<rparr>
      | None \<Rightarrow> f)"

definition fmt_head :: "Frame \<Rightarrow> bytes \<Rightarrow> usize \<times> bytes" where
  "fmt_head f head =
     (let head = head[0 := push_bit 7 (of_bool (fr_fin f)) OR OpCode_as_byte (fr_opcode f)];
          len = length (fr_payload f);
          (hsize, head) =
            (if len < 126 then (2, head[1 := of_nat len])
             else if len < 65536 then (4, copy_at 2 (u16_to_be_bytes (of_nat len)) (head[1 := 126]))
             else (10, copy_at 2 (u64_to_be_bytes (of_nat len)) (head[1 := 127])))
      in case fr_mask f of
           Some key \<Rightarrow> (hsize + 4, copy_at hsize key (head[1 := head ! 1 OR 0x80]))
         | None \<Rightarrow> (hsize, head))"

definition MAX_HEAD_SIZE :: usize where [simp]: "MAX_HEAD_SIZE = 16"

text \<open>\<^verbatim>\<open>Frame::write\<close>: the slice that is returned and the buffer.\<close>

definition Frame_write :: "Frame \<Rightarrow> bytes \<Rightarrow> bytes \<times> bytes" where
  "Frame_write f buf =
     (let len = length (fr_payload f);
          buf = (if length buf < len + MAX_HEAD_SIZE
                 then buf @ replicate (len + MAX_HEAD_SIZE - length buf) 0 else buf);
          (hsize, buf) = fmt_head f buf;
          buf = copy_at hsize (fr_payload f) buf
      in (take (hsize + len) buf, buf))"

text \<open>
  The loop of \<^verbatim>\<open>Frame::writev\<close> that finishes the header.  It goes on as long as the socket takes nothing, so it
  may run forever: the value \<^term>\<open>None\<close>.
\<close>

partial_function (option) writev_loop ::
  "'w env \<Rightarrow> sock \<Rightarrow> bytes \<Rightarrow> usize \<Rightarrow> bytes \<Rightarrow> usize \<Rightarrow> 'w \<Rightarrow> (nat io_result \<times> 'w) option" where
  "writev_loop E s head hsize payload n w =
     (if n \<le> hsize then
        (case ev_write_vectored E s [drop n (take hsize head), payload] w of
           (Inl e, w') \<Rightarrow> Some (Inl e, w')
         | (Inr k, w') \<Rightarrow> writev_loop E s head hsize payload (n + k) w')
      else Some (Inr n, w))"

definition Frame_writev :: "'w env \<Rightarrow> sock \<Rightarrow> Frame \<Rightarrow> 'w \<Rightarrow> (unit io_result \<times> 'w) option" where
  "Frame_writev E s f w =
     (let (hsize, head) = fmt_head f (replicate MAX_HEAD_SIZE 0);
          payload = fr_payload f;
          total = hsize + length payload
      in case ev_write_vectored E s [take hsize head, payload] w of
           (Inl e, w') \<Rightarrow> Some (Inl e, w')
         | (Inr n, w') \<Rightarrow>
             if n = total then Some (Inr (), w')
             else (case writev_loop E s head hsize payload n w' of
                     None \<Rightarrow> None
                   | Some (Inl e, w'') \<Rightarrow> Some (Inl e, w'')
                   | Some (Inr n, w'') \<Rightarrow>
                       if n < total \<and> n > hsize
                       then Some (ev_write_all E s (drop (n - hsize) payload) w'')
                       else Some (Inr (), w'')))"

section \<open>The write half\<close>

datatype Role = Server | Client

record WriteHalf =
  wh_role :: Role
  wh_closed :: bool
  wh_vectored :: bool
  wh_auto_apply_mask :: bool
  wh_writev_threshold :: usize
  wh_write_buffer :: bytes

definition WriteHalf_after_handshake :: "Role \<Rightarrow> WriteHalf" where
  "WriteHalf_after_handshake role =
     \<lparr>wh_role = role, wh_closed = False, wh_vectored = True, wh_auto_apply_mask = True,
      wh_writev_threshold = 1024, wh_write_buffer = []\<rparr>"

definition set_writev :: "bool \<Rightarrow> WriteHalf \<Rightarrow> WriteHalf" where
  [simp]: "set_writev vectored wh = wh\<lparr>wh_vectored := vectored\<rparr>"

definition lift_io :: "'a io_result \<Rightarrow> WebSocketError + 'a" where
  "lift_io r = (case r of Inl e \<Rightarrow> Inl (IoError e) | Inr x \<Rightarrow> Inr x)"

definition WriteHalf_write_frame ::
  "'w env \<Rightarrow> cpu \<Rightarrow> bytes \<Rightarrow> sock \<Rightarrow> Frame \<Rightarrow> WriteHalf \<Rightarrow> 'w \<Rightarrow>
   ((WebSocketError + unit) \<times> WriteHalf \<times> 'w) option" where
  "WriteHalf_write_frame E cpu rnd s f wh w =
     (let f = (if wh_role wh = Client \<and> wh_auto_apply_mask wh then Frame_mask cpu rnd f else f) in
      if fr_opcode f \<noteq> OpClose \<and> wh_closed wh then Some (Inl ConnectionClosed, wh, w)
      else
        let wh = (if fr_opcode f = OpClose then wh\<lparr>wh_closed := True\<rparr> else wh) in
        if wh_vectored wh \<and> length (fr_payload f) > wh_writev_threshold wh
        then (case Frame_writev E s f w of
                None \<Rightarrow> None
              | Some (r, w') \<Rightarrow> Some (lift_io r, wh, w'))
        else (case Frame_write f (wh_write_buffer wh) of (out, buf) \<Rightarrow>
                case ev_write_all E s out w of (r, w') \<Rightarrow>
                  Some (lift_io r, wh\<lparr>wh_write_buffer := buf\<rparr>, w')))"

section \<open>Lemmas: the wire format\<close>

lemma OpCode_try_from_as_byte [simp]: "OpCode_try_from (OpCode_as_byte opcode) = Inr opcode"
  by (cases opcode) (simp_all add: OpCode_try_from_def)

lemma OpCode_try_from_Inr: "OpCode_try_from b = Inr opcode \<Longrightarrow> b = OpCode_as_byte opcode"
  by (auto simp: OpCode_try_from_def split: if_splits)

lemma OpCode_as_byte_less: "OpCode_as_byte opcode < 16"
  by (cases opcode) simp_all

lemma unmask_on_eq: "cpu_ok cpu \<Longrightarrow> length key = 4 \<Longrightarrow> unmask_on cpu payload key = mask_from 0 key payload"
  by (simp add: cpu_ok_def unmask_on_def unmask_eq)

text \<open>Length field and full header of a frame, and the frame on the wire.\<close>

definition ws_len_code :: "nat \<Rightarrow> u8" where
  "ws_len_code len = (if len < 126 then of_nat len else if len < 65536 then 126 else 127)"

definition ws_len_ext :: "nat \<Rightarrow> bytes" where
  "ws_len_ext len =
     (if len < 126 then [] else if len < 65536 then u16_to_be_bytes (of_nat len)
      else u64_to_be_bytes (of_nat len))"

definition ws_head :: "bool \<Rightarrow> OpCode \<Rightarrow> bytes option \<Rightarrow> nat \<Rightarrow> bytes" where
  "ws_head fin opcode key len =
     [push_bit 7 (of_bool fin) OR OpCode_as_byte opcode,
      ws_len_code len OR (if key = None then 0 else 0x80)]
     @ ws_len_ext len @ (case key of None \<Rightarrow> [] | Some k \<Rightarrow> k)"

definition ws_wire :: "Frame \<Rightarrow> bytes" where
  "ws_wire f = ws_head (fr_fin f) (fr_opcode f) (fr_mask f) (length (fr_payload f)) @ fr_payload f"

lemma copy_at_append: "length a = i \<Longrightarrow> copy_at i xs (a @ b) = a @ xs @ drop (length xs) b"
  by (simp add: copy_at_def)

lemma drop_6_add: "drop (6 + n) (x # y # zs) = drop (4 + n) zs"
  by (simp add: numeral_eq_Suc)

lemma fmt_head_eq:
  assumes "14 \<le> length head" "\<forall>k. fr_mask f = Some k \<longrightarrow> length k = 4"
  shows "fmt_head f head =
    (let h = ws_head (fr_fin f) (fr_opcode f) (fr_mask f) (length (fr_payload f))
     in (length h, h @ drop (length h) head))"
proof -
  obtain a b rest where head: "head = a # b # rest"
    using assms(1) by (metis Suc_le_length_iff numeral_eq_Suc pred_numeral_simps(2,3))
  let ?len = "length (fr_payload f)"
  let ?b0 = "push_bit 7 (of_bool (fr_fin f)) OR OpCode_as_byte (fr_opcode f)"
  have ext: "length (ws_len_ext ?len) = (if ?len < 126 then 0 else if ?len < 65536 then 2 else 8)"
    by (simp add: ws_len_ext_def)
  have mid: "(if ?len < 126 then (2, (head[0 := ?b0])[1 := of_nat ?len])
        else if ?len < 65536 then (4, copy_at 2 (u16_to_be_bytes (of_nat ?len)) ((head[0 := ?b0])[1 := 126]))
        else (10, copy_at 2 (u64_to_be_bytes (of_nat ?len)) ((head[0 := ?b0])[1 := 127]))) =
      (2 + length (ws_len_ext ?len),
       [?b0, ws_len_code ?len] @ ws_len_ext ?len @ drop (length (ws_len_ext ?len)) rest)"
    by (simp add: head ws_len_ext_def ws_len_code_def copy_at_def)
  show ?thesis
  proof (cases "fr_mask f")
    case None
    then show ?thesis
      unfolding fmt_head_def Let_def mid prod.case by (simp add: ws_head_def head)
  next
    case (Some k)
    with assms(2) have "length k = 4" by simp
    then show ?thesis
      using Some unfolding fmt_head_def Let_def mid prod.case
      by (simp add: ws_head_def head copy_at_def drop_6_add add.commute [of _ 4])
  qed
qed

lemma length_ws_head:
  "\<forall>k. key = Some k \<longrightarrow> length k = 4 \<Longrightarrow> length (ws_head fin opcode key len) \<le> 14"
  by (auto simp: ws_head_def ws_len_ext_def split: option.split)

lemma Frame_write_wire:
  assumes "\<forall>k. fr_mask f = Some k \<longrightarrow> length k = 4"
  shows "fst (Frame_write f buf) = ws_wire f"
proof -
  let ?h = "ws_head (fr_fin f) (fr_opcode f) (fr_mask f) (length (fr_payload f))"
  define b where "b = (if length buf < length (fr_payload f) + MAX_HEAD_SIZE
    then buf @ replicate (length (fr_payload f) + MAX_HEAD_SIZE - length buf) 0 else buf)"
  have len: "14 \<le> length b" "length ?h \<le> 14"
    using length_ws_head [OF assms] by (auto simp: b_def)
  have "fst (Frame_write f buf) = take (length ?h + length (fr_payload f)) (copy_at (length ?h) (fr_payload f)
      (?h @ drop (length ?h) b))"
    unfolding Frame_write_def b_def [symmetric] Let_def fmt_head_eq [OF len(1) assms] by simp
  then show ?thesis
    by (simp add: copy_at_append ws_wire_def)
qed

section \<open>Lemmas: vectored writes\<close>

text \<open>A socket that never reports an empty write of a non-empty vector.\<close>

definition progress :: "'w env \<Rightarrow> bool" where
  "progress E \<longleftrightarrow> (\<forall>s bss w w'. concat bss \<noteq> [] \<longrightarrow> ev_write_vectored E s bss w \<noteq> (Inr 0, w'))"

lemma progress_nonzero:
  "progress E \<Longrightarrow> ev_write_vectored E s bss w = (Inr j, w') \<Longrightarrow> concat bss \<noteq> [] \<Longrightarrow> j \<noteq> 0"
  unfolding progress_def by metis

lemma took_nothing:
  "took sent s out (Inr 0) w w" "took sent s out (Inl e) w w' \<Longrightarrow> took sent s out (Inr 0) w w'"
  by (simp_all add: took_def)

lemma took_append:
  assumes "took sent s (drop n out) (Inr j) w w1" "took sent s (drop (n + j) out) (Inr k) w1 w2"
  shows "took sent s (drop n out) (Inr (j + k)) w w2"
  using assms take_add [of j k "drop n out"] by (auto simp: took_def add.commute)

lemma write_header_took:
  assumes "io_ok E sent" "ev_write_vectored E s [drop n (take hsize head), payload] w = (r, w1)"
    "n \<le> hsize" "hsize \<le> length head" "out = take hsize head @ payload"
  shows "took sent s (drop n out) r w w1"
  using io_ok_write_vectored [OF assms(1,2)] assms(3-5) by simp

lemma writev_loop_sent:
  assumes "io_ok E sent" "progress E" "payload \<noteq> []" "hsize \<le> length head" "out = take hsize head @ payload"
  shows "\<exists>r w' k. writev_loop E s head hsize payload n w = Some (r, w') \<and>
     took sent s (drop n out) (Inr k) w w' \<and> (\<forall>m. r = Inr m \<longrightarrow> m = n + k \<and> m > hsize)"
proof (induction "Suc hsize - n" arbitrary: n w rule: less_induct)
  case less
  note unfold = writev_loop.simps [of E s head hsize payload n w]
  show ?case
  proof (cases "n \<le> hsize")
    case True
    obtain r w1 where wr: "ev_write_vectored E s [drop n (take hsize head), payload] w = (r, w1)"
      by fastforce
    note took = write_header_took [OF assms(1) wr True assms(4,5)]
    show ?thesis
    proof (cases r)
      case (Inl e)
      with True wr took_nothing(2) [OF took [unfolded Inl]] show ?thesis
        unfolding unfold by (intro exI [of _ "Inl e"] exI [of _ w1] exI [of _ 0]) simp
    next
      case (Inr j)
      then have "j \<noteq> 0"
        using progress_nonzero [OF assms(2), of s _ w j w1] wr assms(3) by simp
      with True have "Suc hsize - (n + j) < Suc hsize - n"
        by simp
      from less [OF this, of w1] obtain r2 w2 k where k:
        "writev_loop E s head hsize payload (n + j) w1 = Some (r2, w2)"
        "took sent s (drop (n + j) out) (Inr k) w1 w2"
        "\<forall>m. r2 = Inr m \<longrightarrow> m = n + j + k \<and> m > hsize"
        by blast
      have "writev_loop E s head hsize payload n w = Some (r2, w2)"
        unfolding unfold by (simp add: True wr Inr k(1))
      with took_append [OF took [unfolded Inr] k(2)] k(3) [unfolded add.assoc] show ?thesis
        by blast
    qed
  next
    case False
    with took_nothing(1) show ?thesis
      unfolding unfold by (intro exI [of _ "Inr n"] exI [of _ w] exI [of _ 0]) simp
  qed
qed

text \<open>What a call that is to send \<open>out\<close> on socket \<open>s\<close> leaves behind: a prefix was sent, all of it on success.\<close>

definition delivers ::
  "('w \<Rightarrow> sock \<Rightarrow> bytes) \<Rightarrow> sock \<Rightarrow> bytes \<Rightarrow> bool \<Rightarrow> 'w \<Rightarrow> 'w \<Rightarrow> bool" where
  "delivers sent s out ok w w' \<longleftrightarrow>
     (\<exists>k \<le> length out. sent w' = (sent w)(s := sent w s @ take k out) \<and> (ok \<longrightarrow> k = length out))"

lemma delivers_write_all:
  "io_ok E sent \<Longrightarrow> ev_write_all E s out w = (r, w') \<Longrightarrow> delivers sent s out (r = Inr ()) w w'"
  using io_ok_write_all [of E sent s out w r w'] by (simp add: delivers_def)

lemma delivers_took:
  "took sent s out r w w' \<Longrightarrow> (ok \<Longrightarrow> r = Inr (length out)) \<Longrightarrow> delivers sent s out ok w w'"
  by (cases r) (auto simp: took_def delivers_def intro: exI [of _ 0])

lemma delivers_append:
  assumes "took sent s out (Inr n) w w'" "delivers sent s (drop n out) ok w' w''"
  shows "delivers sent s out ok w w''"
proof -
  from assms(1) have n: "n \<le> length out" "sent w' = (sent w)(s := sent w s @ take n out)"
    by (simp_all add: took_def)
  from assms(2) obtain k where k: "k \<le> length (drop n out)" "ok \<longrightarrow> k = length (drop n out)"
    "sent w'' = (sent w')(s := sent w' s @ take k (drop n out))"
    unfolding delivers_def by blast
  show ?thesis
    unfolding delivers_def
    by (intro exI [of _ "n + k"]) (use n k in \<open>auto simp: take_add\<close>)
qed

text \<open>After the header the rest of the payload goes out with one \<^verbatim>\<open>write_all\<close>.\<close>

lemma write_rest_delivers:
  assumes "io_ok E sent" "took sent s (drop n out) (Inr k) w1 w2"
    and "\<And>m. r = Inr m \<Longrightarrow> m = n + k \<and> m \<ge> length h" "out = h @ payload" "n \<le> length out"
    and "(case r of Inl e \<Rightarrow> (Inl e, w2) | Inr m \<Rightarrow>
            if m < length out then ev_write_all E s (drop (m - length h) payload) w2
            else (Inr (), w2)) = (r3, w3)"
  shows "delivers sent s (drop n out) (r3 = Inr ()) w1 w3"
proof (cases r)
  case (Inl e)
  with assms(2,6) show ?thesis
    by (auto simp: took_def delivers_def)
next
  case (Inr m)
  with assms(3) have m: "m = n + k" "m \<ge> length h" by simp_all
  show ?thesis
  proof (cases "m < length out")
    case True
    with assms(6) Inr have wr: "ev_write_all E s (drop (m - length h) payload) w2 = (r3, w3)"
      by simp
    have "drop k (drop n out) = drop m out"
      by (simp add: m(1) add.commute)
    also have "\<dots> = drop (m - length h) payload"
      using m(2) assms(4) by simp
    finally have "drop (m - length h) payload = drop k (drop n out)" ..
    with delivers_write_all [OF assms(1) wr] assms(2) show ?thesis
      by (auto intro: delivers_append)
  next
    case False
    moreover have "k \<le> length out - n"
      using assms(2) by (simp add: took_def)
    ultimately have "k = length (drop n out)"
      using m(1) by simp
    with False Inr assms(2,6) show ?thesis
      by (auto intro: delivers_took)
  qed
qed

lemma Frame_writev_delivers:
  assumes "io_ok E sent" "progress E" "fr_payload f \<noteq> []" "\<forall>k. fr_mask f = Some k \<longrightarrow> length k = 4"
  shows "\<exists>r w'. Frame_writev E s f w = Some (r, w') \<and> delivers sent s (ws_wire f) (r = Inr ()) w w'"
proof -
  let ?h = "ws_head (fr_fin f) (fr_opcode f) (fr_mask f) (length (fr_payload f))"
  obtain head where fmt: "fmt_head f (replicate MAX_HEAD_SIZE 0) = (length ?h, head)"
      and head: "take (length ?h) head = ?h" "length ?h \<le> length head"
    by (simp add: fmt_head_eq assms(4) Let_def)
  obtain r w1 where wr: "ev_write_vectored E s [?h, fr_payload f] w = (r, w1)"
    by fastforce
  have wire: "?h @ fr_payload f = ws_wire f"
    by (simp add: ws_wire_def)
  have took: "took sent s (ws_wire f) r w w1"
    using io_ok_write_vectored [OF assms(1) wr] wire by simp
  show ?thesis
  proof (cases "\<exists>n. r = Inr n \<and> n \<noteq> length (ws_wire f)")
    case False
    with wr fmt head took show ?thesis
      by (cases r) (auto simp: Frame_writev_def ws_wire_def intro: delivers_took)
  next
    case True
    then obtain n where n: "r = Inr n" "n \<noteq> length (ws_wire f)"
      by blast
    from writev_loop_sent [OF assms(1-3) head(2) refl, of s n w1] obtain r2 w2 k where
      loop: "writev_loop E s head (length ?h) (fr_payload f) n w1 = Some (r2, w2)"
      and k: "took sent s (drop n (ws_wire f)) (Inr k) w1 w2" and r2: "\<And>m. r2 = Inr m \<Longrightarrow> m = n + k \<and> m > length ?h"
      unfolding head(1) wire by blast
    obtain r3 w3 where fin: "(case r2 of Inl e \<Rightarrow> (Inl e, w2) | Inr m \<Rightarrow>
        if m < length (ws_wire f) then ev_write_all E s (drop (m - length ?h) (fr_payload f)) w2 else (Inr (), w2)) = (r3, w3)"
      by fastforce
    have "delivers sent s (drop n (ws_wire f)) (r3 = Inr ()) w1 w3"
      by (rule write_rest_delivers [OF assms(1) k _ wire [symmetric] _ fin])
        (use r2 took n in \<open>auto simp: took_def dest: less_imp_le\<close>)
    moreover have "Frame_writev E s f w = Some (r3, w3)"
      using n fmt head(1) wr loop fin r2 by (cases r2) (auto simp: Frame_writev_def ws_wire_def Let_def)
    ultimately show ?thesis
      using took n(1) by (auto intro: delivers_append)
  qed
qed

section \<open>A concrete machine\<close>

text \<open>A socket that takes three bytes of a vector at a time, and a processor with an aligned allocator.\<close>

definition drip_env :: "script_world env" where
  "drip_env = script_env\<lparr>ev_write_vectored := (\<lambda>s bss w.
     (Inr (min 3 (length (concat bss))),
      w\<lparr>sw_sent := (sw_sent w)(s := sw_sent w s @ take (min 3 (length (concat bss))) (concat bss))\<rparr>))\<rparr>"

definition plain_cpu :: cpu where
  "plain_cpu = \<lparr>cpu_x86_64 = True, cpu_avx2 = True, cpu_big_endian = False,
     cpu_split = (\<lambda>a n. (0, n div 4)), cpu_addr = (\<lambda>_. 0)\<rparr>"

lemma drip_env_ok: "io_ok drip_env sw_sent" "progress drip_env"
proof -
  show "io_ok drip_env sw_sent"
    using script_env_ok unfolding io_ok_def drip_env_def by (auto simp: took_def)
  show "progress drip_env"
    by (auto simp: progress_def drip_env_def min_def simp flip: length_greater_0_conv)
qed

lemma plain_cpu_ok: "cpu_ok plain_cpu"
  by (simp add: cpu_ok_def plain_cpu_def align_ok_def)

text \<open>The frame after masking, written in one of the two ways.\<close>

lemma write_formatted_delivers:
  assumes "io_ok E sent" "progress E" "\<forall>k. fr_mask g = Some k \<longrightarrow> length k = 4"
  shows "\<exists>r wh' w'.
     (if wh_vectored wh \<and> length (fr_payload g) > wh_writev_threshold wh
      then (case Frame_writev E s g w of None \<Rightarrow> None | Some (r, w') \<Rightarrow> Some (lift_io r, wh, w'))
      else (case Frame_write g (wh_write_buffer wh) of (out, buf) \<Rightarrow>
              case ev_write_all E s out w of (r, w') \<Rightarrow> Some (lift_io r, wh\<lparr>wh_write_buffer := buf\<rparr>, w'))) =
       Some (r, wh', w') \<and>
     wh_closed wh' = wh_closed wh \<and> delivers sent s (ws_wire g) (r = Inr ()) w w'"
proof -
  have lift: "lift_io r = Inr () \<longleftrightarrow> r = Inr ()" for r
    by (simp add: lift_io_def split: sum.split)
  show ?thesis
  proof (cases "wh_vectored wh \<and> length (fr_payload g) > wh_writev_threshold wh")
    case True
    then have "fr_payload g \<noteq> []"
      by auto
    from Frame_writev_delivers [OF assms(1,2) this assms(3), of s w] True lift show ?thesis
      by auto
  next
    case False
    obtain out buf where fw: "Frame_write g (wh_write_buffer wh) = (out, buf)"
      by fastforce
    then have out: "out = ws_wire g"
      using Frame_write_wire [OF assms(3), of "wh_write_buffer wh"] by simp
    obtain r w' where wr: "ev_write_all E s (ws_wire g) w = (r, w')"
      by fastforce
    from delivers_write_all [OF assms(1) wr] False fw wr out lift show ?thesis
      by auto
  qed
qed

lemma WriteHalf_write_frame_delivers:
  assumes "io_ok E sent" "progress E" "cpu_ok cpu" "length rnd = 4" "fr_mask f = None"
  shows "\<exists>r wh' w'. WriteHalf_write_frame E cpu rnd s f wh w = Some (r, wh', w') \<and>
    (let masked = (wh_role wh = Client \<and> wh_auto_apply_mask wh);
         wire = ws_head (fr_fin f) (fr_opcode f) (if masked then Some rnd else None) (length (fr_payload f)) @
                (if masked then mask_from 0 rnd (fr_payload f) else fr_payload f)
     in if wh_closed wh \<and> fr_opcode f \<noteq> OpClose
        then r = Inl ConnectionClosed \<and> sent w' = sent w
        else wh_closed wh' = (wh_closed wh \<or> fr_opcode f = OpClose) \<and>
             delivers sent s wire (r = Inr ()) w w')"
proof -
  define masked where "masked \<longleftrightarrow> wh_role wh = Client \<and> wh_auto_apply_mask wh"
  define g where "g = (if masked then Frame_mask cpu rnd f else f)"
  define wh2 where "wh2 = (if fr_opcode f = OpClose then wh\<lparr>wh_closed := True\<rparr> else wh)"
  define wire where "wire = ws_head (fr_fin f) (fr_opcode f) (if masked then Some rnd else None)
      (length (fr_payload f)) @ (if masked then mask_from 0 rnd (fr_payload f) else fr_payload f)"
  have mask: "\<forall>k. fr_mask g = Some k \<longrightarrow> length k = 4" and op: "fr_opcode g = fr_opcode f"
    and wire_g: "ws_wire g = wire"
    using assms(3-5) by (auto simp: g_def wire_def ws_wire_def Frame_mask_def unmask_on_eq)
  note unfold = WriteHalf_write_frame_def [of E cpu rnd s f wh w, folded masked_def, folded g_def, unfolded Let_def op, folded wh2_def]
  show ?thesis
  proof (cases "wh_closed wh \<and> fr_opcode f \<noteq> OpClose")
    case True
    then show ?thesis
      unfolding unfold by simp
  next
    case False
    then have guard: "(fr_opcode f \<noteq> OpClose \<and> wh_closed wh) = False" "(wh_closed wh \<and> fr_opcode f \<noteq> OpClose) = False"
      by blast+
    have closed: "wh_closed wh2 = (wh_closed wh \<or> fr_opcode f = OpClose)"
      by (simp add: wh2_def)
    show ?thesis
      unfolding unfold masked_def [symmetric] Let_def wire_def [symmetric] guard if_False
      by (rule write_formatted_delivers [OF assms(1,2) mask, of wh2 s w, unfolded wire_g closed])
  qed
qed

section \<open>Properties\<close>

text \<open>C30. Writing a frame through the write half returns, and puts the frame on the wire: the header of the
  right length form followed by the payload, masked with the frame's mask key for a client, however the socket
  splits the writes; on an I/O error a prefix of that was sent.  After a close frame every other frame is refused
  and nothing is sent.\<close>

theorem write_frame_delivers:
  assumes "io_ok E sent" "progress E" "cpu_ok cpu" "length rnd = 4" "fr_mask f = None"
  shows "\<exists>r wh' w'. WriteHalf_write_frame E cpu rnd s f wh w = Some (r, wh', w') \<and>
    (let masked = (wh_role wh = Client \<and> wh_auto_apply_mask wh);
         wire = ws_head (fr_fin f) (fr_opcode f) (if masked then Some rnd else None) (length (fr_payload f)) @
                (if masked then mask_from 0 rnd (fr_payload f) else fr_payload f)
     in if wh_closed wh \<and> fr_opcode f \<noteq> OpClose
        then r = Inl ConnectionClosed \<and> sent w' = sent w
        else wh_closed wh' = (wh_closed wh \<or> fr_opcode f = OpClose) \<and>
             delivers sent s wire (r = Inr ()) w w')"
  using assms by (rule WriteHalf_write_frame_delivers)

theorem write_frame_delivers_witness:
  "\<exists>r wh' w'. WriteHalf_write_frame drip_env plain_cpu [1, 2, 3, 4] 1 (Frame_binary [9, 9])
      (WriteHalf_after_handshake Client) (script_start []) = Some (r, wh', w') \<and> \<not> wh_closed wh' \<and>
    delivers sw_sent 1 [0x82, 0x82, 1, 2, 3, 4, 8, 11] (r = Inr ()) (script_start []) w'"
  using write_frame_delivers [OF drip_env_ok, of plain_cpu "[1, 2, 3, 4]" "Frame_binary [9, 9]" 1
      "WriteHalf_after_handshake Client" "script_start []"]
  by (simp add: plain_cpu_ok Frame_binary_def WriteHalf_after_handshake_def ws_head_def ws_len_code_def
      ws_len_ext_def mask_from_def)

end
