(* ===== verification/Ws_Reader.thy ===== *)
theory Ws_Reader
  imports Ws_Frame
begin

text \<open>
  The read half of the WebSocket library, \<^verbatim>\<open>vendor/fastwebsockets/src/lib.rs\<close>: the asynchronous frame parser,
  its synchronous twin over buffered bytes, the handling of control frames, and the fused Wisp reader.

  The byte stream of the peer is the list of the results of the successive \<^verbatim>\<open>read_buf\<close> calls: a chunk of bytes,
  an empty chunk at the end of the stream, or an error.  When the list is used up the parser is still waiting
  (\<open>Pending\<close>), which is also the state in which \<^verbatim>\<open>select!\<close> may drop it.  The lemmas show that the asynchronous
  parser computes what the synchronous one computes on all bytes received so far, for every way of splitting
  them into chunks, and that a pending parser has consumed nothing.

  Header and payload lengths are added in \<^typ>\<open>nat\<close>.  The \<^verbatim>\<open>usize\<close> sum of the code is the same while the message limit
  is below \<open>2 ^ 63\<close>; with a larger one the parser would panic on reserving such a frame, which is not modelled.
\<close>

section \<open>State\<close>

record ReadHalf =
  rh_role :: Role
  rh_auto_apply_mask :: bool
  rh_auto_close :: bool
  rh_auto_pong :: bool
  rh_writev_threshold :: usize
  rh_max_message_size :: usize
  rh_buffer :: bytes

definition ReadHalf_after_handshake :: "Role \<Rightarrow> ReadHalf" where
  "ReadHalf_after_handshake role =
     \<lparr>rh_role = role, rh_auto_apply_mask = True, rh_auto_close = True, rh_auto_pong = True,
      rh_writev_threshold = 1024, rh_max_message_size = 64 * 2 ^ 20, rh_buffer = []\<rparr>"

definition set_auto_close :: "bool \<Rightarrow> ReadHalf \<Rightarrow> ReadHalf" where
  [simp]: "set_auto_close auto_close rh = rh\<lparr>rh_auto_close := auto_close\<rparr>"

definition set_auto_pong :: "bool \<Rightarrow> ReadHalf \<Rightarrow> ReadHalf" where
  [simp]: "set_auto_pong auto_pong rh = rh\<lparr>rh_auto_pong := auto_pong\<rparr>"

definition set_max_message_size :: "usize \<Rightarrow> ReadHalf \<Rightarrow> ReadHalf" where
  [simp]: "set_max_message_size max_message_size rh = rh\<lparr>rh_max_message_size := max_message_size\<rparr>"

definition prepend_bytes :: "bytes \<Rightarrow> ReadHalf \<Rightarrow> ReadHalf" where
  "prepend_bytes bs rh = (if bs \<noteq> [] then rh\<lparr>rh_buffer := bs @ rh_buffer rh\<rparr> else rh)"

type_synonym chunks = "bytes io_result list"

datatype 'a poll = Pending | Ready 'a

section \<open>Parsing one frame\<close>

text \<open>\<^verbatim>\<open>while self.buffer.remaining() < n { eof!(stream.read_buf(..).await?) }\<close>\<close>

fun read_until :: "nat \<Rightarrow> bytes \<Rightarrow> chunks \<Rightarrow> (WebSocketError + unit) poll \<times> bytes \<times> chunks" where
  "read_until n buf [] = (if length buf < n then Pending else Ready (Inr ()), buf, [])"
| "read_until n buf (c # cs) =
     (if length buf < n then
        (case c of
           Inl e \<Rightarrow> (Ready (Inl (IoError e)), buf, cs)
         | Inr bs \<Rightarrow> if bs = [] then (Ready (Inl UnexpectedEOF), buf, cs) else read_until n (buf @ bs) cs)
      else (Ready (Inr ()), buf, c # cs))"

text \<open>The peeks at the header that both parsers make.\<close>

definition is_masked :: "u8 \<Rightarrow> bool" where
  "is_masked byte1 \<longleftrightarrow> byte1 AND 0x80 \<noteq> 0"

definition extra_size :: "u8 \<Rightarrow> usize" where
  "extra_size byte1 =
     (let length_code = byte1 AND 0x7F
      in if length_code = 126 then 2 else if length_code = 127 then 8 else 0)"

definition header_size :: "u8 \<Rightarrow> usize" where
  "header_size byte1 = 2 + extra_size byte1 + (if is_masked byte1 then 4 else 0)"

definition peek_payload_len :: "bytes \<Rightarrow> usize" where
  "peek_payload_len buf =
     (let extra = extra_size (buf ! 1)
      in if extra = 0 then unat (buf ! 1 AND 0x7F)
         else if extra = 2 then unat (u16_from_be_bytes [buf ! 2, buf ! 3])
         else unat (u64_from_be_bytes [buf ! 2, buf ! 3, buf ! 4, buf ! 5,
                                       buf ! 6, buf ! 7, buf ! 8, buf ! 9]))"

definition peek_mask :: "bytes \<Rightarrow> bytes option" where
  "peek_mask buf =
     (if is_masked (buf ! 1)
      then let m = 2 + extra_size (buf ! 1) in Some [buf ! m, buf ! (m + 1), buf ! (m + 2), buf ! (m + 3)]
      else None)"

definition parse_frame_header ::
  "ReadHalf \<Rightarrow> chunks \<Rightarrow> (WebSocketError + Frame) poll \<times> ReadHalf \<times> chunks" where
  "parse_frame_header rh cs =
     (case read_until 2 (rh_buffer rh) cs of
        (Pending, buf, cs) \<Rightarrow> (Pending, rh\<lparr>rh_buffer := buf\<rparr>, cs)
      | (Ready (Inl e), buf, cs) \<Rightarrow> (Ready (Inl e), rh\<lparr>rh_buffer := buf\<rparr>, cs)
      | (Ready (Inr _), buf, cs) \<Rightarrow>
        let byte0 = buf ! 0;
            byte1 = buf ! 1;
            fin = (byte0 AND 0x80 \<noteq> 0);
            rsv1 = (byte0 AND 0x40 \<noteq> 0);
            rsv2 = (byte0 AND 0x20 \<noteq> 0);
            rsv3 = (byte0 AND 0x10 \<noteq> 0)
        in if rsv1 \<or> rsv2 \<or> rsv3 then (Ready (Inl ReservedBitsNotZero), rh\<lparr>rh_buffer := buf\<rparr>, cs)
        else case OpCode_try_from (byte0 AND 0x0F) of
          Inl e \<Rightarrow> (Ready (Inl e), rh\<lparr>rh_buffer := buf\<rparr>, cs)
        | Inr opcode \<Rightarrow>
          if rh_role rh = Server \<and> \<not> is_masked byte1
          then (Ready (Inl UnmaskedClientFrame), rh\<lparr>rh_buffer := buf\<rparr>, cs)
          else case read_until (header_size byte1) buf cs of
              (Pending, buf, cs) \<Rightarrow> (Pending, rh\<lparr>rh_buffer := buf\<rparr>, cs)
            | (Ready (Inl e), buf, cs) \<Rightarrow> (Ready (Inl e), rh\<lparr>rh_buffer := buf\<rparr>, cs)
            | (Ready (Inr _), buf, cs) \<Rightarrow>
              let payload_len = peek_payload_len buf;
                  key = peek_mask buf
              in if is_control opcode \<and> \<not> fin
                 then (Ready (Inl ControlFrameFragmented), rh\<lparr>rh_buffer := buf\<rparr>, cs)
                 else if is_control opcode \<and> payload_len > 125
                 then (Ready (Inl ControlFrameTooLarge), rh\<lparr>rh_buffer := buf\<rparr>, cs)
                 else if payload_len > rh_max_message_size rh
                 then (Ready (Inl FrameTooLarge), rh\<lparr>rh_buffer := buf\<rparr>, cs)
                 else case read_until (header_size byte1 + payload_len) buf cs of
                     (Pending, buf, cs) \<Rightarrow> (Pending, rh\<lparr>rh_buffer := buf\<rparr>, cs)
                   | (Ready (Inl e), buf, cs) \<Rightarrow> (Ready (Inl e), rh\<lparr>rh_buffer := buf\<rparr>, cs)
                   | (Ready (Inr _), buf, cs) \<Rightarrow>
                     let buf = drop (header_size byte1) buf
                     in (Ready (Inr (Frame_new fin opcode key (take payload_len buf))),
                         rh\<lparr>rh_buffer := drop payload_len buf\<rparr>, cs))"

definition try_parse_frame_buffered :: "ReadHalf \<Rightarrow> (WebSocketError + Frame) option \<times> ReadHalf" where
  "try_parse_frame_buffered rh =
     (let buf = rh_buffer rh in
      if length buf < 2 then (None, rh)
      else
        let byte0 = buf ! 0;
            byte1 = buf ! 1;
            fin = (byte0 AND 0x80 \<noteq> 0);
            rsv1 = (byte0 AND 0x40 \<noteq> 0);
            rsv2 = (byte0 AND 0x20 \<noteq> 0);
            rsv3 = (byte0 AND 0x10 \<noteq> 0)
        in if rsv1 \<or> rsv2 \<or> rsv3 then (Some (Inl ReservedBitsNotZero), rh)
        else case OpCode_try_from (byte0 AND 0x0F) of
          Inl e \<Rightarrow> (Some (Inl e), rh)
        | Inr opcode \<Rightarrow>
          if rh_role rh = Server \<and> \<not> is_masked byte1 then (Some (Inl UnmaskedClientFrame), rh)
          else if length buf < header_size byte1 then (None, rh)
          else
            let payload_len = peek_payload_len buf;
                key = peek_mask buf
            in if is_control opcode \<and> \<not> fin then (Some (Inl ControlFrameFragmented), rh)
               else if is_control opcode \<and> payload_len > 125 then (Some (Inl ControlFrameTooLarge), rh)
               else if payload_len > rh_max_message_size rh then (Some (Inl FrameTooLarge), rh)
               else if length buf < header_size byte1 + payload_len then (None, rh)
               else
                 let buf = drop (header_size byte1) buf
                 in (Some (Inr (Frame_new fin opcode key (take payload_len buf))),
                     rh\<lparr>rh_buffer := drop payload_len buf\<rparr>))"

section \<open>Frames and control frames\<close>

text \<open>\<^verbatim>\<open>read_frame_inner\<close>: the result and the frame that has to be sent in return.\<close>

definition read_frame_inner ::
  "cpu \<Rightarrow> ReadHalf \<Rightarrow> chunks \<Rightarrow>
   ((WebSocketError + Frame option) \<times> Frame option) poll \<times> ReadHalf \<times> chunks" where
  "read_frame_inner cpu rh cs =
     (case parse_frame_header rh cs of
        (Pending, rh', cs') \<Rightarrow> (Pending, rh', cs')
      | (Ready (Inl e), rh', cs') \<Rightarrow> (Ready (Inl e, None), rh', cs')
      | (Ready (Inr frame), rh', cs') \<Rightarrow>
          let frame = (if rh_role rh' = Server \<and> rh_auto_apply_mask rh' then Frame_unmask cpu frame else frame);
              payload = fr_payload frame;
              result =
                (if fr_opcode frame = OpClose \<and> rh_auto_close rh' then
                   (if length payload = 0 then (Inr (Some frame), Some (Frame_close_raw payload))
                    else if length payload = 1 then (Inl InvalidCloseFrame, None)
                    else
                      let code = CloseCode_from_u16 (u16_from_be_bytes (take 2 payload))
                      in if \<not> utf8_valid (drop 2 payload) then (Inl InvalidUTF8, None)
                         else if \<not> CloseCode_is_allowed code
                         then (Inl InvalidCloseCode, Some (Frame_close 1002 (drop 2 payload)))
                         else (Inr (Some frame), Some (Frame_close_raw payload)))
                 else if fr_opcode frame = OpPing \<and> rh_auto_pong rh' then
                   (Inr None, Some (Frame_pong payload))
                 else if fr_opcode frame = OpText then
                   (if fr_fin frame \<and> \<not> is_utf8 frame then (Inl InvalidUTF8, None)
                    else (Inr (Some frame), None))
                 else (Inr (Some frame), None))
          in (Ready result, rh', cs'))"

datatype WispFrameResult = Wisp (wf_packet_type: u8) (wf_stream_id: u32) (wf_payload: bytes) | Control Frame

text \<open>The part that \<^verbatim>\<open>read_wisp_frame\<close> and \<^verbatim>\<open>try_read_wisp_frame\<close> have in common.\<close>

definition wisp_of_frame :: "Frame \<Rightarrow> WispFrameResult" where
  "wisp_of_frame frame =
     (if fr_opcode frame = OpBinary then
        (let payload = fr_payload frame in
         if length payload \<ge> 5
         then Wisp (payload ! 0) (u32_from_le_bytes [payload ! 1, payload ! 2, payload ! 3, payload ! 4])
                (drop 5 payload)
         else Wisp 0 0 payload)
      else Control frame)"

text \<open>
  \<^verbatim>\<open>read_wisp_frame\<close> loops only over frames that \<open>read_frame_inner\<close> swallows, and such a frame always comes with
  a frame to send, which is returned at once; the loop body therefore runs once.
\<close>

definition read_wisp_frame ::
  "cpu \<Rightarrow> ReadHalf \<Rightarrow> chunks \<Rightarrow> (WebSocketError + WispFrameResult) poll \<times> ReadHalf \<times> chunks" where
  "read_wisp_frame cpu rh cs =
     (case read_frame_inner cpu rh cs of
        (Pending, rh', cs') \<Rightarrow> (Pending, rh', cs')
      | (Ready (res, Some send_frame), rh', cs') \<Rightarrow> (Ready (Inr (Control send_frame)), rh', cs')
      | (Ready (Inl e, None), rh', cs') \<Rightarrow> (Ready (Inl e), rh', cs')
      | (Ready (Inr (Some frame), None), rh', cs') \<Rightarrow> (Ready (Inr (wisp_of_frame frame)), rh', cs')
      | (Ready (Inr None, None), rh', cs') \<Rightarrow> (Pending, rh', cs'))"

definition try_read_wisp_frame ::
  "cpu \<Rightarrow> ReadHalf \<Rightarrow> (WebSocketError + WispFrameResult) option \<times> ReadHalf" where
  "try_read_wisp_frame cpu rh =
     (let should_unmask = (rh_role rh = Server \<and> rh_auto_apply_mask rh) in
      case try_parse_frame_buffered rh of
        (Some (Inr frame), rh') \<Rightarrow>
          (Some (Inr (wisp_of_frame (if should_unmask then Frame_unmask cpu frame else frame))), rh')
      | (Some (Inl e), rh') \<Rightarrow> (Some (Inl e), rh')
      | (None, rh') \<Rightarrow> (None, rh'))"

section \<open>Independence of the chunks\<close>

text \<open>A stream that delivers bytes: no error and no end of stream among the chunks.\<close>

definition live :: "chunks \<Rightarrow> bool" where
  "live cs \<longleftrightarrow> (\<forall>c \<in> set cs. \<exists>bs. c = Inr bs \<and> bs \<noteq> [])"

definition delivered :: "chunks \<Rightarrow> bytes" where
  "delivered cs = concat (map (\<lambda>c. case c of Inr bs \<Rightarrow> bs | Inl _ \<Rightarrow> []) cs)"

lemma live_simps [simp]: "live []" "live (c # cs) \<longleftrightarrow> (\<exists>bs. c = Inr bs \<and> bs \<noteq> []) \<and> live cs"
  by (auto simp: live_def)

lemma delivered_simps [simp]: "delivered [] = []" "delivered (Inr bs # cs) = bs @ delivered cs"
  by (simp_all add: delivered_def)

lemma read_until_live:
  assumes "live cs"
  shows "(if length (buf @ delivered cs) < n
     then read_until n buf cs = (Pending, buf @ delivered cs, [])
     else \<exists>buf' cs'. read_until n buf cs = (Ready (Inr ()), buf', cs') \<and> n \<le> length buf' \<and>
       live cs' \<and> buf' @ delivered cs' = buf @ delivered cs)"
  using assms
proof (induction n buf cs rule: read_until.induct)
  case (2 n buf c cs)
  then obtain bs where "c = Inr bs" "bs \<noteq> []" "live cs"
    by auto
  with 2 show ?case
    by (cases "length buf < n") auto
qed auto

lemma read_until_pending:
  "live cs \<Longrightarrow> length (buf @ delivered cs) < n \<Longrightarrow> read_until n buf cs = (Pending, buf @ delivered cs, [])"
  using read_until_live [of cs buf n] by simp

lemma read_until_ready:
  assumes "live cs" "n \<le> length (buf @ delivered cs)"
  obtains buf' cs' where "read_until n buf cs = (Ready (Inr ()), buf', cs')" "n \<le> length buf'" "live cs'"
    "buf' @ delivered cs' = buf @ delivered cs"
  using read_until_live [of cs buf n] assms by (auto simp: not_less split: if_splits)

text \<open>The header peeks depend on the header bytes only.\<close>

lemma header_size_ge: "2 \<le> header_size byte1"
  by (simp add: header_size_def)

lemma peek_append:
  assumes "header_size (buf ! 1) \<le> length buf"
  shows "peek_payload_len (buf @ more_bytes) = peek_payload_len buf" "peek_mask (buf @ more_bytes) = peek_mask buf"
proof -
  have nth: "i < header_size (buf ! 1) \<Longrightarrow> (buf @ more_bytes) ! i = buf ! i" for i
    using assms by (simp add: nth_append)
  have one: "(buf @ more_bytes) ! 1 = buf ! 1" "(buf @ more_bytes) ! Suc 0 = buf ! Suc 0"
    using nth [of 1] header_size_ge [of "buf ! 1"] by simp_all
  show "peek_payload_len (buf @ more_bytes) = peek_payload_len buf"
    using nth unfolding peek_payload_len_def one by (auto simp: header_size_def Let_def extra_size_def)
  show "peek_mask (buf @ more_bytes) = peek_mask buf"
    using nth unfolding peek_mask_def one by (auto simp: header_size_def Let_def)
qed

text \<open>The checks on the first two bytes and on the full header, each as one step.\<close>

definition check_start :: "Role \<Rightarrow> u8 \<Rightarrow> u8 \<Rightarrow> WebSocketError + OpCode" where
  "check_start role byte0 byte1 =
     (if byte0 AND 0x40 \<noteq> 0 \<or> byte0 AND 0x20 \<noteq> 0 \<or> byte0 AND 0x10 \<noteq> 0 then Inl ReservedBitsNotZero
      else case OpCode_try_from (byte0 AND 0x0F) of
             Inl e \<Rightarrow> Inl e
           | Inr opcode \<Rightarrow> if role = Server \<and> \<not> is_masked byte1 then Inl UnmaskedClientFrame else Inr opcode)"

definition check_length :: "usize \<Rightarrow> u8 \<Rightarrow> OpCode \<Rightarrow> usize \<Rightarrow> WebSocketError option" where
  "check_length max_size byte0 opcode payload_len =
     (if is_control opcode \<and> byte0 AND 0x80 = 0 then Some ControlFrameFragmented
      else if is_control opcode \<and> payload_len > 125 then Some ControlFrameTooLarge
      else if payload_len > max_size then Some FrameTooLarge else None)"

lemma try_parse_steps:
  "try_parse_frame_buffered rh =
     (let W = rh_buffer rh; H = header_size (W ! 1); P = peek_payload_len W in
      if length W < 2 then (None, rh)
      else case check_start (rh_role rh) (W ! 0) (W ! 1) of
        Inl e \<Rightarrow> (Some (Inl e), rh)
      | Inr opcode \<Rightarrow>
          if length W < H then (None, rh)
          else case check_length (rh_max_message_size rh) (W ! 0) opcode P of
            Some e \<Rightarrow> (Some (Inl e), rh)
          | None \<Rightarrow>
              if length W < H + P then (None, rh)
              else (Some (Inr (Frame_new (W ! 0 AND 0x80 \<noteq> 0) opcode (peek_mask W) (take P (drop H W)))),
                    rh\<lparr>rh_buffer := drop P (drop H W)\<rparr>))"
  unfolding try_parse_frame_buffered_def check_start_def Let_def
  by (cases "OpCode_try_from (rh_buffer rh ! 0 AND 0x0F)") (simp_all add: check_length_def)

lemma try_parse_steps_at:
  "try_parse_frame_buffered (rh\<lparr>rh_buffer := W\<rparr>) =
     (if length W < 2 then (None, rh\<lparr>rh_buffer := W\<rparr>)
      else case check_start (rh_role rh) (W ! 0) (W ! 1) of
        Inl e \<Rightarrow> (Some (Inl e), rh\<lparr>rh_buffer := W\<rparr>)
      | Inr opcode \<Rightarrow>
          if length W < header_size (W ! 1) then (None, rh\<lparr>rh_buffer := W\<rparr>)
          else case check_length (rh_max_message_size rh) (W ! 0) opcode (peek_payload_len W) of
            Some e \<Rightarrow> (Some (Inl e), rh\<lparr>rh_buffer := W\<rparr>)
          | None \<Rightarrow>
              if length W < header_size (W ! 1) + peek_payload_len W then (None, rh\<lparr>rh_buffer := W\<rparr>)
              else (Some (Inr (Frame_new (W ! 0 AND 0x80 \<noteq> 0) opcode (peek_mask W)
                      (take (peek_payload_len W) (drop (header_size (W ! 1)) W)))),
                    rh\<lparr>rh_buffer := drop (peek_payload_len W) (drop (header_size (W ! 1)) W)\<rparr>))"
  by (simp add: try_parse_steps Let_def cong: if_cong sum.case_cong option.case_cong)

lemma parse_steps:
  "parse_frame_header rh cs =
     (case read_until 2 (rh_buffer rh) cs of
        (Pending, b1, c1) \<Rightarrow> (Pending, rh\<lparr>rh_buffer := b1\<rparr>, c1)
      | (Ready (Inl e), b1, c1) \<Rightarrow> (Ready (Inl e), rh\<lparr>rh_buffer := b1\<rparr>, c1)
      | (Ready (Inr _), b1, c1) \<Rightarrow>
     case check_start (rh_role rh) (b1 ! 0) (b1 ! 1) of
        Inl e \<Rightarrow> (Ready (Inl e), rh\<lparr>rh_buffer := b1\<rparr>, c1)
      | Inr opcode \<Rightarrow>
          case read_until (header_size (b1 ! 1)) b1 c1 of
            (Pending, b2, c2) \<Rightarrow> (Pending, rh\<lparr>rh_buffer := b2\<rparr>, c2)
          | (Ready (Inl e), b2, c2) \<Rightarrow> (Ready (Inl e), rh\<lparr>rh_buffer := b2\<rparr>, c2)
          | (Ready (Inr _), b2, c2) \<Rightarrow>
              case check_length (rh_max_message_size rh) (b1 ! 0) opcode (peek_payload_len b2) of
                Some e \<Rightarrow> (Ready (Inl e), rh\<lparr>rh_buffer := b2\<rparr>, c2)
              | None \<Rightarrow>
                  case read_until (header_size (b1 ! 1) + peek_payload_len b2) b2 c2 of
                    (Pending, b3, c3) \<Rightarrow> (Pending, rh\<lparr>rh_buffer := b3\<rparr>, c3)
                  | (Ready (Inl e), b3, c3) \<Rightarrow> (Ready (Inl e), rh\<lparr>rh_buffer := b3\<rparr>, c3)
                  | (Ready (Inr _), b3, c3) \<Rightarrow>
                      (Ready (Inr (Frame_new (b1 ! 0 AND 0x80 \<noteq> 0) opcode (peek_mask b2)
                          (take (peek_payload_len b2) (drop (header_size (b1 ! 1)) b3)))),
                       rh\<lparr>rh_buffer := drop (peek_payload_len b2) (drop (header_size (b1 ! 1)) b3)\<rparr>, c3))"
proof -
  obtain p1 b1 c1 where r1: "read_until 2 (rh_buffer rh) cs = (p1, b1, c1)"
    using prod_cases3 by blast
  obtain p2 b2 c2 where r2: "read_until (header_size (b1 ! 1)) b1 c1 = (p2, b2, c2)"
    using prod_cases3 by blast
  obtain p3 b3 c3 where r3: "read_until (header_size (b1 ! 1) + peek_payload_len b2) b2 c2 = (p3, b3, c3)"
    using prod_cases3 by blast
  show ?thesis
  proof (cases "p1 = Ready (Inr ())")
    case True
    show ?thesis
      unfolding parse_frame_header_def r1 True check_start_def Let_def prod.case poll.case sum.case r2
      by (cases "OpCode_try_from (b1 ! 0 AND 0x0F)"; cases p2; cases p3)
        (simp_all add: r3 [simplified] check_length_def split: sum.split)
  next
    case False
    then show ?thesis
      unfolding parse_frame_header_def r1 by (auto split: poll.splits sum.splits)
  qed
qed

text \<open>
  The awaiting parser and the parser of a full buffer agree: where the latter lacks bytes the former waits with
  everything in its buffer, and where the latter answers the former gives the same answer, the rest of the input
  being split between its buffer and the chunks to come.
\<close>

definition agrees ::
  "ReadHalf \<Rightarrow> (WebSocketError + Frame) poll \<times> ReadHalf \<times> chunks \<Rightarrow> (WebSocketError + Frame) option \<times> ReadHalf \<Rightarrow> bool" where
  "agrees rh x y \<longleftrightarrow>
     (case y of
        (None, rh') \<Rightarrow> x = (Pending, rh', [])
      | (Some r, rh') \<Rightarrow> \<exists>buf' cs'. x = (Ready r, rh\<lparr>rh_buffer := buf'\<rparr>, cs') \<and> live cs' \<and>
          rh' = rh\<lparr>rh_buffer := buf' @ delivered cs'\<rparr>)"

lemma agrees_ready:
  "live c \<Longrightarrow> b @ delivered c = W \<Longrightarrow> agrees rh (Ready r, rh\<lparr>rh_buffer := b\<rparr>, c) (Some r, rh\<lparr>rh_buffer := W\<rparr>)"
  by (auto simp: agrees_def)

lemma agrees_await:
  assumes "live cs" "buf @ delivered cs = W"
    and "\<And>b c. n \<le> length b \<Longrightarrow> live c \<Longrightarrow> b @ delivered c = W \<Longrightarrow> agrees rh (k b c) y"
  shows "agrees rh
     (case read_until n buf cs of
        (Pending, b, c) \<Rightarrow> (Pending, rh\<lparr>rh_buffer := b\<rparr>, c)
      | (Ready (Inl e), b, c) \<Rightarrow> (Ready (Inl e), rh\<lparr>rh_buffer := b\<rparr>, c)
      | (Ready (Inr _), b, c) \<Rightarrow> k b c)
     (if length W < n then (None, rh\<lparr>rh_buffer := W\<rparr>) else y)"
proof (cases "length W < n")
  case True
  with read_until_pending [OF assms(1), of buf n] assms(2) show ?thesis
    by (simp add: agrees_def)
next
  case False
  then obtain b c where "read_until n buf cs = (Ready (Inr ()), b, c)" "n \<le> length b" "live c" "b @ delivered c = W"
    using read_until_ready [OF assms(1), of n buf] assms(2) by (metis not_less)
  with False assms(3) show ?thesis
    by simp
qed

lemma agrees_check:
  assumes "live c" "b @ delivered c = W" "\<And>v. chk = Inr v \<Longrightarrow> agrees rh (f v) (g v)"
  shows "agrees rh (case chk of Inl e \<Rightarrow> (Ready (Inl e), rh\<lparr>rh_buffer := b\<rparr>, c) | Inr v \<Rightarrow> f v)
     (case chk of Inl e \<Rightarrow> (Some (Inl e), rh\<lparr>rh_buffer := W\<rparr>) | Inr v \<Rightarrow> g v)"
  using assms by (cases chk) (simp_all add: agrees_ready)

lemma agrees_refuse:
  assumes "live c" "b @ delivered c = W" "agrees rh x y"
  shows "agrees rh (case chk of Some e \<Rightarrow> (Ready (Inl e), rh\<lparr>rh_buffer := b\<rparr>, c) | None \<Rightarrow> x)
     (case chk of Some e \<Rightarrow> (Some (Inl e), rh\<lparr>rh_buffer := W\<rparr>) | None \<Rightarrow> y)"
  using assms by (cases chk) (simp_all add: agrees_ready)

lemma agrees_body:
  assumes "H + P \<le> length b" "live c" "b @ delivered c = W"
  shows "agrees rh (Ready (Inr (F (take P (drop H b)))), rh\<lparr>rh_buffer := drop P (drop H b)\<rparr>, c)
     (Some (Inr (F (take P (drop H W)))), rh\<lparr>rh_buffer := drop P (drop H W)\<rparr>)"
proof -
  have "take P (drop H W) = take P (drop H b)" "drop P (drop H W) = drop P (drop H b) @ delivered c"
    using assms(1) by (simp_all flip: assms(3))
  with assms(2) show ?thesis
    by (auto simp: agrees_def simp del: drop_drop)
qed

lemma parse_frame_header_agrees:
  assumes "live cs" "rh_buffer rh @ delivered cs = W"
  shows "agrees rh (parse_frame_header rh cs) (try_parse_frame_buffered (rh\<lparr>rh_buffer := W\<rparr>))"
  unfolding parse_steps try_parse_steps_at
proof (rule agrees_await [OF assms], goal_cases)
  case (1 b1 c1)
  then have nth: "b1 ! 0 = W ! 0" "b1 ! 1 = W ! 1"
    by (auto simp: nth_append simp flip: 1(3))
  show ?case
    unfolding nth
  proof (rule agrees_check [OF 1(2,3)], rule agrees_await [OF 1(2,3)], goal_cases)
    case (1 opcode b2 c2)
    have "b2 ! 1 = W ! 1"
      using 1(2) header_size_ge [of "W ! 1"] by (simp add: nth_append flip: 1(4))
    then have peek: "peek_payload_len b2 = peek_payload_len W" "peek_mask b2 = peek_mask W"
      using peek_append [of b2 "delivered c2"] 1(2) unfolding 1(4) by simp_all
    show ?case
      unfolding peek
      by (rule agrees_refuse [OF 1(3,4)], rule agrees_await [OF 1(3,4)], rule agrees_body)
  qed
qed

lemma parse_frame_header_eq:
  assumes "live cs"
  shows "case try_parse_frame_buffered (rh\<lparr>rh_buffer := rh_buffer rh @ delivered cs\<rparr>) of
     (None, rh') \<Rightarrow> parse_frame_header rh cs = (Pending, rh', [])
   | (Some r, rh') \<Rightarrow> \<exists>buf' cs'. parse_frame_header rh cs = (Ready r, rh\<lparr>rh_buffer := buf'\<rparr>, cs') \<and> live cs' \<and>
       rh' = rh\<lparr>rh_buffer := buf' @ delivered cs'\<rparr>"
  using parse_frame_header_agrees [OF assms refl] unfolding agrees_def .

section \<open>Round trip\<close>

lemma byte_low7:
  assumes "(c :: u8) < 128"
  shows "c AND 0x80 = 0" "c AND 0x7F = c" "(c OR 0x80) AND 0x80 \<noteq> 0" "(c OR 0x80) AND 0x7F = c"
proof -
  have c: "take_bit 7 c = c"
    using assms by (simp add: word_unat_eq_iff unsigned_take_bit_eq take_bit_nat_eq_self word_less_nat_alt)
  have "c AND mask 7 = c"
    using c by (simp add: take_bit_eq_mask)
  then show low: "c AND 0x7F = c"
    by (simp add: mask_eq_exp_minus_1)
  have "\<not> bit c 7"
    using c by (metis bit_take_bit_iff less_irrefl)
  then show "c AND 0x80 = 0"
    using and_exp_eq_0_iff_not_bit [of c 7] by simp
  have "bit (c OR 2 ^ 7) 7"
    by (simp add: bit_or_iff bit_exp_iff)
  then show "(c OR 0x80) AND 0x80 \<noteq> 0"
    using and_exp_eq_0_iff_not_bit [of "c OR 2 ^ 7" 7] by simp
  have "(c OR 0x80) AND 0x7F = c AND (0x7F :: u8)"
    by (simp add: bit.conj_disj_distrib2)
  with low show "(c OR 0x80) AND 0x7F = c"
    by simp
qed

lemma byte0_fields:
  fixes fin opcode
  defines "b \<equiv> push_bit 7 (of_bool fin) OR OpCode_as_byte opcode"
  shows "b AND 0x40 = 0" "b AND 0x20 = 0" "b AND 0x10 = 0" "b AND 0x0F = OpCode_as_byte opcode"
    "b AND 0x80 \<noteq> 0 \<longleftrightarrow> fin"
  unfolding b_def by (cases fin; cases opcode; simp)+

lemma ws_len_code_less: "ws_len_code len < 128"
  by (simp add: ws_len_code_def word_less_nat_alt unat_of_nat)

lemma ws_head_layout:
  assumes "buf = ws_head fin opcode key len @ rest"
  shows "buf ! 1 AND 0x7F = ws_len_code len" "is_masked (buf ! 1) \<longleftrightarrow> key \<noteq> None"
    "drop 2 buf = ws_len_ext len @ (case key of None \<Rightarrow> [] | Some k \<Rightarrow> k) @ rest" "buf ! (2 + i) = drop 2 buf ! i"
proof -
  have b1: "buf ! 1 = ws_len_code len OR (if key = None then 0 else 0x80)"
    using assms by (simp add: ws_head_def)
  show "buf ! 1 AND 0x7F = ws_len_code len" "is_masked (buf ! 1) \<longleftrightarrow> key \<noteq> None"
    unfolding b1 is_masked_def using byte_low7 [OF ws_len_code_less [of len]] by simp_all
qed (simp_all add: assms ws_head_def)

lemma ws_head_extra:
  assumes "buf = ws_head fin opcode key len @ rest"
  shows "extra_size (buf ! 1) = length (ws_len_ext len)"
proof -
  have "len < 126 \<Longrightarrow> (of_nat len :: u8) \<noteq> 126 \<and> (of_nat len :: u8) \<noteq> 127"
    by (auto simp: word_unat_eq_iff unat_of_nat)
  then show ?thesis
    unfolding extra_size_def Let_def ws_head_layout(1) [OF assms] by (simp add: ws_len_code_def ws_len_ext_def)
qed

lemma ws_head_peek_len:
  assumes "len < 2 ^ 64" "buf = ws_head fin opcode key len @ rest"
  shows "peek_payload_len buf = len"
proof -
  note tail = ws_head_layout(3) [OF assms(2)] and nth = ws_head_layout(4) [OF assms(2)] and ex = ws_head_extra [OF assms(2)]
  consider "len < 126" | "126 \<le> len" "len < 65536" | "65536 \<le> len"
    by linarith
  then show ?thesis
  proof cases
    case 1
    then show ?thesis
      using ex ws_head_layout(1) [OF assms(2)]
      by (simp add: peek_payload_len_def ws_len_ext_def ws_len_code_def unat_of_nat)
  next
    case 2
    then have "ws_len_ext len = u16_to_be_bytes (of_nat len)"
      by (simp add: ws_len_ext_def)
    moreover have "[buf ! 2, buf ! 3] = take 2 (drop 2 buf)"
      using nth [of 0] nth [of 1] list2_nth [of "take 2 (drop 2 buf)"] tail calculation by (simp add: nth_append)
    ultimately show ?thesis
      using ex tail 2 by (simp add: peek_payload_len_def u16_be_roundtrip unat_of_nat)
  next
    case 3
    then have "ws_len_ext len = u64_to_be_bytes (of_nat len)"
      by (simp add: ws_len_ext_def)
    moreover have "[buf ! 2, buf ! 3, buf ! 4, buf ! 5, buf ! 6, buf ! 7, buf ! 8, buf ! 9] = take 8 (drop 2 buf)"
      using nth [of 0] nth [of 1] nth [of 2] nth [of 3] nth [of 4] nth [of 5] nth [of 6] nth [of 7]
        list8_nth [of "take 8 (drop 2 buf)"] tail calculation by (simp add: nth_append)
    ultimately show ?thesis
      using ex tail assms(1) 3 by (simp add: peek_payload_len_def u64_be_roundtrip unat_of_nat)
  qed
qed

lemma ws_head_peek_mask:
  assumes "\<forall>k. key = Some k \<longrightarrow> length k = 4" "buf = ws_head fin opcode key len @ rest"
  shows "peek_mask buf = key"
proof (cases key)
  case None
  with ws_head_layout(2) [OF assms(2)] show ?thesis
    by (simp add: peek_mask_def)
next
  case (Some k)
  let ?e = "length (ws_len_ext len)"
  have "buf ! (2 + ?e + i) = k ! i" if "i < 4" for i
    using ws_head_layout(4) [OF assms(2), of "?e + i"] that Some assms(1) unfolding ws_head_layout(3) [OF assms(2)]
    by (simp add: nth_append add.assoc)
  from this [of 0] this [of 1] this [of 2] this [of 3] show ?thesis
    using Some ws_head_layout(2) [OF assms(2)] ws_head_extra [OF assms(2)] list4_nth [of k] assms(1)
    by (simp add: peek_mask_def Let_def numeral_eq_Suc)
qed

lemma ws_head_peek:
  assumes "len < 2 ^ 64" "\<forall>k. key = Some k \<longrightarrow> length k = 4"
    and "buf = ws_head fin opcode key len @ rest"
  shows "is_masked (buf ! 1) \<longleftrightarrow> key \<noteq> None" "header_size (buf ! 1) = length (ws_head fin opcode key len)"
    "peek_payload_len buf = len" "peek_mask buf = key"
proof -
  show m: "is_masked (buf ! 1) \<longleftrightarrow> key \<noteq> None"
    by (rule ws_head_layout(2) [OF assms(3)])
  show "header_size (buf ! 1) = length (ws_head fin opcode key len)"
    using m ws_head_extra [OF assms(3)] assms(2) unfolding header_size_def by (auto simp: ws_head_def split: option.split)
qed (rule ws_head_peek_len [OF assms(1,3)], rule ws_head_peek_mask [OF assms(2,3)])

lemma try_parse_wire:
  assumes "rh_buffer rh = ws_head fin opcode key (length payload) @ payload @ rest"
    and "rh_role rh = Server \<Longrightarrow> key \<noteq> None" "\<forall>k. key = Some k \<longrightarrow> length k = 4"
    and "is_control opcode \<Longrightarrow> fin \<and> length payload \<le> 125"
    and "length payload \<le> rh_max_message_size rh" "length payload < 2 ^ 64"
  shows "try_parse_frame_buffered rh =
    (Some (Inr (Frame_new fin opcode key payload)), rh\<lparr>rh_buffer := rest\<rparr>)"
proof -
  note peek = ws_head_peek [OF assms(6,3,1)]
  let ?h = "ws_head fin opcode key (length payload)"
  have b0: "rh_buffer rh ! 0 = push_bit 7 (of_bool fin) OR OpCode_as_byte opcode"
    unfolding assms(1) ws_head_def by simp
  have start: "check_start (rh_role rh) (rh_buffer rh ! 0) (rh_buffer rh ! 1) = Inr opcode"
    using assms(2) peek(1) unfolding b0 check_start_def by (simp add: byte0_fields)
  have len: "check_length (rh_max_message_size rh) (rh_buffer rh ! 0) opcode (length payload) = None"
    using assms(4,5) byte0_fields(5) [of fin opcode] unfolding b0 check_length_def by auto
  have fin: "(rh_buffer rh ! 0 AND 0x80 \<noteq> 0) = fin"
    unfolding b0 by (rule byte0_fields(5))
  have "2 \<le> length ?h"
    by (simp add: ws_head_def)
  then show ?thesis
    unfolding try_parse_steps Let_def peek start sum.case len option.case fin
    by (simp add: assms(1))
qed

text \<open>An incomplete or refused frame leaves the buffer alone.\<close>

lemma try_parse_keeps:
  "try_parse_frame_buffered rh = (r, rh') \<Longrightarrow> (\<And>f. r \<noteq> Some (Inr f)) \<Longrightarrow> rh' = rh"
  unfolding try_parse_steps Let_def by (auto split: if_splits sum.splits option.splits)

lemma read_frame_inner_swallows: "fst (read_frame_inner cpu rh cs) \<noteq> Ready (Inr None, None)"
  by (auto simp: read_frame_inner_def Let_def split: prod.split poll.split sum.split)

section \<open>Properties\<close>

text \<open>C26. The asynchronous frame parser does not depend on how the peer's bytes arrive: for every way of splitting
  them into reads it returns what the synchronous parser returns on all bytes at once and leaves the same bytes
  unread; while it waits it has consumed nothing, so that it may be dropped and called again later with the same
  outcome.\<close>

theorem frame_parser_chunk_independent:
  assumes "live (cs1 @ cs2)"
  shows "(case try_parse_frame_buffered (rh\<lparr>rh_buffer := rh_buffer rh @ delivered cs1\<rparr>) of
       (None, _) \<Rightarrow> parse_frame_header rh cs1 = (Pending, rh\<lparr>rh_buffer := rh_buffer rh @ delivered cs1\<rparr>, [])
     | (Some r, rh') \<Rightarrow> \<exists>buf' cs'. parse_frame_header rh cs1 = (Ready r, rh\<lparr>rh_buffer := buf'\<rparr>, cs') \<and>
         rh' = rh\<lparr>rh_buffer := buf' @ delivered cs'\<rparr>) \<and>
    (case parse_frame_header rh cs1 of
       (Pending, rh1, rest) \<Rightarrow> rest = [] \<and>
         fst (parse_frame_header rh1 cs2) = fst (parse_frame_header rh (cs1 @ cs2)) \<and>
         (case (parse_frame_header rh1 cs2, parse_frame_header rh (cs1 @ cs2)) of
            ((_, rha, csa), (_, rhb, csb)) \<Rightarrow>
              rh_buffer rha @ delivered csa = rh_buffer rhb @ delivered csb)
     | (Ready _, _, _) \<Rightarrow> True)"
proof -
  let ?W = "rh\<lparr>rh_buffer := rh_buffer rh @ delivered cs1\<rparr>"
  have live: "live cs1" "live cs2"
    using assms by (auto simp: live_def)
  have del: "delivered (cs1 @ cs2) = delivered cs1 @ delivered cs2"
    by (simp add: delivered_def)
  obtain r rh' where tp: "try_parse_frame_buffered ?W = (r, rh')"
    by fastforce
  note eq = parse_frame_header_eq [OF live(1), of rh, unfolded tp]
  show ?thesis
  proof (cases r)
    case None
    then have rh': "rh' = ?W"
      using try_parse_keeps [OF tp] by simp
    with eq None have pending: "parse_frame_header rh cs1 = (Pending, ?W, [])"
      by simp
    obtain r2 rh2 where tp2:
      "try_parse_frame_buffered (rh\<lparr>rh_buffer := (rh_buffer rh @ delivered cs1) @ delivered cs2\<rparr>) = (r2, rh2)"
      by fastforce
    have a: "case (r2, rh2) of (None, rh') \<Rightarrow> parse_frame_header ?W cs2 = (Pending, rh', [])
      | (Some r, rh') \<Rightarrow> \<exists>buf' cs'. parse_frame_header ?W cs2 = (Ready r, rh\<lparr>rh_buffer := buf'\<rparr>, cs') \<and> live cs' \<and>
         rh' = rh\<lparr>rh_buffer := buf' @ delivered cs'\<rparr>"
      using parse_frame_header_eq [OF live(2), of ?W] tp2 by (cases r2) simp_all
    have b: "case (r2, rh2) of (None, rh') \<Rightarrow> parse_frame_header rh (cs1 @ cs2) = (Pending, rh', [])
      | (Some r, rh') \<Rightarrow> \<exists>buf' cs'. parse_frame_header rh (cs1 @ cs2) = (Ready r, rh\<lparr>rh_buffer := buf'\<rparr>, cs') \<and> live cs' \<and>
         rh' = rh\<lparr>rh_buffer := buf' @ delivered cs'\<rparr>"
      using parse_frame_header_eq [OF assms, of rh] tp2 by (simp add: del)
    have inj: "rh\<lparr>rh_buffer := x\<rparr> = rh\<lparr>rh_buffer := y\<rparr> \<Longrightarrow> x = y" for x y
      by (metis ReadHalf.select_convs(7) ReadHalf.surjective ReadHalf.update_convs(7))
    show ?thesis
      unfolding tp None prod.case option.case pending poll.case
      by (cases r2) (use a b inj in \<open>auto split: prod.splits\<close>)
  next
    case (Some x)
    with eq tp show ?thesis
      by auto
  qed
qed

theorem frame_parser_chunk_independent_witness:
  "let rh = ReadHalf_after_handshake Server; cs1 = [Inr [0x82, 0x82], Inr [1, 2, 3]]; cs2 = [Inr [4, 8], Inr [11, 0x88]]
   in fst (parse_frame_header rh cs1) = Pending \<and>
      parse_frame_header rh (cs1 @ cs2) =
        (Ready (Inr (Frame_new True OpBinary (Some [1, 2, 3, 4]) [8, 11])), rh\<lparr>rh_buffer := [0x88]\<rparr>, []) \<and>
      fst (parse_frame_header (fst (snd (parse_frame_header rh cs1))) cs2) =
        Ready (Inr (Frame_new True OpBinary (Some [1, 2, 3, 4]) [8, 11]))"
proof -
  let ?rh = "ReadHalf_after_handshake Server"
  let ?cs1 = "[Inr [0x82, 0x82], Inr [1, 2, 3]] :: chunks" and ?cs2 = "[Inr [4, 8], Inr [11, 0x88]] :: chunks"
  have live: "live (?cs1 @ ?cs2)"
    by simp
  have pending: "parse_frame_header ?rh ?cs1 = (Pending, ?rh\<lparr>rh_buffer := [0x82, 0x82, 1, 2, 3]\<rparr>, [])"
    by (simp add: parse_frame_header_def ReadHalf_after_handshake_def OpCode_try_from_def is_masked_def
        header_size_def extra_size_def Let_def)
  have whole: "parse_frame_header ?rh (?cs1 @ ?cs2) =
      (Ready (Inr (Frame_new True OpBinary (Some [1, 2, 3, 4]) [8, 11])), ?rh\<lparr>rh_buffer := [0x88]\<rparr>, [])"
    by (simp add: parse_frame_header_def ReadHalf_after_handshake_def OpCode_try_from_def is_masked_def
        header_size_def extra_size_def peek_payload_len_def peek_mask_def is_control_def Frame_new_def Let_def)
  from frame_parser_chunk_independent [OF live, of ?rh, unfolded pending whole prod.case poll.case]
  show ?thesis
    unfolding Let_def pending whole by simp
qed

text \<open>C16. A frame that a client masks and writes is read back by the server as it was: for every op-code, every mask
  and every payload within the message limit (control frames whole and of at most 125 bytes), in whatever chunks
  the bytes arrive and whatever follows them, the parser returns the frame, unmasking gives the payload, and
  exactly the bytes of the frame are consumed.\<close>

theorem client_frame_roundtrip:
  assumes "cpu_ok cpu" "cpu_ok cpu'" "length rnd = 4" "live cs"
    and "rh_buffer rh @ delivered cs =
      fst (Frame_write (Frame_mask cpu rnd (Frame_new fin opcode None payload)) buf) @ rest"
    and "is_control opcode \<Longrightarrow> fin \<and> length payload \<le> 125"
    and "length payload \<le> rh_max_message_size rh" "length payload < 2 ^ 64"
  shows "\<exists>frame rh' cs'. parse_frame_header rh cs = (Ready (Inr frame), rh', cs') \<and>
    Frame_unmask cpu' frame = Frame_new fin opcode (Some rnd) payload \<and>
    rh_buffer rh' @ delivered cs' = rest \<and> rh' = rh\<lparr>rh_buffer := rh_buffer rh'\<rparr>"
proof -
  let ?f = "Frame_mask cpu rnd (Frame_new fin opcode None payload)"
  let ?m = "mask_from 0 rnd payload"
  have f: "?f = Frame_new fin opcode (Some rnd) ?m"
    using assms(1,3) by (simp add: Frame_mask_def Frame_new_def unmask_on_eq)
  have "fst (Frame_write ?f buf) = ws_head fin opcode (Some rnd) (length ?m) @ ?m"
    unfolding f by (subst Frame_write_wire) (use assms(3) in \<open>simp_all add: ws_wire_def Frame_new_def\<close>)
  then have buf: "rh_buffer (rh\<lparr>rh_buffer := rh_buffer rh @ delivered cs\<rparr>) =
      ws_head fin opcode (Some rnd) (length ?m) @ ?m @ rest"
    using assms(5) by simp
  have "try_parse_frame_buffered (rh\<lparr>rh_buffer := rh_buffer rh @ delivered cs\<rparr>) =
      (Some (Inr (Frame_new fin opcode (Some rnd) ?m)), rh\<lparr>rh_buffer := rest\<rparr>)"
    by (subst try_parse_wire [OF buf]) (use assms in simp_all)
  with parse_frame_header_eq [OF assms(4), of rh] obtain buf' cs' where
    "parse_frame_header rh cs = (Ready (Inr (Frame_new fin opcode (Some rnd) ?m)), rh\<lparr>rh_buffer := buf'\<rparr>, cs')"
    and eq: "rh\<lparr>rh_buffer := rest\<rparr> = rh\<lparr>rh_buffer := buf' @ delivered cs'\<rparr>"
    by auto
  moreover from eq have "rest = buf' @ delivered cs'"
    by (metis ReadHalf.select_convs(7) ReadHalf.surjective ReadHalf.update_convs(7))
  moreover have "Frame_unmask cpu' (Frame_new fin opcode (Some rnd) ?m) = Frame_new fin opcode (Some rnd) payload"
    using assms(2,3) by (simp add: Frame_unmask_def Frame_new_def unmask_on_eq mask_from_involution)
  ultimately show ?thesis
    by auto
qed

theorem client_frame_roundtrip_witness:
  "\<exists>frame rh' cs'. parse_frame_header (ReadHalf_after_handshake Server)
      [Inr [0x82], Inr [0x82, 1, 2, 3, 4, 8, 11, 0x88]] = (Ready (Inr frame), rh', cs') \<and>
    Frame_unmask plain_cpu frame = Frame_new True OpBinary (Some [1, 2, 3, 4]) [9, 9] \<and>
    rh_buffer rh' @ delivered cs' = [0x88]"
proof -
  have "fst (Frame_write (Frame_mask plain_cpu [1, 2, 3, 4] (Frame_new True OpBinary None [9, 9])) []) =
      [0x82, 0x82, 1, 2, 3, 4, 8, 11]"
    by (subst Frame_write_wire)
      (simp_all add: Frame_mask_def Frame_new_def unmask_on_eq plain_cpu_ok ws_wire_def ws_head_def ws_len_code_def
        ws_len_ext_def mask_from_def)
  then show ?thesis
    using client_frame_roundtrip [OF plain_cpu_ok plain_cpu_ok, of "[1, 2, 3, 4]"
        "[Inr [0x82], Inr [0x82, 1, 2, 3, 4, 8, 11, 0x88]]" "ReadHalf_after_handshake Server" True OpBinary
        "[9, 9]" "[]" "[0x88]"]
    by (auto simp: ReadHalf_after_handshake_def is_control_def)
qed

section \<open>What the parser accepts and refuses\<close>

text \<open>
  The bytes of a frame by the protocol's layout: two bytes, the extended length, the masking key, the payload.  The
  length may be written in more bytes than it needs.
\<close>

definition frame_wire :: "Role \<Rightarrow> usize \<Rightarrow> Frame \<Rightarrow> bytes \<Rightarrow> bytes \<Rightarrow> bool" where
  "frame_wire role limit f rest W \<longleftrightarrow>
     (\<exists>b0 b1 ext key. W = b0 # b1 # ext @ key @ fr_payload f @ rest \<and>
        b0 AND 0x70 = 0 \<and> b0 AND 0x0F = OpCode_as_byte (fr_opcode f) \<and> fr_fin f = (b0 AND 0x80 \<noteq> 0) \<and>
        length ext = (if b1 AND 0x7F = 126 then 2 else if b1 AND 0x7F = 127 then 8 else 0) \<and>
        length (fr_payload f) = (if ext = [] then unat (b1 AND 0x7F) else le_nat (rev ext)) \<and>
        (if b1 AND 0x80 = 0 then key = [] \<and> fr_mask f = None \<and> role \<noteq> Server
         else length key = 4 \<and> fr_mask f = Some key) \<and>
        (is_control (fr_opcode f) \<longrightarrow> fr_fin f \<and> length (fr_payload f) \<le> 125) \<and>
        length (fr_payload f) \<le> limit)"

text \<open>The reason for which the start of a stream is refused; the length is checked once the header is complete.\<close>

definition frame_refused :: "Role \<Rightarrow> usize \<Rightarrow> WebSocketError \<Rightarrow> bytes \<Rightarrow> bool" where
  "frame_refused role limit e W \<longleftrightarrow>
     (let opcode = W ! 0 AND 0x0F; control = (opcode \<in> {8, 9, 10}); fin = (W ! 0 AND 0x80 \<noteq> 0); len = peek_payload_len W in
      2 \<le> length W \<and>
      (if W ! 0 AND 0x70 \<noteq> 0 then e = ReservedBitsNotZero
       else if opcode \<notin> {0, 1, 2, 8, 9, 10} then e = InvalidValue
       else if role = Server \<and> W ! 1 AND 0x80 = 0 then e = UnmaskedClientFrame
       else header_size (W ! 1) \<le> length W \<and>
         (if control \<and> \<not> fin then e = ControlFrameFragmented
          else if control \<and> 125 < len then e = ControlFrameTooLarge
          else limit < len \<and> e = FrameTooLarge)))"

lemma byte_reserved: "(b :: u8) AND 0x70 = 0 \<longleftrightarrow> b AND 0x40 = 0 \<and> b AND 0x20 = 0 \<and> b AND 0x10 = 0"
proof -
  have "b AND 0x70 = (b AND 0x40) OR (b AND 0x20) OR (b AND 0x10)"
    by (simp flip: bit.conj_disj_distrib)
  then show ?thesis
    by (simp add: or_eq_0_iff)
qed

lemma check_start_eq:
  "check_start role b0 b1 =
     (if b0 AND 0x70 \<noteq> 0 then Inl ReservedBitsNotZero
      else case OpCode_try_from (b0 AND 0x0F) of
        Inl e \<Rightarrow> Inl e
      | Inr opcode \<Rightarrow> if role = Server \<and> \<not> is_masked b1 then Inl UnmaskedClientFrame else Inr opcode)"
  unfolding check_start_def byte_reserved by auto

lemma OpCode_try_from_cases:
  "OpCode_try_from b = Inl e \<longleftrightarrow> b \<notin> {0, 1, 2, 8, 9, 10} \<and> e = InvalidValue"
  "OpCode_try_from b = Inr opcode \<longleftrightarrow> b = OpCode_as_byte opcode"
proof -
  show "OpCode_try_from b = Inl e \<longleftrightarrow> b \<notin> {0, 1, 2, 8, 9, 10} \<and> e = InvalidValue"
    by (auto simp: OpCode_try_from_def split: if_splits)
  show "OpCode_try_from b = Inr opcode \<longleftrightarrow> b = OpCode_as_byte opcode"
    by (metis OpCode_try_from_Inr OpCode_try_from_as_byte)
qed

lemma is_control_byte: "is_control opcode \<longleftrightarrow> OpCode_as_byte opcode \<in> {8, 9, 10}"
  by (cases opcode) (simp_all add: is_control_def)

text \<open>The header peeks on a header that is laid out as above.\<close>

lemma peek_layout:
  assumes "W = b0 # b1 # ext @ key @ tail" "length ext = extra_size b1" "length key = (if is_masked b1 then 4 else 0)"
  shows "header_size (W ! 1) = 2 + length ext + length key" "drop (2 + length ext + length key) W = tail"
    "peek_payload_len W = (if ext = [] then unat (b1 AND 0x7F) else le_nat (rev ext))"
    "peek_mask W = (if is_masked b1 then Some key else None)"
proof -
  show "header_size (W ! 1) = 2 + length ext + length key" "drop (2 + length ext + length key) W = tail"
    using assms by (simp_all add: header_size_def)
  have ext: "length ext = 0 \<or> length ext = 2 \<or> length ext = 8"
    using assms(2) by (auto simp: extra_size_def Let_def)
  have two: "take (length ext) (drop 2 W) = ext" "take 4 (drop (2 + length ext) W) = take 4 (key @ tail)"
    by (simp_all add: assms(1))
  show "peek_payload_len W = (if ext = [] then unat (b1 AND 0x7F) else le_nat (rev ext))"
  proof -
    consider "ext = []" | a b where "ext = [a, b]" | a b c d e f g h where "ext = [a, b, c, d, e, f, g, h]"
      using ext by (auto simp: length_Suc_conv numeral_eq_Suc)
    then show ?thesis
      by cases (use assms in \<open>simp_all add: peek_payload_len_def u16_from_be_bytes_def u64_from_be_bytes_def
          unat_of_le_nat nth_Cons_numeral Let_def del: le_nat.simps\<close>)
  qed
  show "peek_mask W = (if is_masked b1 then Some key else None)"
  proof (cases "is_masked b1")
    case True
    then obtain a b c d where "key = [a, b, c, d]"
      using assms(3) by (auto simp: length_Suc_conv numeral_eq_Suc)
    then show ?thesis
      using True assms(1) by (simp add: peek_mask_def Let_def nth_append flip: assms(2))
  qed (simp add: peek_mask_def assms(1))
qed

text \<open>Any complete header is laid out that way.\<close>

lemma header_layout:
  assumes "2 \<le> length W" "header_size (W ! 1) \<le> length W"
  obtains b0 b1 ext key tail where "W = b0 # b1 # ext @ key @ tail" "length ext = extra_size b1"
    "length key = (if is_masked b1 then 4 else 0)"
proof -
  obtain b0 b1 V where W: "W = b0 # b1 # V"
    using assms(1) by (cases W; cases "tl W") auto
  let ?n = "extra_size b1" and ?k = "if is_masked b1 then 4 else 0 :: nat"
  show ?thesis
    by (rule that [of b0 b1 "take ?n V" "take ?k (drop ?n V)" "drop ?k (drop ?n V)"])
      (use assms(2) in \<open>auto simp: W header_size_def simp del: drop_drop\<close>)
qed

lemma buffer_inject [simp]: "rh\<lparr>rh_buffer := a\<rparr> = rh\<lparr>rh_buffer := b\<rparr> \<longleftrightarrow> a = b"
  by (metis ReadHalf.select_convs(7) ReadHalf.surjective ReadHalf.update_convs(7))

lemma masked_byte: "is_masked b \<longleftrightarrow> b AND 0x80 \<noteq> 0"
  by (simp add: is_masked_def)

lemma try_parse_refuses:
  "(\<exists>rh'. try_parse_frame_buffered rh = (Some (Inl e), rh')) \<longleftrightarrow>
   frame_refused (rh_role rh) (rh_max_message_size rh) e (rh_buffer rh)"
proof (cases "OpCode_try_from (rh_buffer rh ! 0 AND 0x0F)")
  case (Inl e')
  then show ?thesis
    using OpCode_try_from_cases(1) [of "rh_buffer rh ! 0 AND 0x0F" e']
    unfolding try_parse_steps Let_def frame_refused_def check_start_eq by auto
next
  case (Inr opcode)
  then have "rh_buffer rh ! 0 AND 0x0F = OpCode_as_byte opcode"
    by (simp add: OpCode_try_from_cases)
  moreover have "OpCode_as_byte opcode \<in> {0, 1, 2, 8, 9, 10}"
    by (cases opcode) simp_all
  ultimately show ?thesis
    using Inr unfolding try_parse_steps Let_def frame_refused_def check_start_eq is_control_byte check_length_def masked_byte
    by (auto split: if_splits)
qed

lemma try_parse_accepts:
  "try_parse_frame_buffered rh = (Some (Inr f), rh\<lparr>rh_buffer := rest\<rparr>) \<longleftrightarrow>
   frame_wire (rh_role rh) (rh_max_message_size rh) f rest (rh_buffer rh)" (is "?parsed \<longleftrightarrow> _")
proof
  let ?W = "rh_buffer rh"
  assume parsed: ?parsed
  then obtain opcode where len: "2 \<le> length ?W" "header_size (?W ! 1) + peek_payload_len ?W \<le> length ?W"
    and start: "check_start (rh_role rh) (?W ! 0) (?W ! 1) = Inr opcode"
    and lim: "check_length (rh_max_message_size rh) (?W ! 0) opcode (peek_payload_len ?W) = None"
    and f: "f = Frame_new (?W ! 0 AND 0x80 \<noteq> 0) opcode (peek_mask ?W) (take (peek_payload_len ?W) (drop (header_size (?W ! 1)) ?W))"
    and rest: "rest = drop (peek_payload_len ?W) (drop (header_size (?W ! 1)) ?W)"
    unfolding try_parse_steps Let_def
    by (auto split: if_splits sum.splits option.splits dest: arg_cong [where f = rh_buffer] simp del: drop_drop)
  obtain b0 b1 ext key tail where W: "?W = b0 # b1 # ext @ key @ tail" "length ext = extra_size b1"
      "length key = (if is_masked b1 then 4 else 0)"
    by (rule header_layout [OF len(1) add_leD1 [OF len(2)]])
  note peek = peek_layout [OF W]
  have bytes: "?W ! 0 = b0" "?W ! 1 = b1"
    by (simp_all add: W(1))
  have pl: "length (fr_payload f) = peek_payload_len ?W" and tail: "tail = fr_payload f @ rest"
  proof -
    have "drop (header_size (?W ! 1)) ?W = tail"
      unfolding peek(1) by (rule peek(2))
    moreover have "peek_payload_len ?W \<le> length (drop (header_size (?W ! 1)) ?W)"
      using len(2) by simp
    ultimately show "length (fr_payload f) = peek_payload_len ?W" "tail = fr_payload f @ rest"
      unfolding f rest Frame_new_def by simp_all
  qed
  have f': "fr_opcode f = opcode" "fr_fin f = (b0 AND 0x80 \<noteq> 0)" "fr_mask f = (if is_masked b1 then Some key else None)"
    by (simp_all add: f Frame_new_def bytes peek(4))
  have b0: "b0 AND 0x70 = 0" "b0 AND 0x0F = OpCode_as_byte opcode" "rh_role rh = Server \<Longrightarrow> is_masked b1"
    using start unfolding bytes check_start_eq by (auto simp: OpCode_try_from_cases split: if_splits sum.splits)
  have "is_control opcode \<longrightarrow> b0 AND 0x80 \<noteq> 0 \<and> peek_payload_len ?W \<le> 125" "peek_payload_len ?W \<le> rh_max_message_size rh"
    using lim unfolding bytes check_length_def by (auto split: if_splits)
  moreover have "length ext = (if b1 AND 0x7F = 126 then 2 else if b1 AND 0x7F = 127 then 8 else 0)"
    unfolding W(2) extra_size_def Let_def ..
  moreover have "if b1 AND 0x80 = 0 then key = [] \<and> fr_mask f = None \<and> rh_role rh \<noteq> Server else length key = 4 \<and> fr_mask f = Some key"
    using W(3) b0(3) f'(3) by (auto simp: masked_byte)
  ultimately show "frame_wire (rh_role rh) (rh_max_message_size rh) f rest ?W"
    unfolding frame_wire_def using W(1) b0(1,2) f'(1,2) pl peek(3) tail
    by (intro exI [of _ b0] exI [of _ b1] exI [of _ ext] exI [of _ key] conjI) simp_all
next
  let ?W = "rh_buffer rh"
  assume "frame_wire (rh_role rh) (rh_max_message_size rh) f rest ?W"
  then obtain b0 b1 ext key where W: "?W = b0 # b1 # ext @ key @ fr_payload f @ rest"
    and b0: "b0 AND 0x70 = 0" "b0 AND 0x0F = OpCode_as_byte (fr_opcode f)" "fr_fin f = (b0 AND 0x80 \<noteq> 0)"
    and ext: "length ext = extra_size b1" and len: "length (fr_payload f) = (if ext = [] then unat (b1 AND 0x7F) else le_nat (rev ext))"
    and key: "if b1 AND 0x80 = 0 then key = [] \<and> fr_mask f = None \<and> rh_role rh \<noteq> Server else length key = 4 \<and> fr_mask f = Some key"
    and lim: "is_control (fr_opcode f) \<longrightarrow> fr_fin f \<and> length (fr_payload f) \<le> 125" "length (fr_payload f) \<le> rh_max_message_size rh"
    unfolding frame_wire_def by (auto simp: extra_size_def Let_def)
  have "length key = (if is_masked b1 then 4 else 0)"
    using key by (auto simp: masked_byte split: if_splits)
  note peek = peek_layout [OF W ext this]
  have bytes: "?W ! 0 = b0" "?W ! 1 = b1"
    by (simp_all add: W)
  have "check_start (rh_role rh) b0 b1 = Inr (fr_opcode f)"
    using b0 key by (auto simp: check_start_eq masked_byte split: if_splits)
  moreover have "check_length (rh_max_message_size rh) b0 (fr_opcode f) (length (fr_payload f)) = None"
    using lim b0(3) by (auto simp: check_length_def)
  moreover have "peek_payload_len ?W = length (fr_payload f)"
    using peek(3) len by simp
  moreover have "Frame_new (b0 AND 0x80 \<noteq> 0) (fr_opcode f) (peek_mask ?W) (fr_payload f) = f"
    using key b0(3) peek(4) by (auto simp: Frame_new_def masked_byte split: if_splits)
  moreover have "2 \<le> length ?W" "header_size (?W ! 1) + length (fr_payload f) \<le> length ?W"
    unfolding peek(1) by (simp_all add: W)
  ultimately show ?parsed
    using peek(1,2) unfolding try_parse_steps Let_def bytes by (simp add: bytes del: drop_drop)
qed

text \<open>C28. What the parser does with the bytes received so far, however they were cut: it returns a frame and leaves the
  bytes after it exactly if they start with that frame as the protocol lays it out (reserved bits clear, a
  known op-code, from a client a masking key of four bytes, a control frame unfragmented and of at most 125 bytes, a
  payload within the message limit); it refuses them exactly for the first of these reasons that applies, and
  then no byte is lost; and in every other case it waits, with all of them in its buffer.\<close>

theorem frame_parser_accepts:
  assumes "live cs" "W = rh_buffer rh @ delivered cs"
  shows "((\<exists>buf cs'. parse_frame_header rh cs = (Ready (Inr f), rh\<lparr>rh_buffer := buf\<rparr>, cs') \<and> buf @ delivered cs' = rest) \<longleftrightarrow>
      frame_wire (rh_role rh) (rh_max_message_size rh) f rest W) \<and>
    ((\<exists>buf cs'. parse_frame_header rh cs = (Ready (Inl e), rh\<lparr>rh_buffer := buf\<rparr>, cs') \<and> buf @ delivered cs' = W) \<longleftrightarrow>
      frame_refused (rh_role rh) (rh_max_message_size rh) e W) \<and>
    (fst (parse_frame_header rh cs) = Ready (Inl e) \<longleftrightarrow> frame_refused (rh_role rh) (rh_max_message_size rh) e W) \<and>
    (parse_frame_header rh cs = (Pending, rh\<lparr>rh_buffer := W\<rparr>, []) \<longleftrightarrow>
      (\<forall>f rest. \<not> frame_wire (rh_role rh) (rh_max_message_size rh) f rest W) \<and>
      (\<forall>e. \<not> frame_refused (rh_role rh) (rh_max_message_size rh) e W))"
proof -
  let ?rh = "rh\<lparr>rh_buffer := W\<rparr>"
  obtain r rh' where tp: "try_parse_frame_buffered ?rh = (r, rh')"
    by fastforce
  note eq = parse_frame_header_eq [OF assms(1), of rh, folded assms(2), unfolded tp]
  have acc: "frame_wire (rh_role rh) (rh_max_message_size rh) f rest W \<longleftrightarrow> r = Some (Inr f) \<and> rh' = rh\<lparr>rh_buffer := rest\<rparr>" for f rest
    using try_parse_accepts [of ?rh f rest] tp by auto
  have ref: "frame_refused (rh_role rh) (rh_max_message_size rh) e W \<longleftrightarrow> r = Some (Inl e)" for e
    using try_parse_refuses [of ?rh e] tp by auto
  have keeps: "rh' = ?rh" if "\<And>f. r \<noteq> Some (Inr f)"
    using try_parse_keeps [OF tp] that by blast
  consider "r = None" | e' where "r = Some (Inl e')" | f' where "r = Some (Inr f')"
    by (metis option.exhaust sum.exhaust)
  then show ?thesis
  proof cases
    case 1
    with eq keeps show ?thesis
      by (simp add: acc ref)
  next
    case (2 e')
    with eq keeps obtain buf cs' where "parse_frame_header rh cs = (Ready (Inl e'), rh\<lparr>rh_buffer := buf\<rparr>, cs')" "buf @ delivered cs' = W"
      by (auto dest: arg_cong [where f = rh_buffer])
    with 2 show ?thesis
      by (auto simp: acc ref dest: arg_cong [where f = rh_buffer])
  next
    case (3 f')
    with eq obtain buf cs' where "parse_frame_header rh cs = (Ready (Inr f'), rh\<lparr>rh_buffer := buf\<rparr>, cs')"
        "rh' = rh\<lparr>rh_buffer := buf @ delivered cs'\<rparr>"
      by auto
    with 3 show ?thesis
      by (auto simp: acc ref dest: arg_cong [where f = rh_buffer])
  qed
qed

theorem frame_parser_accepts_witness:
  "fst (parse_frame_header (ReadHalf_after_handshake Server) [Inr [0x09], Inr [0x80, 1, 2, 3, 4]]) =
     Ready (Inl ControlFrameFragmented)"
proof -
  let ?rh = "ReadHalf_after_handshake Server" and ?cs = "[Inr [0x09], Inr [0x80, 1, 2, 3, 4]] :: chunks"
  have "frame_refused Server (rh_max_message_size ?rh) ControlFrameFragmented [0x09, 0x80, 1, 2, 3, 4]"
    by (simp add: frame_refused_def header_size_def extra_size_def is_masked_def Let_def)
  then show ?thesis
    using frame_parser_accepts [of ?cs "[0x09, 0x80, 1, 2, 3, 4]" ?rh _ _ ControlFrameFragmented]
    by (simp add: ReadHalf_after_handshake_def)
qed

text \<open>C29. In the connection loop, where automatic replies are off, the buffered and the asynchronous Wisp reader agree:
  on the same bytes both wait, both fail with the same error, or both return the same packet and leave the same
  bytes.  The one difference is a final text frame that is not UTF-8: the asynchronous reader refuses it, the
  buffered one passes it on as a control frame.\<close>

theorem wisp_readers_agree:
  assumes "live cs" "\<not> rh_auto_close rh" "\<not> rh_auto_pong rh"
  shows "case try_read_wisp_frame cpu (rh\<lparr>rh_buffer := rh_buffer rh @ delivered cs\<rparr>) of
     (None, rh') \<Rightarrow> read_wisp_frame cpu rh cs = (Pending, rh', [])
   | (Some r, rh') \<Rightarrow> \<exists>buf' cs'.
       read_wisp_frame cpu rh cs =
         (Ready (case r of
                   Inr (Control f) \<Rightarrow> if fr_opcode f = OpText \<and> fr_fin f \<and> \<not> utf8_valid (fr_payload f)
                                      then Inl InvalidUTF8 else r
                 | _ \<Rightarrow> r), rh\<lparr>rh_buffer := buf'\<rparr>, cs') \<and>
       rh' = rh\<lparr>rh_buffer := buf' @ delivered cs'\<rparr>"
proof -
  obtain r rh' where tp: "try_parse_frame_buffered (rh\<lparr>rh_buffer := rh_buffer rh @ delivered cs\<rparr>) = (r, rh')"
    by fastforce
  note eq = parse_frame_header_eq [OF assms(1), of rh, unfolded tp]
  show ?thesis
  proof (cases r)
    case None
    with eq tp show ?thesis
      by (simp add: try_read_wisp_frame_def read_wisp_frame_def read_frame_inner_def)
  next
    case (Some x)
    with eq obtain buf' cs' where ph: "parse_frame_header rh cs = (Ready x, rh\<lparr>rh_buffer := buf'\<rparr>, cs')"
      and rh': "rh' = rh\<lparr>rh_buffer := buf' @ delivered cs'\<rparr>"
      by auto
    show ?thesis
    proof (cases x)
      case (Inl e)
      with Some tp ph rh' show ?thesis
        by (auto simp: try_read_wisp_frame_def read_wisp_frame_def read_frame_inner_def)
    next
      case (Inr f)
      define g where "g = (if rh_role rh = Server \<and> rh_auto_apply_mask rh then Frame_unmask cpu f else f)"
      have sync: "try_read_wisp_frame cpu (rh\<lparr>rh_buffer := rh_buffer rh @ delivered cs\<rparr>) =
          (Some (Inr (wisp_of_frame g)), rh')"
        using tp Some Inr by (simp add: try_read_wisp_frame_def g_def)
      have async: "read_wisp_frame cpu rh cs =
          (Ready (if fr_opcode g = OpText \<and> fr_fin g \<and> \<not> utf8_valid (fr_payload g) then Inl InvalidUTF8
                  else Inr (wisp_of_frame g)), rh\<lparr>rh_buffer := buf'\<rparr>, cs')"
        using ph Inr assms(2,3)
        by (simp add: read_wisp_frame_def read_frame_inner_def is_utf8_def Let_def flip: g_def)
      have "wisp_of_frame g = Control g" if "fr_opcode g = OpText"
        using that by (simp add: wisp_of_frame_def)
      then show ?thesis
        unfolding sync async prod.case option.case rh' sum.case
        by (auto simp: wisp_of_frame_def Let_def)
    qed
  qed
qed

theorem wisp_readers_agree_witness:
  "let rh = (ReadHalf_after_handshake Server)\<lparr>rh_auto_close := False, rh_auto_pong := False\<rparr>
   in fst (read_wisp_frame plain_cpu rh [Inr [0x81, 0x81, 0, 0, 0], Inr [0, 0xFF]]) = Ready (Inl InvalidUTF8)"
proof -
  let ?rh = "(ReadHalf_after_handshake Server)\<lparr>rh_auto_close := False, rh_auto_pong := False\<rparr>"
  let ?cs = "[Inr [0x81, 0x81, 0, 0, 0], Inr [0, 0xFF]] :: chunks"
  have tp: "try_parse_frame_buffered (?rh\<lparr>rh_buffer := rh_buffer ?rh @ delivered ?cs\<rparr>) =
      (Some (Inr (Frame_new True OpText (Some [0, 0, 0, 0]) [0xFF])), ?rh\<lparr>rh_buffer := []\<rparr>)"
    by (simp add: try_parse_frame_buffered_def ReadHalf_after_handshake_def OpCode_try_from_def is_masked_def
        header_size_def extra_size_def peek_payload_len_def peek_mask_def is_control_def Frame_new_def Let_def)
  have "Frame_unmask plain_cpu (Frame_new True OpText (Some [0, 0, 0, 0]) [0xFF]) =
      Frame_new True OpText (Some [0, 0, 0, 0]) [0xFF]"
    by (simp add: Frame_unmask_def Frame_new_def unmask_on_eq plain_cpu_ok mask_from_def)
  then have "try_read_wisp_frame plain_cpu (?rh\<lparr>rh_buffer := rh_buffer ?rh @ delivered ?cs\<rparr>) =
      (Some (Inr (Control (Frame_new True OpText (Some [0, 0, 0, 0]) [0xFF]))), ?rh\<lparr>rh_buffer := []\<rparr>)"
    unfolding try_read_wisp_frame_def tp
    by (simp add: wisp_of_frame_def ReadHalf_after_handshake_def) (simp add: Frame_new_def)
  then show ?thesis
    using wisp_readers_agree [of ?cs ?rh plain_cpu] by (auto simp: Frame_new_def)
qed

end
