(* ===== verification/Security.thy ===== *)
theory Security
  imports Config Net_Addr
begin

text \<open>
  Security helpers, \<^verbatim>\<open>src/server/security.rs\<close>: IP classification, the egress policy, the check on the
  host name before resolution, and the extraction of the real client address behind a trusted proxy.
  The CIDR type of the \<^verbatim>\<open>ipnet\<close> crate is a type variable: its parser, its constructor and its
  membership test are arguments of the definitions that use them.
\<close>

section \<open>IP address classification\<close>

definition opt_any :: "('a \<Rightarrow> bool) \<Rightarrow> 'a option \<Rightarrow> bool" where
  "opt_any P x = (case x of None \<Rightarrow> False | Some a \<Rightarrow> P a)"

definition is_ipv6_link_local :: "Ipv6Addr \<Rightarrow> bool" where
  "is_ipv6_link_local v6 \<longleftrightarrow> v6_segments v6 ! 0 AND 0xffc0 = 0xfe80"

definition is_ipv6_unique_local :: "Ipv6Addr \<Rightarrow> bool" where
  "is_ipv6_unique_local v6 \<longleftrightarrow> v6_segments v6 ! 0 AND 0xfe00 = 0xfc00"

fun is_loopback :: "IpAddr \<Rightarrow> bool" where
  "is_loopback (V4 v4) \<longleftrightarrow> v4_is_loopback v4"
| "is_loopback (V6 v6) \<longleftrightarrow> v6_is_loopback v6 \<or> opt_any v4_is_loopback (to_ipv4_mapped v6)"

fun is_private :: "IpAddr \<Rightarrow> bool" where
  "is_private (V4 v4) \<longleftrightarrow> v4_is_private v4"
| "is_private (V6 v6) \<longleftrightarrow> is_ipv6_unique_local v6 \<or> opt_any v4_is_private (to_ipv4_mapped v6)"

fun is_unspecified :: "IpAddr \<Rightarrow> bool" where
  "is_unspecified (V4 v4) \<longleftrightarrow> v4_is_unspecified v4"
| "is_unspecified (V6 v6) \<longleftrightarrow> v6_is_unspecified v6 \<or> opt_any v4_is_unspecified (to_ipv4_mapped v6)"

fun is_link_local :: "IpAddr \<Rightarrow> bool" where
  "is_link_local (V4 v4) \<longleftrightarrow> v4_is_link_local v4"
| "is_link_local (V6 v6) \<longleftrightarrow> is_ipv6_link_local v6 \<or> opt_any v4_is_link_local (to_ipv4_mapped v6)"

definition is_ip_blocked :: "IpAddr \<Rightarrow> ServerConfig \<Rightarrow> bool" where
  "is_ip_blocked ip config =
     (if is_unspecified ip then True
      else if \<not> cfg_allow_loopback config \<and> is_loopback ip then True
      else if \<not> cfg_allow_private_ips config \<and> is_private ip then True
      else if \<not> cfg_allow_private_ips config \<and> is_link_local ip then True
      else False)"

definition is_raw_ip :: "string \<Rightarrow> bool" where
  "is_raw_ip hostname \<longleftrightarrow> parse_Ipv4Addr hostname \<noteq> None \<or> parse_Ipv6Addr hostname \<noteq> None"

definition hostname_is_private_172 :: "string \<Rightarrow> bool" where
  "hostname_is_private_172 hostname =
     (case strip_prefix hostname ''172.'' of
        None \<Rightarrow> False
      | Some rest \<Rightarrow>
          (case find_char (CHR ''.'') rest of
             None \<Rightarrow> False
           | Some dot_pos \<Rightarrow>
               (case parse_u8 (take dot_pos rest) of
                  None \<Rightarrow> False
                | Some second_octet \<Rightarrow> 16 \<le> second_octet \<and> second_octet \<le> 31)))"

definition is_hostname_blocked_pre_resolution :: "string \<Rightarrow> ServerConfig \<Rightarrow> bool" where
  "is_hostname_blocked_pre_resolution hostname config =
     (if \<not> cfg_allow_direct_ip config \<and> is_raw_ip hostname then True
      else if \<not> cfg_allow_loopback config
              \<and> (hostname = ''localhost'' \<or> hostname = ''127.0.0.1'' \<or> hostname = ''::1''
                 \<or> hostname = ''0.0.0.0'' \<or> hostname = ''::'') then True
      else if \<not> cfg_allow_private_ips config
              \<and> (starts_with hostname ''10.'' \<or> starts_with hostname ''192.168.''
                 \<or> starts_with hostname ''169.254.'' \<or> hostname_is_private_172 hostname) then True
      else if \<not> cfg_allow_loopback config \<and> starts_with hostname ''127.'' then True
      else False)"

section \<open>Real IP parsing\<close>

text \<open>
  \<open>parse_net\<close> is \<^verbatim>\<open>str::parse::<IpNet>\<close>, \<open>net_new\<close> is \<^verbatim>\<open>IpNet::new\<close> and \<open>net_contains\<close> is
  \<^verbatim>\<open>IpNet::contains\<close>.
\<close>

fun parse_trusted_proxies ::
  "(string \<Rightarrow> 'net option) \<Rightarrow> (IpAddr \<Rightarrow> nat \<Rightarrow> 'net option) \<Rightarrow> string list \<Rightarrow> 'net list" where
  "parse_trusted_proxies parse_net net_new [] = []"
| "parse_trusted_proxies parse_net net_new (s # ss) =
     (let nets = parse_trusted_proxies parse_net net_new ss in
      case parse_net s of
        Some net \<Rightarrow> net # nets
      | None \<Rightarrow>
          (case parse_IpAddr s of
             Some ip \<Rightarrow>
               (let prefix = (case ip of V4 _ \<Rightarrow> 32 | V6 _ \<Rightarrow> 128) in
                case net_new ip prefix of Some net \<Rightarrow> net # nets | None \<Rightarrow> nets)
           | None \<Rightarrow> nets))"

definition is_trusted_proxy :: "('net \<Rightarrow> IpAddr \<Rightarrow> bool) \<Rightarrow> IpAddr \<Rightarrow> 'net list \<Rightarrow> bool" where
  "is_trusted_proxy net_contains peer_ip trusted_proxies =
     (if trusted_proxies = [] then False
      else list_ex (\<lambda>net. net_contains net peer_ip) trusted_proxies)"

fun extract_from_headers :: "string \<Rightarrow> (string \<times> string) list \<Rightarrow> IpAddr option" where
  "extract_from_headers target_lower [] = None"
| "extract_from_headers target_lower ((name, val) # hs) =
     (if to_ascii_lowercase name = target_lower then
        (case parse_IpAddr (trim (first_field (CHR '','') val)) of
           Some ip \<Rightarrow> Some ip
         | None \<Rightarrow> extract_from_headers target_lower hs)
      else extract_from_headers target_lower hs)"

fun extract_real_ip :: "(string \<times> string) list \<Rightarrow> string list \<Rightarrow> IpAddr option" where
  "extract_real_ip headers [] = None"
| "extract_real_ip headers (target_header # targets) =
     (case extract_from_headers (to_ascii_lowercase target_header) headers of
        Some ip \<Rightarrow> Some ip
      | None \<Rightarrow> extract_real_ip headers targets)"

section \<open>Lemmas\<close>

lemma opt_any_simps [simp]: "opt_any P None = False" "opt_any P (Some x) = P x"
  by (simp_all add: opt_any_def)

text \<open>
  An IPv4 address and its IPv4-mapped IPv6 form are classified alike, so that the mapped form is no way
  around the policy.
\<close>

lemma mapped_not_special:
  "\<not> is_ipv6_unique_local (mapped v4)" "\<not> is_ipv6_link_local (mapped v4)"
  "\<not> v6_is_loopback (mapped v4)" "\<not> v6_is_unspecified (mapped v4)"
  by (cases v4, simp add: mapped_def is_ipv6_unique_local_def is_ipv6_link_local_def
      v6_is_loopback_def v6_is_unspecified_def)+

lemma is_ip_blocked_mapped: "is_ip_blocked (V6 (mapped v4)) c = is_ip_blocked (V4 v4) c"
  by (simp add: is_ip_blocked_def mapped_not_special)

lemma is_raw_ip_show_ipv4: "is_raw_ip (show_ipv4 v4)"
  by (simp add: is_raw_ip_def)

text \<open>The two mask tests as ranges of the first segment.\<close>

lemma unat_and_high_mask:
  fixes s :: u16
  assumes "n + m = 16"
  shows "unat (s AND push_bit n (mask m)) = unat s div 2 ^ n * 2 ^ n"
proof -
  have "s AND push_bit n (mask m) = push_bit n (drop_bit n s)"
    by (rule bit_word_eqI) (use assms in \<open>auto simp: bit_simps\<close>)
  then have "unat (s AND push_bit n (mask m)) = take_bit 16 (push_bit n (drop_bit n (unat s)))"
    using take_bit_nat_eq_self [of "unat s" 16]
    by (simp add: unsigned_push_bit_eq unsigned_drop_bit_eq)
  then have "unat (s AND push_bit n (mask m)) = (unat s div 2 ^ n * 2 ^ n) mod 65536"
    by (simp add: drop_bit_eq_div push_bit_eq_mult take_bit_eq_mod)
  moreover have "unat s div 2 ^ n * 2 ^ n < 65536"
    using unat_u16_less [of s] by (meson div_times_less_eq_dividend order_le_less_trans)
  ultimately show ?thesis
    by simp
qed

lemma segment_masks:
  "(s :: u16) AND 0xffc0 = 0xfe80 \<longleftrightarrow> 0xfe80 \<le> s \<and> s \<le> 0xfebf"
  "s AND 0xfe00 = 0xfc00 \<longleftrightarrow> 0xfc00 \<le> s \<and> s \<le> 0xfdff"
proof -
  have "push_bit 6 (mask 10) = (0xffc0 :: u16)" "push_bit 9 (mask 7) = (0xfe00 :: u16)"
    by (simp_all add: mask_eq_exp_minus_1)
  then have "unat (s AND 0xffc0) = unat s div 64 * 64" "unat (s AND 0xfe00) = unat s div 512 * 512"
    using unat_and_high_mask [of 6 10 s] unat_and_high_mask [of 9 7 s] by simp_all
  then show "s AND 0xffc0 = 0xfe80 \<longleftrightarrow> 0xfe80 \<le> s \<and> s \<le> 0xfebf"
    "s AND 0xfe00 = 0xfc00 \<longleftrightarrow> 0xfc00 \<le> s \<and> s \<le> 0xfdff"
    by (simp_all add: word_unat_eq_iff word_le_nat_alt) linarith+
qed

lemma private_172_show:
  "hostname_is_private_172 (show_ipv4 (Ipv4 a b c d)) \<longleftrightarrow> a = 172 \<and> 16 \<le> b \<and> b \<le> 31"
proof -
  let ?rest = "show_octet b @ CHR ''.'' # show_octet c @ CHR ''.'' # show_octet d"
  have "strip_prefix (show_ipv4 (Ipv4 a b c d)) ''172.'' = (if a = 172 then Some ?rest else None)"
    using starts_with_octet [of a ?rest 172 "[]"]
    by (simp add: strip_prefix_def octet_literals(3) del: starts_with_def)
  then show ?thesis
    using find_char_append [OF show_octet_chars] by (simp add: hostname_is_private_172_def)
qed

text \<open>On a literal IPv4 address the check before resolution agrees with the policy on the address.\<close>

lemma pre_resolution_show_ipv4:
  "is_hostname_blocked_pre_resolution (show_ipv4 v4) c \<longleftrightarrow>
     \<not> cfg_allow_direct_ip c \<or>
     (\<not> cfg_allow_loopback c \<and> (v4_is_loopback v4 \<or> v4_is_unspecified v4)) \<or>
     (\<not> cfg_allow_private_ips c \<and> (v4_is_private v4 \<or> v4_is_link_local v4))"
proof (cases v4)
  case (Ipv4 x y z w)
  let ?tail = "show_octet y @ CHR ''.'' # show_octet z @ CHR ''.'' # show_octet w"
  have sw: "starts_with (show_ipv4 v4) (show_octet n @ CHR ''.'' # p) \<longleftrightarrow>
      x = n \<and> starts_with ?tail p" for n p
    using starts_with_octet [of x ?tail n p] by (simp add: Ipv4)
  have p10: "starts_with (show_ipv4 v4) ''10.'' \<longleftrightarrow> x = 10"
    and p127: "starts_with (show_ipv4 v4) ''127.'' \<longleftrightarrow> x = 127"
    and p192: "starts_with (show_ipv4 v4) ''192.168.'' \<longleftrightarrow> x = 192 \<and> y = 168"
    and p169: "starts_with (show_ipv4 v4) ''169.254.'' \<longleftrightarrow> x = 169 \<and> y = 254"
    unfolding octet_literals by (simp_all add: sw starts_with_octet)
  have host: "show_ipv4 v4 = ''127.0.0.1'' \<longleftrightarrow> v4 = Ipv4 127 0 0 1"
    "show_ipv4 v4 = ''0.0.0.0'' \<longleftrightarrow> v4 = Ipv4 0 0 0 0"
    unfolding octet_literals by (simp_all del: show_ipv4.simps)
  have p172: "hostname_is_private_172 (show_ipv4 v4) \<longleftrightarrow> x = 172 \<and> 16 \<le> y \<and> y \<le> 31"
    unfolding Ipv4 by (rule private_172_show)
  show ?thesis
    unfolding is_hostname_blocked_pre_resolution_def p10 p127 p192 p169 host p172
    by (auto simp: is_raw_ip_show_ipv4 show_ipv4_no_name Ipv4 simp del: show_ipv4.simps)
qed

text \<open>The first element of a list, as an option: the search of the header lines is one.\<close>

lemma first_append:
  "(case xs @ ys of [] \<Rightarrow> None | x # _ \<Rightarrow> Some x) =
   (case (case xs of [] \<Rightarrow> None | x # _ \<Rightarrow> Some x) of
      Some x \<Rightarrow> Some x | None \<Rightarrow> (case ys of [] \<Rightarrow> None | y # _ \<Rightarrow> Some y))"
  by (cases xs) simp_all

lemma extract_from_headers_eq:
  "extract_from_headers target headers =
     (case [ip. (name, val) \<leftarrow> headers, to_ascii_lowercase name = target,
               ip \<leftarrow> (case parse_IpAddr (trim (first_field (CHR '','') val)) of
                        None \<Rightarrow> [] | Some ip \<Rightarrow> [ip])]
      of [] \<Rightarrow> None | ip # _ \<Rightarrow> Some ip)"
  by (induction target headers rule: extract_from_headers.induct) (auto split: option.splits)

section \<open>Properties\<close>

text \<open>C22. The egress policy, address range by address range: the unspecified addresses are always
  refused; loopback addresses exactly when loopback is not allowed; RFC 1918, link-local and IPv6
  unique-local addresses exactly when private addresses are not allowed; and the IPv4-mapped IPv6 form
  of an address is treated as the address itself.\<close>

theorem egress_policy:
  "(is_ip_blocked (V4 (Ipv4 a b c d)) cfg \<longleftrightarrow>
      (a = 0 \<and> b = 0 \<and> c = 0 \<and> d = 0) \<or>
      (\<not> cfg_allow_loopback cfg \<and> a = 127) \<or>
      (\<not> cfg_allow_private_ips cfg \<and>
         (a = 10 \<or> (a = 172 \<and> 16 \<le> b \<and> b \<le> 31) \<or> (a = 192 \<and> b = 168) \<or> (a = 169 \<and> b = 254)))) \<and>
   is_ip_blocked (V6 (mapped v4)) cfg = is_ip_blocked (V4 v4) cfg \<and>
   (to_ipv4_mapped v6 = None \<longrightarrow>
      (is_ip_blocked (V6 v6) cfg \<longleftrightarrow>
         v6 = Ipv6 0 0 0 0 0 0 0 0 \<or>
         (\<not> cfg_allow_loopback cfg \<and> v6 = Ipv6 0 0 0 0 0 0 0 1) \<or>
         (\<not> cfg_allow_private_ips cfg \<and>
            (let s = v6_segments v6 ! 0
             in (0xfc00 \<le> s \<and> s \<le> 0xfdff) \<or> (0xfe80 \<le> s \<and> s \<le> 0xfebf)))))"
proof (intro conjI impI)
  show "is_ip_blocked (V4 (Ipv4 a b c d)) cfg \<longleftrightarrow>
      (a = 0 \<and> b = 0 \<and> c = 0 \<and> d = 0) \<or>
      (\<not> cfg_allow_loopback cfg \<and> a = 127) \<or>
      (\<not> cfg_allow_private_ips cfg \<and>
         (a = 10 \<or> (a = 172 \<and> 16 \<le> b \<and> b \<le> 31) \<or> (a = 192 \<and> b = 168) \<or> (a = 169 \<and> b = 254)))"
    by (auto simp: is_ip_blocked_def)
  show "is_ip_blocked (V6 (mapped v4)) cfg = is_ip_blocked (V4 v4) cfg"
    by (rule is_ip_blocked_mapped)
  assume "to_ipv4_mapped v6 = None"
  then show "is_ip_blocked (V6 v6) cfg \<longleftrightarrow>
         v6 = Ipv6 0 0 0 0 0 0 0 0 \<or>
         (\<not> cfg_allow_loopback cfg \<and> v6 = Ipv6 0 0 0 0 0 0 0 1) \<or>
         (\<not> cfg_allow_private_ips cfg \<and>
            (let s = v6_segments v6 ! 0
             in (0xfc00 \<le> s \<and> s \<le> 0xfdff) \<or> (0xfe80 \<le> s \<and> s \<le> 0xfebf)))"
    by (auto simp: is_ip_blocked_def v6_is_unspecified_def v6_is_loopback_def
        is_ipv6_unique_local_def is_ipv6_link_local_def segment_masks Let_def)
qed

theorem egress_policy_witness:
  "to_ipv4_mapped (Ipv6 0xfd00 0 0 0 0 0 0 1) = None \<and>
   is_ip_blocked (V6 (Ipv6 0xfd00 0 0 0 0 0 0 1))
     (ServerConfig_default\<lparr>cfg_allow_private_ips := False\<rparr>)"
proof -
  have none: "to_ipv4_mapped (Ipv6 0xfd00 0 0 0 0 0 0 1) = None"
    by simp
  show ?thesis
    using egress_policy [of 0 0 0 0 "ServerConfig_default\<lparr>cfg_allow_private_ips := False\<rparr>"
        "Ipv4 0 0 0 0" "Ipv6 0xfd00 0 0 0 0 0 0 1"] none
    by (simp add: ServerConfig_default_def)
qed

text \<open>C24. A literal IPv4 address as the CONNECT host is always recognised as a raw address.  The textual check before
  resolution refuses it exactly if raw addresses are not allowed, or loopback is not and it is a loopback
  address or 0.0.0.0, or private addresses are not and it is private or link-local.  So it differs from the
  address policy, which is applied after resolution, in two ways only: the policy alone refuses 0.0.0.0 where raw
  addresses and loopback are allowed, and the textual check alone refuses allowed addresses where raw ones are
  not.\<close>

theorem literal_ipv4_prechecked:
  "is_raw_ip (show_ipv4 v4) \<and>
   (is_hostname_blocked_pre_resolution (show_ipv4 v4) c \<longleftrightarrow>
      \<not> cfg_allow_direct_ip c \<or>
      (\<not> cfg_allow_loopback c \<and> (v4_is_loopback v4 \<or> v4 = Ipv4 0 0 0 0)) \<or>
      (\<not> cfg_allow_private_ips c \<and> (v4_is_private v4 \<or> v4_is_link_local v4))) \<and>
   (is_ip_blocked (V4 v4) c \<and> \<not> is_hostname_blocked_pre_resolution (show_ipv4 v4) c \<longleftrightarrow>
      v4 = Ipv4 0 0 0 0 \<and> cfg_allow_direct_ip c \<and> cfg_allow_loopback c) \<and>
   (is_hostname_blocked_pre_resolution (show_ipv4 v4) c \<and> \<not> is_ip_blocked (V4 v4) c \<longleftrightarrow>
      \<not> cfg_allow_direct_ip c \<and> \<not> is_ip_blocked (V4 v4) c)"
  unfolding pre_resolution_show_ipv4
  by (cases v4) (auto simp: is_raw_ip_show_ipv4 is_ip_blocked_def simp del: show_ipv4.simps)

theorem literal_ipv4_prechecked_witness:
  "cfg_allow_direct_ip ServerConfig_default \<and> cfg_allow_loopback ServerConfig_default \<and>
   is_ip_blocked (V4 (Ipv4 0 0 0 0)) ServerConfig_default \<and>
   \<not> is_hostname_blocked_pre_resolution (show_ipv4 (Ipv4 0 0 0 0)) ServerConfig_default"
proof -
  have "cfg_allow_direct_ip ServerConfig_default" "cfg_allow_loopback ServerConfig_default"
    by (simp_all add: ServerConfig_default_def)
  then show ?thesis
    using literal_ipv4_prechecked [of "Ipv4 0 0 0 0" ServerConfig_default] by blast
qed

text \<open>The real client address is the first one that parses, searching the configured headers in their
  priority order and, within one header name, the request's header lines in order.\<close>

lemma extract_real_ip_eq:
  "extract_real_ip headers targets =
     (case [ip. t \<leftarrow> targets, (name, val) \<leftarrow> headers,
               to_ascii_lowercase name = to_ascii_lowercase t,
               ip \<leftarrow> (case parse_IpAddr (trim (first_field (CHR '','') val)) of
                        None \<Rightarrow> [] | Some ip \<Rightarrow> [ip])]
      of [] \<Rightarrow> None | ip # _ \<Rightarrow> Some ip)"
proof (induction targets)
  case (Cons t targets)
  then show ?case
    by (simp add: extract_from_headers_eq first_append split: option.split)
qed simp

end
