(* ===== verification/Ws_Upgrade.thy ===== *)
theory Ws_Upgrade
  imports Ws_Reader Security
begin

text \<open>
  The HTTP upgrade of an accepted connection: \<^verbatim>\<open>src/ws/upgrade.rs\<close> and the request checks of
  \<^verbatim>\<open>vendor/fastwebsockets/src/upgrade.rs\<close>.

  The HTTP server (hyper) is outside the model: a connection is the list of requests it delivers to the
  service closure.  A \<^verbatim>\<open>HeaderMap\<close> is the list of its entries in iteration order, names in lower case.
  The hash, the base-64 encoder and \<^verbatim>\<open>HeaderValue::to_str\<close> are parameters, the record \<open>http\<close>.
\<close>

section \<open>Requests\<close>

type_synonym HeaderMap = "(string \<times> bytes) list"

record Request =
  rq_method :: string
  rq_path :: string
  rq_headers :: HeaderMap

record Response =
  rs_status :: nat
  rs_headers :: HeaderMap

record http =
  ht_sha1 :: "bytes \<Rightarrow> bytes"
  ht_base64 :: "bytes \<Rightarrow> bytes"
  ht_to_str :: "bytes \<Rightarrow> string option"

definition header_get :: "string \<Rightarrow> HeaderMap \<Rightarrow> bytes option" where
  "header_get name hs = map_of hs name"

definition header_get_all :: "string \<Rightarrow> HeaderMap \<Rightarrow> bytes list" where
  "header_get_all name hs = map snd (filter (\<lambda>(n, _). n = name) hs)"

definition header_remove :: "string \<Rightarrow> HeaderMap \<Rightarrow> HeaderMap" where
  "header_remove name hs = filter (\<lambda>(n, _). n \<noteq> name) hs"

definition header_insert :: "string \<Rightarrow> bytes \<Rightarrow> HeaderMap \<Rightarrow> HeaderMap" where
  "header_insert name v hs = header_remove name hs @ [(name, v)]"

text \<open>\<^verbatim>\<open>u8::is_ascii_whitespace\<close>, \<^verbatim>\<open>slice::split\<close> and \<^verbatim>\<open>eq_ignore_ascii_case\<close> of the standard library.\<close>

definition is_ascii_whitespace :: "u8 \<Rightarrow> bool" where
  "is_ascii_whitespace b \<longleftrightarrow> b = 0x20 \<or> b = 0x09 \<or> b = 0x0A \<or> b = 0x0C \<or> b = 0x0D"

fun split_at :: "u8 \<Rightarrow> bytes \<Rightarrow> bytes list" where
  "split_at sep [] = [[]]"
| "split_at sep (b # bs) =
     (if b = sep then [] # split_at sep bs
      else case split_at sep bs of [] \<Rightarrow> [[b]] | p # ps \<Rightarrow> (b # p) # ps)"

definition eq_ignore_ascii_case :: "bytes \<Rightarrow> bytes \<Rightarrow> bool" where
  "eq_ignore_ascii_case xs ys \<longleftrightarrow>
     to_ascii_lowercase (map char_of_byte xs) = to_ascii_lowercase (map char_of_byte ys)"

definition trim_start :: "bytes \<Rightarrow> bytes" where
  "trim_start data = dropWhile is_ascii_whitespace data"

definition trim_end :: "bytes \<Rightarrow> bytes" where
  "trim_end data = rev (dropWhile is_ascii_whitespace (rev data))"

definition trim_bytes :: "bytes \<Rightarrow> bytes" where
  "trim_bytes data = trim_end (trim_start data)"

definition header_contains_value :: "HeaderMap \<Rightarrow> string \<Rightarrow> bytes \<Rightarrow> bool" where
  "header_contains_value hs name val \<longleftrightarrow>
     list_ex (\<lambda>h. list_ex (\<lambda>x. eq_ignore_ascii_case (trim_bytes x) val) (split_at 0x2C h))
       (header_get_all name hs)"

definition is_upgrade_request :: "Request \<Rightarrow> bool" where
  "is_upgrade_request rq \<longleftrightarrow>
     header_contains_value (rq_headers rq) ''connection'' (as_bytes ''Upgrade'') \<and>
     header_contains_value (rq_headers rq) ''upgrade'' (as_bytes ''websocket'')"

definition sec_websocket_protocol :: "http \<Rightarrow> bytes \<Rightarrow> bytes" where
  "sec_websocket_protocol ht key =
     ht_base64 ht (ht_sha1 ht (key @ as_bytes ''258EAFA5-E914-47DA-95CA-C5AB0DC85B11''))"

definition upgrade :: "http \<Rightarrow> Request \<Rightarrow> WebSocketError + Response" where
  "upgrade ht rq =
     (case header_get ''sec-websocket-key'' (rq_headers rq) of
        None \<Rightarrow> Inl MissingSecWebSocketKey
      | Some key \<Rightarrow>
          if header_get ''sec-websocket-version'' (rq_headers rq) \<noteq> Some (as_bytes ''13'')
          then Inl InvalidSecWebsocketVersion
          else Inr \<lparr>rs_status = 101,
                 rs_headers = [(''connection'', as_bytes ''upgrade''), (''upgrade'', as_bytes ''websocket''),
                               (''sec-websocket-accept'', sec_websocket_protocol ht key)]\<rparr>)"

section \<open>The service\<close>

text \<open>What the closure sends through the one-shot channel, next to the upgrade future.\<close>

record Upgrade =
  up_is_v2 :: bool
  up_headers :: "(string \<times> string) list"

definition capture_headers :: "http \<Rightarrow> string list option \<Rightarrow> HeaderMap \<Rightarrow> (string \<times> string) list" where
  "capture_headers ht rip_headers hs =
     (case rip_headers of
        None \<Rightarrow> []
      | Some rip_hdrs \<Rightarrow>
          concat (map (\<lambda>target.
            concat (map (\<lambda>(name, val).
              if to_ascii_lowercase name = to_ascii_lowercase target
              then (case ht_to_str ht val of Some v \<Rightarrow> [(name, v)] | None \<Rightarrow> []) else []) hs)) rip_hdrs))"

text \<open>One request: whether the one-shot sender was still there decides if the upgrade is announced.\<close>

definition service :: "http \<Rightarrow> string list option \<Rightarrow> bool \<Rightarrow> Request \<Rightarrow> Response \<times> Upgrade option" where
  "service ht rip_headers tx rq =
     (if \<not> is_upgrade_request rq then
        (if rq_method rq = ''GET'' \<and> rq_path rq = ''/health''
         then (\<lparr>rs_status = 200, rs_headers = [(''content-type'', as_bytes ''application/json'')]\<rparr>, None)
         else (\<lparr>rs_status = 200, rs_headers = []\<rparr>, None))
      else
        let requested_protocol = header_get ''sec-websocket-protocol'' (rq_headers rq);
            is_v2 = (requested_protocol \<noteq> None);
            captured = capture_headers ht rip_headers (rq_headers rq)
        in case upgrade ht rq of
             Inl e \<Rightarrow> (\<lparr>rs_status = 400, rs_headers = []\<rparr>, None)
           | Inr response \<Rightarrow>
               let hs = (case requested_protocol of
                           Some protocol \<Rightarrow> header_insert ''sec-websocket-protocol'' protocol (rs_headers response)
                         | None \<Rightarrow> rs_headers response);
                   hs = header_remove ''sec-websocket-extensions'' hs
               in (response\<lparr>rs_headers := hs\<rparr>,
                   if tx then Some \<lparr>up_is_v2 = is_v2, up_headers = captured\<rparr> else None))"

text \<open>
  The requests of a connection: the first one takes the sender out of its cell, whatever it is, so only
  the first can announce an upgrade; the receiver fails once the sender is dropped unused.
\<close>

definition serve_connection ::
  "http \<Rightarrow> string list option \<Rightarrow> Request list \<Rightarrow> Response list \<times> Upgrade option" where
  "serve_connection ht rip rqs =
     (case rqs of
        [] \<Rightarrow> ([], None)
      | rq # rest \<Rightarrow>
          (case service ht rip True rq of (response, announced) \<Rightarrow>
             (response # map (\<lambda>r. fst (service ht rip False r)) rest, announced)))"

datatype WsUpgradeError = UpgradeIo ErrorKind | UpgradeFailed | UpgradeHyper | UpgradeWebSocket WebSocketError

record UpgradeResult =
  ur_read :: ReadHalf
  ur_write :: WriteHalf
  ur_is_v2 :: bool
  ur_headers :: "(string \<times> string) list"

text \<open>
  \<^verbatim>\<open>handle_ws_upgrade\<close>; \<open>nodelay\<close> is the result of \<^verbatim>\<open>set_nodelay\<close> and \<open>upgraded\<close> that of awaiting the upgrade
  future, which fails only when hyper does.
\<close>

definition handle_ws_upgrade ::
  "http \<Rightarrow> ServerConfig \<Rightarrow> unit io_result \<Rightarrow> Request list \<Rightarrow> (WebSocketError + unit) \<Rightarrow>
   Response list \<times> (WsUpgradeError + UpgradeResult)" where
  "handle_ws_upgrade ht config nodelay rqs upgraded =
     (case nodelay of
        Inl e \<Rightarrow> ([], Inl (UpgradeIo e))
      | Inr _ \<Rightarrow>
          let real_ip_headers = (if cfg_real_ip_enabled config then Some (cfg_real_ip_headers config) else None)
          in case serve_connection ht real_ip_headers rqs of
               (responses, None) \<Rightarrow> (responses, Inl UpgradeFailed)
             | (responses, Some up) \<Rightarrow>
                 (responses,
                  case upgraded of
                    Inl e \<Rightarrow> Inl (UpgradeWebSocket e)
                  | Inr _ \<Rightarrow>
                      Inr \<lparr>ur_read = set_auto_close False (ReadHalf_after_handshake Server),
                           ur_write = set_writev True (WriteHalf_after_handshake Server),
                           ur_is_v2 = up_is_v2 up, ur_headers = up_headers up\<rparr>))"

section \<open>Lemmas\<close>

definition acceptable :: "Request \<Rightarrow> bool" where
  "acceptable rq \<longleftrightarrow> is_upgrade_request rq \<and>
     header_get ''sec-websocket-key'' (rq_headers rq) \<noteq> None \<and>
     header_get ''sec-websocket-version'' (rq_headers rq) = Some (as_bytes ''13'')"

lemma header_get_remove:
  "header_get n (header_remove m hs) = (if n = m then None else header_get n hs)"
  by (induction hs) (auto simp: header_get_def header_remove_def)

lemma header_get_insert:
  "header_get n (header_insert m v hs) = (if n = m then Some v else header_get n hs)"
proof -
  have "header_get n (hs @ [(m, v)]) = (case header_get n hs of Some x \<Rightarrow> Some x | None \<Rightarrow> if n = m then Some v else None)"
    for hs by (simp add: header_get_def map_add_def split: option.split)
  then show ?thesis
    by (simp add: header_insert_def header_get_remove split: option.split)
qed

text \<open>The answer to a request and the announcement, by whether the request can be upgraded.\<close>

lemma service_acceptable:
  assumes "acceptable rq" "service ht rip tx rq = (rs, up)"
  shows "rs_status rs = 101"
    and "header_get ''sec-websocket-accept'' (rs_headers rs) =
      map_option (sec_websocket_protocol ht) (header_get ''sec-websocket-key'' (rq_headers rq))"
    and "header_get ''sec-websocket-protocol'' (rs_headers rs) = header_get ''sec-websocket-protocol'' (rq_headers rq)"
    and "header_get ''sec-websocket-extensions'' (rs_headers rs) = None"
    and "up = (if tx then Some \<lparr>up_is_v2 = (header_get ''sec-websocket-protocol'' (rq_headers rq) \<noteq> None),
           up_headers = capture_headers ht rip (rq_headers rq)\<rparr> else None)"
  using assms
  by (auto simp: acceptable_def service_def upgrade_def Let_def header_get_remove header_get_insert
      split: option.splits) (simp_all add: header_get_def)

lemma service_refused:
  "\<not> acceptable rq \<Longrightarrow> snd (service ht rip tx rq) = None \<and> rs_status (fst (service ht rip tx rq)) = (if is_upgrade_request rq then 400 else 200)"
  by (auto simp: acceptable_def service_def upgrade_def Let_def split: option.splits)

lemma handle_ws_upgrade_Inr:
  assumes "handle_ws_upgrade ht config nodelay rqs upgraded = (responses, Inr ur)"
  obtains rq rest where "rqs = rq # rest" "acceptable rq"
    "ur = \<lparr>ur_read = set_auto_close False (ReadHalf_after_handshake Server),
           ur_write = set_writev True (WriteHalf_after_handshake Server),
           ur_is_v2 = (header_get ''sec-websocket-protocol'' (rq_headers rq) \<noteq> None),
           ur_headers = capture_headers ht (if cfg_real_ip_enabled config then Some (cfg_real_ip_headers config) else None)
             (rq_headers rq)\<rparr>"
proof -
  let ?rip = "if cfg_real_ip_enabled config then Some (cfg_real_ip_headers config) else None"
  from assms obtain up where "serve_connection ht ?rip rqs = (responses, Some up)"
    and ur: "ur = \<lparr>ur_read = set_auto_close False (ReadHalf_after_handshake Server),
        ur_write = set_writev True (WriteHalf_after_handshake Server), ur_is_v2 = up_is_v2 up, ur_headers = up_headers up\<rparr>"
    unfolding handle_ws_upgrade_def Let_def by (auto split: sum.splits prod.splits option.splits)
  then obtain rq rest rs where rqs: "rqs = rq # rest" and s: "service ht ?rip True rq = (rs, Some up)"
    unfolding serve_connection_def by (auto split: list.splits prod.splits)
  have acc: "acceptable rq"
    using service_refused [of rq ht ?rip True] s by force
  from that [OF rqs acc] ur service_acceptable(5) [OF acc s] show ?thesis
    by simp
qed

definition text_headers :: "http \<Rightarrow> HeaderMap \<Rightarrow> (string \<times> string) list" where
  "text_headers ht hs =
     concat (map (\<lambda>(name, val). case ht_to_str ht val of Some v \<Rightarrow> [(name, v)] | None \<Rightarrow> []) hs)"

definition named :: "string \<Rightarrow> (string \<times> string) list \<Rightarrow> (string \<times> string) list" where
  "named target hs = filter (\<lambda>(n, _). to_ascii_lowercase n = to_ascii_lowercase target) hs"

lemma capture_headers_eq:
  "capture_headers ht (Some targets) hs = concat (map (\<lambda>t. named t (text_headers ht hs)) targets)"
proof -
  have "concat (map (\<lambda>(name, val). if to_ascii_lowercase name = to_ascii_lowercase t
      then (case ht_to_str ht val of Some v \<Rightarrow> [(name, v)] | None \<Rightarrow> []) else []) hs) = named t (text_headers ht hs)" for t
    by (induction hs) (auto simp: named_def text_headers_def split: option.splits)
  then show ?thesis
    by (simp add: capture_headers_def)
qed

lemma extract_append:
  "extract_from_headers t (xs @ ys) =
     (case extract_from_headers t xs of Some ip \<Rightarrow> Some ip | None \<Rightarrow> extract_from_headers t ys)"
  by (induction xs) (auto split: option.splits)

text \<open>Among the captured lines, those of a wanted name are copies of the lines of that name.\<close>

lemma extract_captured:
  "extract_from_headers (to_ascii_lowercase t) (capture_headers ht (Some targets) hs) =
     (if to_ascii_lowercase t \<in> to_ascii_lowercase ` set targets
      then extract_from_headers (to_ascii_lowercase t) (text_headers ht hs) else None)"
proof (induction targets)
  case (Cons u us)
  have same: "extract_from_headers (to_ascii_lowercase t) (named u xs) =
      (if to_ascii_lowercase t = to_ascii_lowercase u
       then extract_from_headers (to_ascii_lowercase t) xs else None)" for xs
    by (induction xs) (auto simp: named_def split: option.splits)
  with Cons.IH show ?case
    unfolding capture_headers_eq by (auto simp: extract_append same split: option.splits)
qed (simp add: capture_headers_eq)

lemma extract_real_ip_cong:
  "(\<And>t. t \<in> set ts \<Longrightarrow> extract_from_headers (to_ascii_lowercase t) hs = extract_from_headers (to_ascii_lowercase t) gs) \<Longrightarrow>
   extract_real_ip hs ts = extract_real_ip gs ts"
  by (induction ts) (auto split: option.split)

section \<open>Properties\<close>

text \<open>C35. The first request decides the upgrade.  If it asks for a WebSocket, carries a key and version 13, the
  answer is a 101 with the accept key, the requested subprotocol echoed and no extension, and the result is
  a server-side WebSocket, marked v2 exactly if a subprotocol was requested; any other first request is
  answered with 200 or 400 and the connection is given up.  The HTTP server goes on answering: a later upgrade
  request is told 101 all the same and never served.\<close>

theorem upgrade_decided_by_first_request:
  assumes "handle_ws_upgrade ht config (Inr ()) (rq # rest) (Inr ()) = (responses, r)"
  shows "length responses = Suc (length rest) \<and>
     (\<forall>i < length rest. acceptable (rest ! i) \<longrightarrow> rs_status (responses ! Suc i) = 101) \<and>
     (if acceptable rq
      then rs_status (hd responses) = 101 \<and>
           header_get ''sec-websocket-accept'' (rs_headers (hd responses)) =
             map_option (sec_websocket_protocol ht) (header_get ''sec-websocket-key'' (rq_headers rq)) \<and>
           header_get ''sec-websocket-protocol'' (rs_headers (hd responses)) =
             header_get ''sec-websocket-protocol'' (rq_headers rq) \<and>
           header_get ''sec-websocket-extensions'' (rs_headers (hd responses)) = None \<and>
           (\<exists>ur. r = Inr ur \<and> ur_is_v2 ur = (header_get ''sec-websocket-protocol'' (rq_headers rq) \<noteq> None) \<and>
              rh_role (ur_read ur) = Server \<and> \<not> rh_auto_close (ur_read ur) \<and> wh_role (ur_write ur) = Server)
      else rs_status (hd responses) = (if is_upgrade_request rq then 400 else 200) \<and> r = Inl UpgradeFailed)"
proof -
  let ?rip = "if cfg_real_ip_enabled config then Some (cfg_real_ip_headers config) else None"
  obtain rs up where s: "service ht ?rip True rq = (rs, up)"
    by fastforce
  have len: "length responses = Suc (length rest)" "hd responses = rs"
    and later: "responses = rs # map (\<lambda>r. fst (service ht ?rip False r)) rest"
    and r: "r = (case up of None \<Rightarrow> Inl UpgradeFailed
      | Some u \<Rightarrow> Inr \<lparr>ur_read = set_auto_close False (ReadHalf_after_handshake Server),
                      ur_write = set_writev True (WriteHalf_after_handshake Server),
                      ur_is_v2 = up_is_v2 u, ur_headers = up_headers u\<rparr>)"
    using assms s unfolding handle_ws_upgrade_def serve_connection_def Let_def
    by (cases up; simp; fastforce)+
  have told: "rs_status (responses ! Suc i) = 101" if "i < length rest" "acceptable (rest ! i)" for i
    using service_acceptable(1) [OF that(2), of ht ?rip False] that(1) unfolding later by (simp add: prod_eq_iff)
  show ?thesis
  proof (cases "acceptable rq")
    case True
    with service_acceptable [OF True s] len r told show ?thesis
      by (simp add: ReadHalf_after_handshake_def WriteHalf_after_handshake_def)
  next
    case False
    with service_refused [OF False, of ht ?rip True] s len r told show ?thesis
      by simp
  qed
qed

definition sample_http :: http where
  "sample_http = \<lparr>ht_sha1 = take 2, ht_base64 = rev, ht_to_str = from_utf8\<rparr>"

definition sample_request :: Request where
  "sample_request = \<lparr>rq_method = ''GET'', rq_path = ''/'',
     rq_headers = [(''connection'', as_bytes ''keep-alive, Upgrade''), (''upgrade'', as_bytes ''WebSocket''),
       (''sec-websocket-key'', as_bytes ''k''), (''sec-websocket-version'', as_bytes ''13''),
       (''sec-websocket-protocol'', as_bytes ''wisp-v2'')]\<rparr>"

definition health_request :: Request where
  "health_request = \<lparr>rq_method = ''GET'', rq_path = ''/health'', rq_headers = []\<rparr>"

lemma sample_acceptable: "acceptable sample_request" "\<not> is_upgrade_request health_request"
  "header_get ''sec-websocket-protocol'' (rq_headers sample_request) \<noteq> None"
  by code_simp+

theorem upgrade_decided_by_first_request_witness:
  "(\<exists>responses ur. handle_ws_upgrade sample_http ServerConfig_default (Inr ()) [sample_request] (Inr ()) =
      (responses, Inr ur) \<and> rs_status (hd responses) = 101 \<and> ur_is_v2 ur) \<and>
   (\<exists>responses. handle_ws_upgrade sample_http ServerConfig_default (Inr ()) [health_request, sample_request] (Inr ()) =
      (responses, Inl UpgradeFailed) \<and> rs_status (hd responses) = 200 \<and> rs_status (responses ! 1) = 101)"
proof (rule conjI, goal_cases)
  case 1
  obtain responses r where "handle_ws_upgrade sample_http ServerConfig_default (Inr ()) [sample_request] (Inr ()) = (responses, r)"
    by fastforce
  with upgrade_decided_by_first_request [OF this] sample_acceptable show ?case
    by auto
next
  case 2
  obtain responses r where
    "handle_ws_upgrade sample_http ServerConfig_default (Inr ()) [health_request, sample_request] (Inr ()) = (responses, r)"
    by fastforce
  with upgrade_decided_by_first_request [OF this] sample_acceptable show ?case
    by (auto simp: acceptable_def)
qed

text \<open>C36. The real client address: capturing only the configured header names during the upgrade loses nothing, and
  the address found in the captured lines is the first one that parses, searching the configured headers in
  their priority order and, within one header name, all the request's header lines with a textual value in order.\<close>

theorem real_ip_first_valid:
  "extract_real_ip (capture_headers ht (Some targets) hs) targets =
     (case [ip. t \<leftarrow> targets, (name, val) \<leftarrow> text_headers ht hs,
               to_ascii_lowercase name = to_ascii_lowercase t,
               ip \<leftarrow> (case parse_IpAddr (trim (first_field (CHR '','') val)) of
                        None \<Rightarrow> [] | Some ip \<Rightarrow> [ip])]
      of [] \<Rightarrow> None | ip # _ \<Rightarrow> Some ip)"
  unfolding extract_real_ip_eq [symmetric] by (rule extract_real_ip_cong) (simp add: extract_captured)

end
