(* ===== verification/Wisp_Frame.thy ===== *)
theory Wisp_Frame
  imports Protocol_Types
begin

text \<open>
  Wisp frame parsing and construction, \<^verbatim>\<open>src/protocol/frame.rs\<close>.  The parser and the builders are
  translated as written; \<open>wire\<close> is the reference wire format of a frame, against which both are
  proved correct: every builder produces the wire format, the parser inverts it, and whatever the
  parser accepts starts with the wire format of the frame it returns.
\<close>

datatype WispFrame =
    Connect u32 ConnectPayload
  | Data u32 bytes
  | Continue u32 u32
  | Close u32 CloseReason
  | Info u32 u8 u8 "ExtensionEntry list"

section \<open>Parsing\<close>

definition parse_connect_payload :: "bytes \<Rightarrow> ConnectPayload option" where
  "parse_connect_payload payload =
     (if length payload < 4 then None
      else case StreamType_from_byte (payload ! 0) of
        None \<Rightarrow> None
      | Some stream_type \<Rightarrow>
          let port = u16_from_le_bytes [payload ! 1, payload ! 2];
              hostname_bytes = drop 3 payload
          in if length hostname_bytes > 253 then None
             else case from_utf8 hostname_bytes of
                 None \<Rightarrow> None
               | Some hostname \<Rightarrow>
                   Some \<lparr>cp_stream_type = stream_type, cp_port = port, cp_hostname = hostname\<rparr>)"

definition parse_connect :: "u32 \<Rightarrow> bytes \<Rightarrow> WispFrame option" where
  "parse_connect stream_id payload =
     (if length payload < 4 then None
      else case StreamType_from_byte (payload ! 0) of
        None \<Rightarrow> None
      | Some stream_type \<Rightarrow>
          let port = u16_from_le_bytes [payload ! 1, payload ! 2];
              hostname_bytes = drop 3 payload
          in if length hostname_bytes > 253 then None
             else case from_utf8 hostname_bytes of
                 None \<Rightarrow> None
               | Some hostname \<Rightarrow>
                   Some (Connect stream_id
                     \<lparr>cp_stream_type = stream_type, cp_port = port, cp_hostname = hostname\<rparr>))"

definition parse_continue :: "u32 \<Rightarrow> bytes \<Rightarrow> WispFrame option" where
  "parse_continue stream_id payload =
     (if length payload < 4 then None
      else Some (Continue stream_id
        (u32_from_le_bytes [payload ! 0, payload ! 1, payload ! 2, payload ! 3])))"

definition parse_close :: "u32 \<Rightarrow> bytes \<Rightarrow> WispFrame option" where
  "parse_close stream_id payload =
     (if payload = [] then None
      else Some (Close stream_id (CloseReason_from_byte (payload ! 0))))"

text \<open>The \<^verbatim>\<open>while data.len() >= 5\<close> loop; every iteration drops at least the five header bytes.\<close>

function parse_extensions :: "bytes \<Rightarrow> ExtensionEntry list" where
  "parse_extensions data =
     (if length data \<ge> 5 then
        let id = data ! 0;
            len = unat (u32_from_le_bytes [data ! 1, data ! 2, data ! 3, data ! 4]);
            data' = drop 5 data
        in if length data' < len then []
           else \<lparr>ext_id = id, ext_payload = take len data'\<rparr> # parse_extensions (drop len data')
      else [])"
  by pat_completeness auto
termination
  by (relation "measure length") auto

declare parse_extensions.simps [simp del]

definition parse_info :: "u32 \<Rightarrow> bytes \<Rightarrow> WispFrame option" where
  "parse_info stream_id payload =
     (if length payload < 2 then None
      else Some (Info stream_id (payload ! 0) (payload ! 1) (parse_extensions (drop 2 payload))))"

definition parse_wisp_frame :: "bytes \<Rightarrow> WispFrame option" where
  "parse_wisp_frame data =
     (if length data < WISP_HEADER_SIZE then None
      else
        let packet_type = data ! 0;
            stream_id = u32_from_le_bytes [data ! 1, data ! 2, data ! 3, data ! 4];
            payload = drop WISP_HEADER_SIZE data
        in if packet_type = PACKET_DATA then Some (Data stream_id payload)
           else if packet_type = PACKET_CONNECT then parse_connect stream_id payload
           else if packet_type = PACKET_CONTINUE then parse_continue stream_id payload
           else if packet_type = PACKET_CLOSE then parse_close stream_id payload
           else if packet_type = PACKET_INFO then parse_info stream_id payload
           else None)"

section \<open>Construction\<close>

definition build_data_header :: "u32 \<Rightarrow> bytes" where
  "build_data_header stream_id =
     (let id_bytes = u32_to_le_bytes stream_id
      in [PACKET_DATA, id_bytes ! 0, id_bytes ! 1, id_bytes ! 2, id_bytes ! 3])"

definition build_continue_frame :: "u32 \<Rightarrow> u32 \<Rightarrow> bytes" where
  "build_continue_frame stream_id buffer_remaining =
     (let id_bytes = u32_to_le_bytes stream_id;
          buf_bytes = u32_to_le_bytes buffer_remaining
      in [PACKET_CONTINUE, id_bytes ! 0, id_bytes ! 1, id_bytes ! 2, id_bytes ! 3,
          buf_bytes ! 0, buf_bytes ! 1, buf_bytes ! 2, buf_bytes ! 3])"

definition build_close_frame :: "u32 \<Rightarrow> CloseReason \<Rightarrow> bytes" where
  "build_close_frame stream_id reason =
     (let id_bytes = u32_to_le_bytes stream_id
      in [PACKET_CLOSE, id_bytes ! 0, id_bytes ! 1, id_bytes ! 2, id_bytes ! 3,
          CloseReason_as_byte reason])"

text \<open>\<^verbatim>\<open>ext.payload.len() as u32\<close> truncates modulo $2^{32}$, as \<^const>\<open>of_nat\<close> does.\<close>

definition build_server_info_frame :: "ExtensionEntry list \<Rightarrow> bytes" where
  "build_server_info_frame extensions =
     [PACKET_INFO] @ u32_to_le_bytes STREAM_ID_CONTROL @ [WISP_VERSION_MAJOR, WISP_VERSION_MINOR]
     @ concat (map (\<lambda>e. [ext_id e] @ u32_to_le_bytes (of_nat (length (ext_payload e))) @ ext_payload e)
         extensions)"

definition build_initial_continue_frame :: "u32 \<Rightarrow> bytes" where
  "build_initial_continue_frame buffer_size = build_continue_frame STREAM_ID_CONTROL buffer_size"

section \<open>The wire format\<close>

definition wire_ext :: "ExtensionEntry \<Rightarrow> bytes" where
  "wire_ext e = ext_id e # u32_to_le_bytes (of_nat (length (ext_payload e))) @ ext_payload e"

fun wire :: "WispFrame \<Rightarrow> bytes" where
  "wire (Connect sid c) =
     0x01 # u32_to_le_bytes sid @ StreamType_as_byte (cp_stream_type c) # u16_to_le_bytes (cp_port c)
       @ as_bytes (cp_hostname c)"
| "wire (Data sid d) = 0x02 # u32_to_le_bytes sid @ d"
| "wire (Continue sid n) = 0x03 # u32_to_le_bytes sid @ u32_to_le_bytes n"
| "wire (Close sid r) = 0x04 # u32_to_le_bytes sid @ [CloseReason_as_byte r]"
| "wire (Info sid major minor exts) =
     0x05 # u32_to_le_bytes sid @ [major, minor] @ concat (map wire_ext exts)"

definition ext_ok :: "ExtensionEntry \<Rightarrow> bool" where
  "ext_ok e \<longleftrightarrow> length (ext_payload e) < 2 ^ 32"

fun wire_ok :: "WispFrame \<Rightarrow> bool" where
  "wire_ok (Connect sid c) \<longleftrightarrow>
     1 \<le> length (cp_hostname c) \<and> length (cp_hostname c) \<le> 253 \<and> utf8_valid (as_bytes (cp_hostname c))"
| "wire_ok (Info sid major minor exts) \<longleftrightarrow> list_all ext_ok exts"
| "wire_ok _ \<longleftrightarrow> True"

section \<open>Lemmas\<close>

text \<open>Reading the four bytes of a little-endian word one by one, as the parsers do.\<close>

lemma u32_le_read4 [codec, simp]:
  "u32_from_le_bytes [(u32_to_le_bytes w @ r) ! 0, (u32_to_le_bytes w @ r) ! Suc 0,
     (u32_to_le_bytes w @ r) ! 2, (u32_to_le_bytes w @ r) ! 3] = w"
  "u32_from_le_bytes [u32_to_le_bytes w ! 0, u32_to_le_bytes w ! Suc 0,
     u32_to_le_bytes w ! 2, u32_to_le_bytes w ! 3] = w"
  using list4_nth [of "u32_to_le_bytes w"] by (simp_all add: nth_append u32_le_roundtrip)

lemma u16_le_read2 [codec, simp]:
  "u16_from_le_bytes [(u16_to_le_bytes w @ r) ! 0, (u16_to_le_bytes w @ r) ! Suc 0] = w"
  using list2_nth [of "u16_to_le_bytes w"] by (simp add: nth_append u16_le_roundtrip)

lemma u32_to_le_bytes_list [codec]:
  "[u32_to_le_bytes w ! 0, u32_to_le_bytes w ! Suc 0, u32_to_le_bytes w ! 2, u32_to_le_bytes w ! 3]
     = u32_to_le_bytes w"
  by (rule list4_nth) simp

text \<open>The parser on a frame written as type byte, stream id, payload.\<close>

lemma parse_wisp_frame_split:
  "parse_wisp_frame (t # u32_to_le_bytes sid @ p) =
     (if t = 2 then Some (Data sid p) else if t = 1 then parse_connect sid p
      else if t = 3 then parse_continue sid p else if t = 4 then parse_close sid p
      else if t = 5 then parse_info sid p else None)"
  unfolding parse_wisp_frame_def
  by simp

lemma parse_extensions_append:
  assumes "ext_ok e"
  shows "parse_extensions (wire_ext e @ rest) = e # parse_extensions rest"
proof -
  have "unat (of_nat (length (ext_payload e)) :: u32) = length (ext_payload e)"
    using assms by (simp add: ext_ok_def unat_of_nat)
  then show ?thesis
    by (subst parse_extensions.simps) (simp add: wire_ext_def Let_def)
qed

lemma parse_extensions_concat:
  "list_all ext_ok exts \<Longrightarrow>
   parse_extensions (concat (map wire_ext exts) @ rest) = exts @ parse_extensions rest"
  by (induction exts) (simp_all add: parse_extensions_append)

lemma parse_extensions_short [simp]: "length data < 5 \<Longrightarrow> parse_extensions data = []"
  by (subst parse_extensions.simps) simp


lemma parse_connect_wire:
  assumes "wire_ok (Connect sid c)"
  shows "parse_connect sid (StreamType_as_byte (cp_stream_type c) # u16_to_le_bytes (cp_port c)
           @ as_bytes (cp_hostname c)) = Some (Connect sid c)"
  using assms by (auto simp: parse_connect_def from_utf8_as_bytes Let_def)

lemma parse_wire: "wire_ok f \<Longrightarrow> parse_wisp_frame (wire f) = Some f"
proof (cases f)
  case (Connect sid c)
  moreover assume "wire_ok f"
  ultimately show ?thesis
    using parse_connect_wire [of sid c] by (simp add: parse_wisp_frame_split)
next
  case (Info sid major minor exts)
  moreover assume "wire_ok f"
  ultimately show ?thesis
    using parse_extensions_concat [of exts "[]"] by (simp add: parse_wisp_frame_split parse_info_def)
qed (simp_all add: parse_wisp_frame_split parse_continue_def parse_close_def)

lemma build_wire [codec]:
  "build_data_header sid @ d = wire (Data sid d)"
  "build_continue_frame sid n = wire (Continue sid n)"
  "build_close_frame sid r = wire (Close sid r)"
  "build_initial_continue_frame n = wire (Continue 0 n)"
  "build_server_info_frame exts = wire (Info 0 2 1 exts)"
  by (simp_all add: build_data_header_def build_continue_frame_def build_close_frame_def
      build_initial_continue_frame_def build_server_info_frame_def wire_ext_def [abs_def] u32_to_le_bytes_list
      Let_def)

text \<open>Conversely, a byte string of at least five bytes is a type byte, a stream id and a payload.\<close>

lemma header_split:
  assumes "5 \<le> length data"
  shows "data = data ! 0 # u32_to_le_bytes
           (u32_from_le_bytes [data ! 1, data ! 2, data ! 3, data ! 4]) @ drop 5 data"
proof -
  from assms obtain t a b c d r where "data = t # a # b # c # d # r"
    by (auto simp: Suc_le_length_iff eval_nat_numeral)
  then show ?thesis
    by (simp add: to_bytes_from_bytes)
qed

lemma parse_extensions_sound:
  "list_all ext_ok (parse_extensions data) \<and>
   (\<exists>rest. data = concat (map wire_ext (parse_extensions data)) @ rest)"
proof (induction data rule: parse_extensions.induct)
  case (1 data)
  let ?len = "unat (u32_from_le_bytes [data ! 1, data ! 2, data ! 3, data ! 4])"
  show ?case
  proof (cases "5 \<le> length data \<and> ?len \<le> length (drop 5 data)")
    case True
    let ?e = "\<lparr>ext_id = data ! 0, ext_payload = take ?len (drop 5 data)\<rparr>"
    let ?next = "drop ?len (drop 5 data)"
    have unfold: "parse_extensions data = ?e # parse_extensions ?next"
      using True by (subst parse_extensions.simps) (simp add: Let_def)
    have len: "length (ext_payload ?e) = ?len"
      using True by simp
    then have ok: "ext_ok ?e"
      by (simp add: ext_ok_def)
    have data: "data = wire_ext ?e @ ?next"
      using header_split [of data] True len by (simp add: wire_ext_def del: drop_drop)
    obtain rest where
      next_eq: "?next = concat (map wire_ext (parse_extensions ?next)) @ rest"
      and next_ok: "list_all ext_ok (parse_extensions ?next)"
      using "1.IH" [OF _ refl refl refl] True by auto
    from data have "data = wire_ext ?e @ concat (map wire_ext (parse_extensions ?next)) @ rest"
      by (subst (asm) next_eq)
    with ok next_ok show ?thesis
      unfolding unfold by (simp only: list.pred_inject list.map concat.simps append_assoc) blast
  next
    case False
    then have "parse_extensions data = []"
      by (subst parse_extensions.simps) (auto simp: Let_def)
    then show ?thesis by simp
  qed
qed

lemma parse_connect_payload_sound:
  assumes "parse_connect_payload p = Some c"
  shows "p = StreamType_as_byte (cp_stream_type c) # u16_to_le_bytes (cp_port c)
           @ as_bytes (cp_hostname c)"
    and "wire_ok (Connect sid c)"
proof -
  have "4 \<le> length p"
    using assms by (auto simp: parse_connect_payload_def split: if_splits)
  then obtain t a b r where p: "p = t # a # b # r" and "r \<noteq> []"
    by (auto simp: Suc_le_length_iff eval_nat_numeral)
  moreover have "u16_to_le_bytes (u16_from_le_bytes [a, b]) = [a, b]"
    by (simp add: to_bytes_from_bytes)
  ultimately show "p = StreamType_as_byte (cp_stream_type c) # u16_to_le_bytes (cp_port c)
           @ as_bytes (cp_hostname c)"
    and "wire_ok (Connect sid c)"
    using assms
    by (auto simp: parse_connect_payload_def Let_def from_utf8_def as_bytes_def comp_def Suc_le_eq
        dest: StreamType_from_byte_Some split: if_splits option.splits)
qed

lemma parse_connect_eq:
  "parse_connect sid p = map_option (Connect sid) (parse_connect_payload p)"
  by (simp add: parse_connect_def parse_connect_payload_def Let_def split: option.splits)

text \<open>
  A frame the parser accepts is well formed and the input starts with its wire format; the one
  exception is a CLOSE whose reason byte is not a code of the protocol, which reads as \<^const>\<open>Unknown\<close>.
\<close>

definition unknown_close :: "bytes \<Rightarrow> WispFrame \<Rightarrow> bool" where
  "unknown_close data f \<longleftrightarrow>
     (\<exists>sid b rest. data = 0x04 # u32_to_le_bytes sid @ b # rest \<and> f = Close sid Unknown
        \<and> (\<forall>r. CloseReason_as_byte r \<noteq> b))"

lemma parse_wisp_frame_sound:
  assumes "parse_wisp_frame data = Some f"
  shows "wire_ok f \<and> (unknown_close data f \<or> (\<exists>rest. data = wire f @ rest))"
proof -
  define sid where "sid = u32_from_le_bytes [data ! 1, data ! 2, data ! 3, data ! 4]"
  define p where "p = drop 5 data"
  have "5 \<le> length data"
    using assms by (auto simp: parse_wisp_frame_def split: if_splits)
  with header_split [of data] obtain t where data: "data = t # u32_to_le_bytes sid @ p"
    by (auto simp: sid_def p_def)
  consider "t = 2" "f = Data sid p" | "t = 1" "parse_connect sid p = Some f"
    | "t = 3" "parse_continue sid p = Some f" | "t = 4" "parse_close sid p = Some f"
    | "t = 5" "parse_info sid p = Some f"
    using assms unfolding data parse_wisp_frame_split by (auto split: if_splits)
  then show ?thesis
  proof cases
    case 2
    then obtain c where "parse_connect_payload p = Some c" "f = Connect sid c"
      by (auto simp: parse_connect_eq)
    with 2 parse_connect_payload_sound [of p c] show ?thesis
      by (auto simp: data)
  next
    case 3
    then have "4 \<le> length p"
      by (auto simp: parse_continue_def split: if_splits)
    then obtain a b c d r where "p = [a, b, c, d] @ r"
      by (auto simp: Suc_le_length_iff eval_nat_numeral)
    with 3 show ?thesis
      by (auto simp: data parse_continue_def to_bytes_from_bytes)
  next
    case 4
    then obtain b r where "p = b # r" "f = Close sid (CloseReason_from_byte b)"
      by (cases p) (auto simp: parse_close_def)
    with 4 CloseReason_as_from_byte [of b] show ?thesis
      by (auto simp: data unknown_close_def)
  next
    case 5
    then obtain a b r where "p = a # b # r"
      by (cases p; cases "tl p") (auto simp: parse_info_def split: if_splits)
    with 5 parse_extensions_sound [of r] show ?thesis
      by (auto simp: data parse_info_def)
  qed (auto simp: data)
qed

section \<open>Properties\<close>

text \<open>C8. Every frame the server builds is read back by the parser as the frame it stands for, and the
  parser inverts the wire format of every well-formed frame.\<close>

theorem wisp_frames_roundtrip:
  "(wire_ok f \<longrightarrow> parse_wisp_frame (wire f) = Some f) \<and>
   parse_wisp_frame (build_data_header sid @ payload) = Some (Data sid payload) \<and>
   parse_wisp_frame (build_continue_frame sid n) = Some (Continue sid n) \<and>
   parse_wisp_frame (build_close_frame sid r) = Some (Close sid r) \<and>
   parse_wisp_frame (build_initial_continue_frame n) = Some (Continue STREAM_ID_CONTROL n) \<and>
   (list_all ext_ok exts \<longrightarrow>
      parse_wisp_frame (build_server_info_frame exts) =
        Some (Info STREAM_ID_CONTROL WISP_VERSION_MAJOR WISP_VERSION_MINOR exts))"
  by (simp add: build_wire parse_wire del: wire.simps)

theorem wisp_frames_roundtrip_witness:
  "parse_wisp_frame (build_server_info_frame [\<lparr>ext_id = 2, ext_payload = [7, 8]\<rparr>]) =
     Some (Info 0 2 1 [\<lparr>ext_id = 2, ext_payload = [7, 8]\<rparr>]) \<and>
   parse_wisp_frame (wire (Connect 7 \<lparr>cp_stream_type = Tcp, cp_port = 443, cp_hostname = ''a.b''\<rparr>)) =
     Some (Connect 7 \<lparr>cp_stream_type = Tcp, cp_port = 443, cp_hostname = ''a.b''\<rparr>)"
proof -
  have "utf8_valid (as_bytes ''a.b'')"
    by (simp add: as_bytes_def byte_of_char_def)
  then show ?thesis
    using wisp_frames_roundtrip [of "Connect 7 \<lparr>cp_stream_type = Tcp, cp_port = 443, cp_hostname = ''a.b''\<rparr>"
        7 "[]" 0 Unknown "[\<lparr>ext_id = 2, ext_payload = [7, 8]\<rparr>]"]
    by (simp add: ext_ok_def del: wire.simps)
qed

text \<open>C21. The parser invents nothing: whatever it accepts is a well-formed frame whose wire format is a
  prefix of the input, except that an unassigned CLOSE reason byte reads as \<^const>\<open>Unknown\<close>.\<close>

theorem parse_wisp_frame_accepts_only_wire:
  assumes "parse_wisp_frame data = Some f"
  shows "wire_ok f \<and> (unknown_close data f \<or> (\<exists>rest. data = wire f @ rest))"
  using assms by (rule parse_wisp_frame_sound)

theorem parse_wisp_frame_accepts_only_wire_witness:
  "parse_wisp_frame [4, 5, 0, 0, 0, 0x44, 9] = Some (Close 5 Refused) \<and>
   wire_ok (Close 5 Refused) \<and>
   (unknown_close [4, 5, 0, 0, 0, 0x44, 9] (Close 5 Refused) \<or>
    (\<exists>rest. [4, 5, 0, 0, 0, 0x44, 9] = wire (Close 5 Refused) @ rest))"
proof -
  have "parse_wisp_frame [4, 5, 0, 0, 0, 0x44, 9] = Some (Close 5 Refused)"
    by (simp add: parse_wisp_frame_def parse_close_def u32_from_le_bytes_def CloseReason_from_byte_def)
  with parse_wisp_frame_accepts_only_wire [OF this] show ?thesis
    by blast
qed

end
