(* ===== verification/Ws_Writer.thy ===== *)
theory Ws_Writer
  imports Wisp_Frame Ws_Reader
begin

text \<open>
  The raw WebSocket frame writers of the server, \<^verbatim>\<open>src/server/connection.rs\<close>: single binary frames, batches of
  pre-framed messages, control frames, batched CONTINUE packets, and the pre-framing that the backend readers
  do.  The lemmas show that each of them, for every way the socket splits the writes, puts the WebSocket
  encoding of its messages on the wire, and that a client reads the packets back.
\<close>

section \<open>Single frames\<close>

text \<open>The loop that finishes the header after a partial vectored write.\<close>

function finish_header ::
  "'w env \<Rightarrow> sock \<Rightarrow> bytes \<Rightarrow> usize \<Rightarrow> bytes \<Rightarrow> usize \<Rightarrow> 'w \<Rightarrow> nat io_result \<times> 'w" where
  "finish_header E s hdr hdr_len payload n w =
     (if n < hdr_len then
        (case ev_write_vectored E s [drop n (take hdr_len hdr), payload] w of
           (Inl e, w') \<Rightarrow> (Inl e, w')
         | (Inr wrote, w') \<Rightarrow>
             if wrote = 0 then (Inl WriteZero, w')
             else finish_header E s hdr hdr_len payload (n + wrote) w')
      else (Inr n, w))"
  by pat_completeness auto
termination
  by (relation "measure (\<lambda>(E, s, hdr, hdr_len, payload, n, w). hdr_len - n)") auto

declare finish_header.simps [simp del]

definition write_ws_binary_frame :: "'w env \<Rightarrow> sock \<Rightarrow> bytes \<Rightarrow> 'w \<Rightarrow> unit io_result \<times> 'w" where
  "write_ws_binary_frame E writer payload w =
     (let len = length payload in
      if len \<le> 125 then
        (let buf = replicate 127 0;
             buf = buf[0 := 0x82];
             buf = buf[1 := of_nat len];
             buf = copy_at 2 payload buf
         in ev_write_all E writer (take (2 + len) buf) w)
      else
        let hdr = (replicate 10 0)[0 := 0x82];
            (hdr_len, hdr) =
              (if len \<le> 65535
               then (4, ((hdr[1 := 126])[2 := of_nat (drop_bit 8 len)])[3 := of_nat len])
               else (10, copy_at 2 (u64_to_be_bytes (of_nat len)) (hdr[1 := 127])));
            total = hdr_len + len
        in case ev_write_vectored E writer [take hdr_len hdr, payload] w of
             (Inl e, w') \<Rightarrow> (Inl e, w')
           | (Inr n, w') \<Rightarrow>
               if n = total then (Inr (), w')
               else if n = 0 then (Inl WriteZero, w')
               else case finish_header E writer hdr hdr_len payload n w' of
                      (Inl e, w'') \<Rightarrow> (Inl e, w'')
                    | (Inr n, w'') \<Rightarrow>
                        if n < total then ev_write_all E writer (drop (n - hdr_len) payload) w''
                        else (Inr (), w''))"

definition write_ws_pong_frame :: "'w env \<Rightarrow> sock \<Rightarrow> bytes \<Rightarrow> 'w \<Rightarrow> unit io_result \<times> 'w" where
  "write_ws_pong_frame E writer payload w =
     (let payload = take (min (length payload) 125) payload;
          len = length payload;
          buf = replicate 127 0;
          buf = buf[0 := 0x8A];
          buf = buf[1 := of_nat len];
          buf = copy_at 2 payload buf
      in ev_write_all E writer (take (2 + len) buf) w)"

definition write_ws_ping_frame :: "'w env \<Rightarrow> sock \<Rightarrow> 'w \<Rightarrow> unit io_result \<times> 'w" where
  "write_ws_ping_frame E writer w = ev_write_all E writer [0x89, 0x00] w"

definition write_ws_close_frame :: "'w env \<Rightarrow> sock \<Rightarrow> 'w \<Rightarrow> unit io_result \<times> 'w" where
  "write_ws_close_frame E writer w = ev_write_all E writer [0x88, 0x00] w"

section \<open>Batches\<close>

fun write_each :: "'w env \<Rightarrow> sock \<Rightarrow> bytes list \<Rightarrow> 'w \<Rightarrow> unit io_result \<times> 'w" where
  "write_each E writer [] w = (Inr (), w)"
| "write_each E writer (frame # frames) w =
     (case ev_write_all E writer frame w of
        (Inl e, w') \<Rightarrow> (Inl e, w')
      | (Inr _, w') \<Rightarrow> write_each E writer frames w')"

text \<open>The scan for the frames that \<open>n\<close> written bytes completed: consumed bytes and first incomplete frame.\<close>

fun completed :: "bytes list \<Rightarrow> nat \<Rightarrow> nat \<Rightarrow> nat \<Rightarrow> nat \<times> nat" where
  "completed [] n consumed start_frame = (consumed, start_frame)"
| "completed (frame # frames) n consumed start_frame =
     (if consumed + length frame \<le> n
      then completed frames n (consumed + length frame) (start_frame + 1)
      else (consumed, start_frame))"

definition write_remainder :: "'w env \<Rightarrow> sock \<Rightarrow> bytes list \<Rightarrow> nat \<Rightarrow> 'w \<Rightarrow> unit io_result \<times> 'w" where
  "write_remainder E writer frames n w =
     (case completed frames n 0 0 of (consumed, start_frame) \<Rightarrow>
        if start_frame < length frames \<and> n > consumed then
          (case ev_write_all E writer (drop (n - consumed) (frames ! start_frame)) w of
             (Inl e, w') \<Rightarrow> (Inl e, w')
           | (Inr _, w') \<Rightarrow> write_each E writer (drop (start_frame + 1) frames) w')
        else write_each E writer (drop start_frame frames) w)"

text \<open>
  The stack array for at most 64 frames and the heap vector for more hold the same slices; both branches write them
  with one vectored write and fall back alike.
\<close>

definition write_ws_frames_preframed_inner ::
  "'w env \<Rightarrow> sock \<Rightarrow> bytes list \<Rightarrow> 'w \<Rightarrow> unit io_result \<times> 'w" where
  "write_ws_frames_preframed_inner E writer frames w =
     (let use_stack = (length frames \<le> 64);
          stack_slices = (if use_stack then frames @ replicate (64 - length frames) [] else replicate 64 []);
          slices = (if use_stack then take (length frames) stack_slices else frames);
          total = sum_list (map length frames)
      in case ev_write_vectored E writer slices w of
           (Inl e, w') \<Rightarrow> (Inl e, w')
         | (Inr n, w') \<Rightarrow>
             if n = total then (Inr (), w')
             else if n = 0 then (Inl WriteZero, w')
             else write_remainder E writer frames n w')"

fun write_chunks :: "'w env \<Rightarrow> sock \<Rightarrow> bytes list list \<Rightarrow> 'w \<Rightarrow> unit io_result \<times> 'w" where
  "write_chunks E writer [] w = (Inr (), w)"
| "write_chunks E writer (chunk # cs) w =
     (case write_ws_frames_preframed_inner E writer chunk w of
        (Inl e, w') \<Rightarrow> (Inl e, w')
      | (Inr _, w') \<Rightarrow> write_chunks E writer cs w')"

text \<open>\<^verbatim>\<open>slice::chunks(n)\<close>\<close>

function chunks_of :: "nat \<Rightarrow> 'a list \<Rightarrow> 'a list list" where
  "chunks_of n xs = (if xs = [] \<or> n = 0 then [] else take n xs # chunks_of n (drop n xs))"
  by pat_completeness auto
termination
  by (relation "measure (\<lambda>(n, xs). length xs)") auto

declare chunks_of.simps [simp del]

definition write_ws_frames_batched :: "'w env \<Rightarrow> sock \<Rightarrow> bytes list \<Rightarrow> 'w \<Rightarrow> unit io_result \<times> 'w" where
  "write_ws_frames_batched E writer frames w =
     (if frames = [] then (Inr (), w)
      else if length frames = 1 then ev_write_all E writer (frames ! 0) w
      else if length frames > 1024 then write_chunks E writer (chunks_of 1024 frames) w
      else write_ws_frames_preframed_inner E writer frames w)"

section \<open>Batched CONTINUE packets\<close>

fun fill_continues :: "(u32 \<times> u32) list \<Rightarrow> bytes \<Rightarrow> usize \<Rightarrow> bytes \<times> usize" where
  "fill_continues [] buf pos = (buf, pos)"
| "fill_continues ((stream_id, remaining) # pending) buf pos =
     (let frame = build_continue_frame stream_id remaining;
          buf = buf[pos := 0x82];
          buf = buf[pos + 1 := 9];
          buf = copy_at (pos + 2) frame buf
      in fill_continues pending buf (pos + 11))"

fun push_continues :: "(u32 \<times> u32) list \<Rightarrow> bytes \<Rightarrow> bytes" where
  "push_continues [] buf = buf"
| "push_continues ((stream_id, remaining) # pending) buf =
     push_continues pending (buf @ [0x82] @ [9] @ build_continue_frame stream_id remaining)"

text \<open>\<^verbatim>\<open>flush_continues_direct\<close> always leaves the list of pending packets empty.\<close>

definition flush_continues_direct ::
  "'w env \<Rightarrow> sock \<Rightarrow> (u32 \<times> u32) list \<Rightarrow> 'w \<Rightarrow> unit io_result \<times> (u32 \<times> u32) list \<times> 'w" where
  "flush_continues_direct E tcp_write pending w =
     (if length pending = 1 then
        (let frame = build_continue_frame (fst (pending ! 0)) (snd (pending ! 0))
         in case write_ws_binary_frame E tcp_write frame w of (r, w') \<Rightarrow> (r, [], w'))
      else if length pending \<le> 16 then
        (case fill_continues pending (replicate 176 0) 0 of (buf, pos) \<Rightarrow>
           case ev_write_all E tcp_write (take pos buf) w of (r, w') \<Rightarrow> (r, [], w'))
      else
        (case ev_write_all E tcp_write (push_continues pending []) w of (r, w') \<Rightarrow> (r, [], w')))"

section \<open>Pre-framing by the backend readers\<close>

definition WS_MAX_HEADER_SIZE :: usize where [simp]: "WS_MAX_HEADER_SIZE = 10"
definition PREFRAME_RESERVE :: usize where [simp]: "PREFRAME_RESERVE = WS_MAX_HEADER_SIZE + WISP_HEADER_SIZE"

text \<open>
  The buffer of \<^verbatim>\<open>backend_tcp_reader\<close>: \<open>junk\<close> is its uninitialised content, of length
  \<^verbatim>\<open>PREFRAME_RESERVE + 65536\<close>, and \<open>data\<close> what the read put behind the reserved prefix.
\<close>

definition preframe_tcp :: "bytes \<Rightarrow> bytes \<Rightarrow> bytes \<Rightarrow> bytes" where
  "preframe_tcp junk wisp_header data =
     (let buf = copy_at WS_MAX_HEADER_SIZE wisp_header junk;
          buf = copy_at PREFRAME_RESERVE data buf;
          n = length data;
          buf = take (PREFRAME_RESERVE + n) buf;
          ws_payload_len = WISP_HEADER_SIZE + n;
          (frame_start, buf) =
            (if ws_payload_len \<le> 125 then
               (let start = PREFRAME_RESERVE - WISP_HEADER_SIZE - 2
                in (start, (buf[start := 0x82])[start + 1 := of_nat ws_payload_len]))
             else if ws_payload_len \<le> 65535 then
               (let start = PREFRAME_RESERVE - WISP_HEADER_SIZE - 4
                in (start, (((buf[start := 0x82])[start + 1 := 126])
                      [start + 2 := of_nat (drop_bit 8 ws_payload_len)])[start + 3 := of_nat ws_payload_len]))
             else
               (0, copy_at 2 (u64_to_be_bytes (of_nat ws_payload_len)) ((buf[0 := 0x82])[1 := 127])))
      in drop frame_start buf)"

text \<open>The buffer that the UDP reader builds for one datagram.\<close>

definition preframe_udp :: "bytes \<Rightarrow> bytes \<Rightarrow> bytes" where
  "preframe_udp wisp_header data =
     (let n = length data;
          ws_payload_len = WISP_HEADER_SIZE + n;
          (ws_hdr_len, frame_start) =
            (if ws_payload_len \<le> 125 then (2, PREFRAME_RESERVE - WISP_HEADER_SIZE - 2)
             else if ws_payload_len \<le> 65535 then (4, PREFRAME_RESERVE - WISP_HEADER_SIZE - 4)
             else (10, 0));
          frame_len = ws_hdr_len + WISP_HEADER_SIZE + n;
          buf = replicate (frame_start + frame_len) 0;
          buf = buf[frame_start := 0x82];
          buf = (if ws_payload_len \<le> 125 then buf[frame_start + 1 := of_nat ws_payload_len]
                 else if ws_payload_len \<le> 65535
                 then ((buf[frame_start + 1 := 126])[frame_start + 2 := of_nat (drop_bit 8 ws_payload_len)])
                        [frame_start + 3 := of_nat ws_payload_len]
                 else copy_at (frame_start + 2) (u64_to_be_bytes (of_nat ws_payload_len))
                        (buf[frame_start + 1 := 127]));
          buf = copy_at (frame_start + ws_hdr_len) wisp_header buf;
          buf = copy_at (frame_start + ws_hdr_len + WISP_HEADER_SIZE) data buf
      in drop frame_start buf)"

section \<open>Lemmas: encodings\<close>

text \<open>A binary message of the server on the wire.\<close>

definition ws_binary :: "bytes \<Rightarrow> bytes" where
  "ws_binary payload = ws_wire (Frame_binary payload)"

lemma ws_binary_eq:
  "ws_binary payload =
     [0x82, ws_len_code (length payload)] @ ws_len_ext (length payload) @ payload"
  by (simp add: ws_binary_def ws_wire_def Frame_binary_def ws_head_def)

lemma le_bytes_2: "le_bytes 2 n = [of_nat n, of_nat (n div 256)]"
  unfolding numeral_2_eq_2 le_bytes.simps ..

lemma u16_be_of_nat: "len < 65536 \<Longrightarrow> u16_to_be_bytes (of_nat len) = [of_nat (drop_bit 8 len), of_nat len]"
  unfolding u16_to_be_bytes_def le_bytes_2 drop_bit_eq_div by (simp add: unat_of_nat del: of_nat_div)

lemma small_buffer:
  fixes payload :: bytes
  assumes "length payload \<le> 125"
  shows "take (2 + length payload) (copy_at 2 payload (((replicate 127 0)[0 := b])[1 := c])) = [b, c] @ payload"
proof -
  have eq: "((replicate 127 0)[0 := b])[1 := c] = [b, c] @ replicate 125 (0 :: u8)"
    by (simp add: numeral_eq_Suc)
  have "copy_at 2 payload (((replicate 127 0)[0 := b])[1 := c]) =
      [b, c] @ payload @ drop (length payload) (replicate 125 0)"
    unfolding eq by (rule copy_at_append) simp
  then show ?thesis
    by simp
qed

section \<open>Lemmas: delivery\<close>

lemma finish_header_sent:
  "io_ok E sent \<Longrightarrow> finish_header E s hdr hdr_len payload n w = (r, w') \<Longrightarrow> hdr_len \<le> length hdr \<Longrightarrow>
   out = take hdr_len hdr @ payload \<Longrightarrow>
   \<exists>k. took sent s (drop n out) (Inr k) w w' \<and> (\<forall>m. r = Inr m \<longrightarrow> m = n + k \<and> hdr_len \<le> m)"
proof (induction E s hdr hdr_len payload n w rule: finish_header.induct)
  case (1 E s hdr hdr_len payload n w)
  note unfold = finish_header.simps [of E s hdr hdr_len payload n w]
  show ?case
  proof (cases "n < hdr_len")
    case True
    obtain q w1 where wr: "ev_write_vectored E s [drop n (take hdr_len hdr), payload] w = (q, w1)"
      by fastforce
    note took = write_header_took [OF 1(2) wr less_imp_le [OF True] 1(4,5)]
    show ?thesis
    proof (cases "\<exists>k. q = Inr k \<and> k \<noteq> 0")
      case False
      with 1(3) True wr have "w' = w1" "\<nexists>m. r = Inr m"
        by (auto simp: unfold split: sum.splits)
      with False took show ?thesis
        by (cases q) (auto intro!: exI [of _ 0] took_nothing(2))
    next
      case more: True
      then obtain k where k: "q = Inr k" "k \<noteq> 0" by blast
      with 1(3) True wr have "finish_header E s hdr hdr_len payload (n + k) w1 = (r, w')"
        by (simp add: unfold)
      from 1(1) [OF True wr [symmetric] k 1(2) this 1(4,5)] obtain j where
        j: "took sent s (drop (n + k) out) (Inr j) w1 w'" "\<forall>m. r = Inr m \<longrightarrow> m = n + k + j \<and> hdr_len \<le> m"
        by blast
      from took_append [OF took [unfolded k(1)] j(1)] j(2) [unfolded add.assoc] show ?thesis
        by blast
    qed
  next
    case False
    with 1(3) show ?thesis
      by (intro exI [of _ 0]) (auto simp: unfold took_nothing)
  qed
qed

text \<open>What \<open>write_ws_binary_frame\<close> does with a header that stands apart from its payload.\<close>

definition write_apart :: "'w env \<Rightarrow> sock \<Rightarrow> bytes \<Rightarrow> usize \<Rightarrow> bytes \<Rightarrow> 'w \<Rightarrow> unit io_result \<times> 'w" where
  "write_apart E s hdr hdr_len payload w =
     (case ev_write_vectored E s [take hdr_len hdr, payload] w of
        (Inl e, w') \<Rightarrow> (Inl e, w')
      | (Inr n, w') \<Rightarrow>
          if n = hdr_len + length payload then (Inr (), w')
          else if n = 0 then (Inl WriteZero, w')
          else case finish_header E s hdr hdr_len payload n w' of
                 (Inl e, w'') \<Rightarrow> (Inl e, w'')
               | (Inr n, w'') \<Rightarrow>
                   if n < hdr_len + length payload then ev_write_all E s (drop (n - hdr_len) payload) w''
                   else (Inr (), w''))"

lemma write_ws_binary_frame_apart:
  "125 < length payload \<Longrightarrow> length payload \<le> 65535 \<Longrightarrow>
   write_ws_binary_frame E s payload w =
     write_apart E s ((((replicate 10 0)[0 := 0x82])[1 := 126])[2 := of_nat (drop_bit 8 (length payload)), 3 := of_nat (length payload)])
       4 payload w"
  "65535 < length payload \<Longrightarrow>
   write_ws_binary_frame E s payload w =
     write_apart E s (copy_at 2 (u64_to_be_bytes (of_nat (length payload))) (((replicate 10 0)[0 := 0x82])[1 := 127])) 10 payload w"
  unfolding write_ws_binary_frame_def write_apart_def Let_def by (simp_all only: not_le [symmetric] if_True if_False prod.case) auto

lemma write_apart_delivers:
  assumes "io_ok E sent" "length h = hdr_len" "out = h @ payload" "take hdr_len hdr = h"
    "write_apart E s hdr hdr_len payload w = (r, w')"
  shows "delivers sent s out (r = Inr ()) w w'"
proof -
  obtain q w1 where wr: "ev_write_vectored E s [h, payload] w = (q, w1)"
    by fastforce
  have took: "took sent s out q w w1"
    using io_ok_write_vectored [OF assms(1) wr] assms(3) by simp
  have out: "length out = hdr_len + length payload"
    using assms(2,3) by simp
  note eq = assms(5) [unfolded write_apart_def assms(4) wr out [symmetric]]
  show ?thesis
  proof (cases "\<exists>n. q = Inr n \<and> n \<noteq> 0 \<and> n \<noteq> length out")
    case False
    with eq took show ?thesis
      by (cases q) (auto split: if_splits intro: delivers_took)
  next
    case True
    then obtain n where n: "q = Inr n" "n \<noteq> 0" "n \<noteq> length out" by blast
    obtain r2 w2 where fh: "finish_header E s hdr hdr_len payload n w1 = (r2, w2)"
      by fastforce
    have "hdr_len \<le> length hdr"
      using assms(2) unfolding assms(4) [symmetric] by simp
    from finish_header_sent [OF assms(1) fh this assms(3) [folded assms(4)]] obtain k where
      k: "took sent s (drop n out) (Inr k) w1 w2" and r2: "\<And>m. r2 = Inr m \<Longrightarrow> m = n + k \<and> length h \<le> m"
      unfolding assms(2) by blast
    have "delivers sent s (drop n out) (r = Inr ()) w1 w'"
      by (rule write_rest_delivers [OF assms(1) k r2 assms(3)])
        (use eq n fh took assms(2) in \<open>auto simp: took_def split: sum.splits\<close>)
    with took n(1) show ?thesis
      by (auto intro: delivers_append)
  qed
qed

lemma write_ws_binary_frame_delivers:
  assumes "io_ok E sent" "write_ws_binary_frame E s payload w = (r, w')"
  shows "delivers sent s (ws_binary payload) (r = Inr ()) w w'"
proof -
  let ?len = "length payload"
  consider (small) "?len \<le> 125" | (medium) "125 < ?len" "?len \<le> 65535" | (large) "65535 < ?len"
    by linarith
  then show ?thesis
  proof cases
    case small
    with assms(2) have "ev_write_all E s (ws_binary payload) w = (r, w')"
      by (simp add: write_ws_binary_frame_def Let_def small_buffer [simplified] ws_binary_eq ws_len_code_def
          ws_len_ext_def)
    with assms(1) show ?thesis
      by (rule delivers_write_all)
  next
    case medium
    let ?h = "[0x82, 126, of_nat (drop_bit 8 ?len), of_nat ?len] :: bytes"
    have "ws_binary payload = ?h @ payload"
      using medium by (simp add: ws_binary_eq ws_len_code_def ws_len_ext_def u16_be_of_nat)
    then show ?thesis
      by (rule write_apart_delivers [OF assms(1) _ _ _ assms(2) [unfolded write_ws_binary_frame_apart(1) [OF medium]], rotated])
        (simp_all add: numeral_eq_Suc del: of_nat_drop_bit)
  next
    case large
    let ?h = "[0x82, 127] @ u64_to_be_bytes (of_nat ?len) :: bytes"
    have buf: "((replicate 10 0)[0 := 0x82])[1 := 127] = [0x82, 127] @ replicate 8 (0 :: u8)"
      by (simp add: numeral_eq_Suc)
    have "ws_binary payload = ?h @ payload"
      using large by (simp add: ws_binary_eq ws_len_code_def ws_len_ext_def)
    then show ?thesis
      by (rule write_apart_delivers [OF assms(1) _ _ _ assms(2) [unfolded write_ws_binary_frame_apart(2) [OF large] buf], rotated])
        (simp_all add: copy_at_def)
  qed
qed

section \<open>Lemmas: batches\<close>

lemma delivers_seq:
  assumes "delivers sent s a True w w1" "delivers sent s b ok w1 w2"
  shows "delivers sent s (a @ b) ok w w2"
proof -
  from assms(1) have a: "sent w1 = (sent w)(s := sent w s @ a)"
    by (auto simp: delivers_def)
  from assms(2) obtain k where k: "k \<le> length b" "sent w2 = (sent w1)(s := sent w1 s @ take k b)" "ok \<longrightarrow> k = length b"
    by (auto simp: delivers_def)
  with a show ?thesis
    unfolding delivers_def by (intro exI [of _ "length a + k"]) auto
qed

lemma delivers_stop: "delivers sent s a False w w1 \<Longrightarrow> delivers sent s (a @ b) False w w1"
proof -
  assume "delivers sent s a False w w1"
  then obtain k where "k \<le> length a" "sent w1 = (sent w)(s := sent w s @ take k a)"
    by (auto simp: delivers_def)
  then show ?thesis
    unfolding delivers_def by (intro exI [of _ k]) simp
qed

lemma delivers_nothing: "delivers sent s [] ok w w"
  by (simp add: delivers_def)

text \<open>Two sends in a row, the second only after the first succeeded.\<close>

lemma delivers_then:
  assumes "delivers sent s a (r = Inr ()) w w1" "r = Inr () \<Longrightarrow> delivers sent s b (r' = Inr ()) w1 w2"
    and "r \<noteq> Inr () \<Longrightarrow> r' = r \<and> w2 = w1"
  shows "delivers sent s (a @ b) (r' = Inr ()) w w2"
  using assms by (cases "r = Inr ()") (auto intro: delivers_seq delivers_stop)

lemma write_each_delivers:
  "io_ok E sent \<Longrightarrow> write_each E s frames w = (r, w') \<Longrightarrow> delivers sent s (concat frames) (r = Inr ()) w w'"
proof (induction frames arbitrary: w)
  case Nil
  then show ?case
    by (auto simp: delivers_nothing)
next
  case (Cons f frames)
  obtain q w1 where wr: "ev_write_all E s f w = (q, w1)"
    by fastforce
  have "delivers sent s (f @ concat frames) (r = Inr ()) w w'"
    by (rule delivers_then [OF delivers_write_all [OF Cons.prems(1) wr]])
      (use Cons wr in \<open>auto split: sum.splits\<close>)
  then show ?case
    by simp
qed

lemma completed_spec:
  "completed frames n c st = (c', st') \<Longrightarrow> c \<le> n \<Longrightarrow>
   \<exists>i. st' = st + i \<and> i \<le> length frames \<and> c' = c + length (concat (take i frames)) \<and> c' \<le> n \<and>
     (i < length frames \<longrightarrow> n < c' + length (frames ! i))"
proof (induction frames arbitrary: c st)
  case Nil
  then show ?case
    by simp
next
  case (Cons f frames)
  show ?case
  proof (cases "c + length f \<le> n")
    case True
    with Cons.prems have "completed frames n (c + length f) (st + 1) = (c', st')"
      by simp
    from Cons.IH [OF this True] obtain i where
      "st' = st + 1 + i" "i \<le> length frames" "c' = c + length f + length (concat (take i frames))" "c' \<le> n"
      "i < length frames \<longrightarrow> n < c' + length (frames ! i)"
      by blast
    then show ?thesis
      by (intro exI [of _ "Suc i"]) auto
  next
    case False
    with Cons.prems show ?thesis
      by (intro exI [of _ 0]) auto
  qed
qed

lemma write_remainder_delivers:
  assumes "io_ok E sent" "write_remainder E s frames n w = (r, w')"
  shows "delivers sent s (drop n (concat frames)) (r = Inr ()) w w'"
proof -
  obtain c i where co: "completed frames n 0 0 = (c, i)"
    by fastforce
  from completed_spec [OF co] have i: "i \<le> length frames" "c = length (concat (take i frames))" "c \<le> n"
    and last: "i < length frames \<Longrightarrow> n < c + length (frames ! i)"
    by auto
  have split: "concat frames = concat (take i frames) @ concat (drop i frames)"
    by (metis append_take_drop_id concat_append)
  show ?thesis
  proof (cases "i < length frames \<and> n > c")
    case True
    then have "drop i frames = frames ! i # drop (i + 1) frames"
      by (simp add: Cons_nth_drop_Suc)
    then have rest: "drop n (concat frames) = drop (n - c) (frames ! i) @ concat (drop (i + 1) frames)"
      using True i(2,3) last by (subst split) simp
    obtain q w1 where wr: "ev_write_all E s (drop (n - c) (frames ! i)) w = (q, w1)"
      by fastforce
    have "delivers sent s (drop (n - c) (frames ! i) @ concat (drop (i + 1) frames)) (r = Inr ()) w w'"
      by (rule delivers_then [OF delivers_write_all [OF assms(1) wr]])
        (use assms wr co True write_each_delivers in \<open>auto simp: write_remainder_def split: sum.splits\<close>)
    then show ?thesis
      unfolding rest .
  next
    case False
    then have "drop n (concat frames) = concat (drop i frames)"
      using i by (subst split) auto
    moreover have "write_each E s (drop i frames) w = (r, w')"
      using assms(2) co False by (auto simp: write_remainder_def split: if_splits)
    ultimately show ?thesis
      using write_each_delivers [OF assms(1)] by simp
  qed
qed

lemma preframed_inner_delivers:
  assumes "io_ok E sent" "write_ws_frames_preframed_inner E s frames w = (r, w')"
  shows "delivers sent s (concat frames) (r = Inr ()) w w'"
proof -
  obtain q w1 where wr: "ev_write_vectored E s frames w = (q, w1)"
    by fastforce
  note took = io_ok_write_vectored [OF assms(1) wr]
  have slices: "(if length frames \<le> 64 then take (length frames)
      (if length frames \<le> 64 then frames @ replicate (64 - length frames) [] else replicate 64 []) else frames) = frames"
    by simp
  have eq: "(case q of Inl e \<Rightarrow> (Inl e, w1) | Inr n \<Rightarrow> if n = length (concat frames) then (Inr (), w1)
      else if n = 0 then (Inl WriteZero, w1) else write_remainder E s frames n w1) = (r, w')"
    using assms(2) wr unfolding write_ws_frames_preframed_inner_def Let_def slices sum_list_map_length by (cases q) auto
  show ?thesis
  proof (cases "\<exists>n. q = Inr n \<and> n \<noteq> 0 \<and> n \<noteq> length (concat frames)")
    case True
    then obtain n where n: "q = Inr n" "n \<noteq> 0" "n \<noteq> length (concat frames)"
      by blast
    with eq have "write_remainder E s frames n w1 = (r, w')"
      by simp
    from write_remainder_delivers [OF assms(1) this] took n(1) show ?thesis
      by (auto intro: delivers_append)
  next
    case False
    with eq took show ?thesis
      by (cases q) (auto intro: delivers_took split: if_splits)
  qed
qed

lemma write_chunks_delivers:
  "io_ok E sent \<Longrightarrow> write_chunks E s css w = (r, w') \<Longrightarrow> delivers sent s (concat (concat css)) (r = Inr ()) w w'"
proof (induction css arbitrary: w)
  case Nil
  then show ?case
    by (auto simp: delivers_nothing)
next
  case (Cons c css)
  obtain q w1 where wr: "write_ws_frames_preframed_inner E s c w = (q, w1)"
    by fastforce
  have "delivers sent s (concat c @ concat (concat css)) (r = Inr ()) w w'"
    by (rule delivers_then [OF preframed_inner_delivers [OF Cons.prems(1) wr]])
      (use Cons wr in \<open>auto split: sum.splits\<close>)
  then show ?case
    by simp
qed

lemma concat_chunks_of: "n > 0 \<Longrightarrow> concat (chunks_of n xs) = xs"
  by (induction n xs rule: chunks_of.induct) (subst chunks_of.simps, auto)

lemma write_ws_frames_batched_delivers:
  assumes "io_ok E sent" "write_ws_frames_batched E s frames w = (r, w')"
  shows "delivers sent s (concat frames) (r = Inr ()) w w'"
proof -
  consider "frames = []" | f where "frames = [f]" | "length frames > 1024" | "2 \<le> length frames" "length frames \<le> 1024"
    by (cases frames; cases "tl frames") fastforce+
  then show ?thesis
  proof cases
    case 3
    with assms have "write_chunks E s (chunks_of 1024 frames) w = (r, w')"
      by (auto simp: write_ws_frames_batched_def split: if_splits)
    from write_chunks_delivers [OF assms(1) this] show ?thesis
      by (simp add: concat_chunks_of)
  qed (use assms delivers_write_all preframed_inner_delivers in
      \<open>auto simp: write_ws_frames_batched_def delivers_nothing split: if_splits\<close>)
qed

section \<open>Lemmas: CONTINUE packets\<close>

lemma length_build_continue [simp]: "length (build_continue_frame i n) = 9"
  by (simp add: build_continue_frame_def Let_def)

lemma ws_binary_continue: "ws_binary (build_continue_frame i n) = [0x82, 9] @ build_continue_frame i n"
  by (simp add: ws_binary_eq ws_len_code_def ws_len_ext_def)

lemma push_continues_eq:
  "push_continues pending buf = buf @ concat (map (\<lambda>(i, n). ws_binary (build_continue_frame i n)) pending)"
  by (induction pending buf rule: push_continues.induct) (simp_all add: ws_binary_continue)

lemma fill_continues_eq:
  "pos + 11 * length pending \<le> length buf \<Longrightarrow> fill_continues pending buf pos = (buf', pos') \<Longrightarrow>
   take pos' buf' = take pos buf @ concat (map (\<lambda>(i, n). ws_binary (build_continue_frame i n)) pending)"
proof (induction pending buf pos rule: fill_continues.induct)
  case (2 i n pending buf pos)
  define buf2 where "buf2 = copy_at (pos + 2) (build_continue_frame i n) ((buf[pos := 0x82])[pos + 1 := 9])"
  have len: "length buf2 = length buf"
    using 2(2) by (simp add: buf2_def)
  have "take (pos + 2) ((buf[pos := 0x82])[pos + 1 := 9]) = take pos buf @ [0x82, 9]"
    using 2(2) by (simp add: take_Suc_conv_app_nth take_update_swap list_update_append)
  then have "take (pos + 11) buf2 = take pos buf @ ws_binary (build_continue_frame i n)"
    using 2(2) by (simp add: buf2_def copy_at_def ws_binary_continue)
  with 2(1) [OF refl refl refl refl, folded buf2_def] 2(2,3) len show ?case
    by (simp add: buf2_def Let_def)
qed simp

lemma flush_continues_delivers:
  assumes "io_ok E sent" "flush_continues_direct E s pending w = (r, pending', w')"
  shows "pending' = [] \<and>
    delivers sent s (concat (map (\<lambda>(i, n). ws_binary (build_continue_frame i n)) pending)) (r = Inr ()) w w'"
proof -
  consider i n where "pending = [(i, n)]" | "length pending \<noteq> 1" "length pending \<le> 16" | "length pending > 16"
    by (cases pending; cases "tl pending") fastforce+
  then show ?thesis
  proof cases
    case 1
    with assms show ?thesis
      using write_ws_binary_frame_delivers [OF assms(1)]
      by (auto simp: flush_continues_direct_def split: prod.splits)
  next
    case 2
    obtain buf pos where fc: "fill_continues pending (replicate 176 0) 0 = (buf, pos)"
      by fastforce
    with fill_continues_eq [OF _ fc] 2 have "take pos buf =
        concat (map (\<lambda>(i, n). ws_binary (build_continue_frame i n)) pending)"
      by simp
    with assms fc 2 show ?thesis
      using delivers_write_all [OF assms(1)] by (auto simp: flush_continues_direct_def split: prod.splits)
  next
    case 3
    with assms show ?thesis
      using delivers_write_all [OF assms(1)]
      by (auto simp: flush_continues_direct_def push_continues_eq split: prod.splits)
  qed
qed

section \<open>Lemmas: pre-framing\<close>

lemma list10: "length xs = 10 \<Longrightarrow> \<exists>a b c d e f g h i j. xs = [a, b, c, d, e, f, g, h, i, j]"
  by (auto simp: length_Suc_conv numeral_eq_Suc)

lemma length_build_data [simp]: "length (build_data_header i) = 5"
  by (simp add: build_data_header_def Let_def)

lemma preframe_tcp_eq:
  assumes "length hdr = 5" "15 + length data \<le> length junk" "length data \<le> 65536"
  shows "preframe_tcp junk hdr data = ws_binary (hdr @ data)"
proof -
  obtain a b c d e f g h i j where J: "take 10 junk = [a, b, c, d, e, f, g, h, i, j]"
    using list10 [of "take 10 junk"] assms(2) by auto
  have "take (15 + length data) (copy_at 15 data (copy_at 10 hdr junk)) = take 10 junk @ hdr @ data"
    using assms(1,2) by (simp add: copy_at_def)
  then have buf: "take (PREFRAME_RESERVE + length data)
      (copy_at PREFRAME_RESERVE data (copy_at WS_MAX_HEADER_SIZE hdr junk)) =
      [a, b, c, d, e, f, g, h, i, j] @ hdr @ data"
    unfolding J by simp
  have len: "WISP_HEADER_SIZE + length data = length (hdr @ data)"
    using assms(1) by simp
  consider (small) "length (hdr @ data) \<le> 125" | (medium) "125 < length (hdr @ data)" "length (hdr @ data) \<le> 65535"
    | (large) "65535 < length (hdr @ data)"
    by linarith
  then show ?thesis
  proof cases
    case small
    then show ?thesis
      unfolding preframe_tcp_def Let_def buf len
      by (simp add: ws_binary_eq ws_len_code_def ws_len_ext_def)
  next
    case medium
    then show ?thesis
      unfolding preframe_tcp_def Let_def buf len
      by (simp add: ws_binary_eq ws_len_code_def ws_len_ext_def u16_be_of_nat flip: of_nat_add)
  next
    case large
    then show ?thesis
      unfolding preframe_tcp_def Let_def buf len
      by (simp add: ws_binary_eq ws_len_code_def ws_len_ext_def copy_at_def flip: of_nat_add)
  qed
qed

lemma replicate_15: "replicate (15 + m) x = [x, x, x, x, x, x, x, x, x, x] @ replicate (5 + m) x"
  by (simp add: numeral_eq_Suc)

lemma preframe_udp_eq:
  assumes "length hdr = 5"
  shows "preframe_udp hdr data = ws_binary (hdr @ data)"
proof -
  have len: "WISP_HEADER_SIZE + length data = length (hdr @ data)"
    using assms by simp
  consider (small) "length (hdr @ data) \<le> 125" | (medium) "125 < length (hdr @ data)" "length (hdr @ data) \<le> 65535"
    | (large) "65535 < length (hdr @ data)"
    by linarith
  then show ?thesis
  proof cases
    case small
    then show ?thesis
      unfolding preframe_udp_def Let_def len using assms
      by (simp add: ws_binary_eq ws_len_code_def ws_len_ext_def copy_at_def eval_nat_numeral)
  next
    case medium
    then show ?thesis
      unfolding preframe_udp_def Let_def len using assms
      by (simp add: ws_binary_eq ws_len_code_def ws_len_ext_def u16_be_of_nat copy_at_def replicate_15 flip: of_nat_add)
  next
    case large
    then show ?thesis
      unfolding preframe_udp_def Let_def len using assms
      by (simp add: ws_binary_eq ws_len_code_def ws_len_ext_def copy_at_def replicate_15 flip: of_nat_add)
  qed
qed

text \<open>A client parses a binary message of the server and its Wisp packet.\<close>

lemma client_reads_binary:
  assumes "rh_role rh = Client" "rh_buffer rh = ws_binary payload @ rest"
    and "length payload \<le> rh_max_message_size rh" "length payload < 2 ^ 64"
  shows "try_parse_frame_buffered rh = (Some (Inr (Frame_binary payload)), rh\<lparr>rh_buffer := rest\<rparr>)"
  using try_parse_wire [of rh True OpBinary None payload rest] assms
  by (simp add: ws_binary_def ws_wire_def Frame_binary_def Frame_new_def is_control_def)

section \<open>Properties\<close>

text \<open>C10. Three writers put what they are given on the client's socket as the WebSocket encoding of the message, whatever the
  socket accepts per call: those of a single binary frame, a batch of pre-framed messages of any number, and the batched CONTINUE
  packets (which are then no longer pending).  If a call fails, what was sent is a prefix of that encoding.\<close>

theorem client_writes_deliver:
  assumes "io_ok E sent"
  shows "(case write_ws_binary_frame E s payload w of (r, w') \<Rightarrow>
       delivers sent s (ws_wire (Frame_binary payload)) (r = Inr ()) w w') \<and>
    (case write_ws_frames_batched E s frames w of (r, w') \<Rightarrow>
       delivers sent s (concat frames) (r = Inr ()) w w') \<and>
    (case flush_continues_direct E s pending w of (r, pending', w') \<Rightarrow> pending' = [] \<and>
       delivers sent s (concat (map (\<lambda>(i, n). ws_wire (Frame_binary (build_continue_frame i n))) pending)) (r = Inr ()) w w')"
  using write_ws_binary_frame_delivers [OF assms] write_ws_frames_batched_delivers [OF assms]
    flush_continues_delivers [OF assms]
  by (auto simp: ws_binary_def split: prod.split)

theorem client_writes_deliver_witness:
  "write_ws_frames_batched drip_env 1 [[1, 2], [3, 4], [5]] (script_start []) =
     (Inr (), \<lparr>sw_replies = [], sw_sent = (\<lambda>_. [])(1 := [1, 2, 3, 4, 5])\<rparr>) \<and>
   delivers sw_sent 1 [1, 2, 3, 4, 5] True (script_start []) \<lparr>sw_replies = [], sw_sent = (\<lambda>_. [])(1 := [1, 2, 3, 4, 5])\<rparr>"
proof -
  have run: "write_ws_frames_batched drip_env 1 [[1, 2], [3, 4], [5]] (script_start []) =
     (Inr (), \<lparr>sw_replies = [], sw_sent = (\<lambda>_. [])(1 := [1, 2, 3, 4, 5])\<rparr>)"
    by (simp add: write_ws_frames_batched_def write_ws_frames_preframed_inner_def write_remainder_def drip_env_def
        script_env_def script_start_def Let_def)
  with client_writes_deliver [OF drip_env_ok(1), of 1 "[]" "script_start []" "[[1, 2], [3, 4], [5]]" "[]"]
  show ?thesis
    by simp
qed

text \<open>C27. Data from a backend reaches the client unchanged: the frame that the TCP reader builds in place, whatever the
  uninitialised buffer held, and the frame that the UDP reader builds are both the encoding of one DATA packet of the stream, and a
  client that reads it, followed by anything, gets exactly that packet back.\<close>

theorem backend_data_preframed:
  assumes "length junk = PREFRAME_RESERVE + 65536" "length data \<le> 65536"
    and "rh_role rh = Client" "65541 \<le> rh_max_message_size rh"
    and "rh_buffer rh = preframe_tcp junk (build_data_header sid) data @ rest"
  shows "preframe_udp (build_data_header sid) data = preframe_tcp junk (build_data_header sid) data \<and>
    (\<exists>f. try_parse_frame_buffered rh = (Some (Inr f), rh\<lparr>rh_buffer := rest\<rparr>) \<and> fr_fin f \<and> fr_opcode f = OpBinary \<and>
       parse_wisp_frame (fr_payload f) = Some (Data sid data))"
proof -
  let ?p = "build_data_header sid @ data"
  have tcp: "preframe_tcp junk (build_data_header sid) data = ws_binary ?p"
    by (rule preframe_tcp_eq) (use assms(1,2) in simp_all)
  have "try_parse_frame_buffered rh = (Some (Inr (Frame_binary ?p)), rh\<lparr>rh_buffer := rest\<rparr>)"
    by (rule client_reads_binary) (use assms tcp in simp_all)
  moreover have "parse_wisp_frame ?p = Some (Data sid data)"
    using parse_wire [of "Data sid data"] build_wire by simp
  ultimately show ?thesis
    by (simp add: tcp preframe_udp_eq Frame_binary_def)
qed

theorem backend_data_preframed_witness:
  "let rh = (ReadHalf_after_handshake Client)\<lparr>rh_buffer := preframe_tcp (replicate 65551 7) (build_data_header 3) [8, 9] @ [1]\<rparr>
   in \<exists>f. try_parse_frame_buffered rh = (Some (Inr f), rh\<lparr>rh_buffer := [1]\<rparr>) \<and>
      parse_wisp_frame (fr_payload f) = Some (Data 3 [8, 9])"
  using backend_data_preframed [of "replicate 65551 7" "[8, 9]"
      "(ReadHalf_after_handshake Client)\<lparr>rh_buffer := preframe_tcp (replicate 65551 7) (build_data_header 3) [8, 9] @ [1]\<rparr>" 3 "[1]"]
  by (auto simp: ReadHalf_after_handshake_def)

end
