(* ===== verification/Handshake.thy ===== *)
theory Handshake
  imports Ws_Upgrade Ws_Writer Wisp_Frame Dns
begin

text \<open>
  The first part of \<open>handle_connection\<close> in \<^verbatim>\<open>src/server/connection.rs\<close>: the real client address, the Wisp
  handshake and the authentication helpers, over the WebSocket of \<^verbatim>\<open>fastwebsockets\<close>.

  While the handshake waits for the client its result is \<^const>\<open>Pending\<close>; \<^const>\<open>None\<close> is a write that never
  returns, which the lemmas exclude for a socket that makes progress.  The bcrypt crate is the parameter
  \<open>bcrypt\<close>: the result of \<^verbatim>\<open>bcrypt::verify(password, hash)\<close>, \<^const>\<open>None\<close> for its error.
\<close>

datatype ConnectionError =
    Upgrade_Error WsUpgradeError | WebSocket_Error WebSocketError | Io_Error ErrorKind
  | ClientClosed | Protocol string | WriterClosed

type_synonym bcrypt = "string \<Rightarrow> string \<Rightarrow> bool option"

section \<open>Authentication\<close>

text \<open>The loop of \<open>parse_client_info_extensions\<close>, with the vector it fills.\<close>

function client_extensions_loop :: "bytes \<Rightarrow> ExtensionEntry list \<Rightarrow> ExtensionEntry list" where
  "client_extensions_loop data extensions =
     (if length data \<ge> 5 then
        let id = data ! 0;
            len = unat (u32_from_le_bytes [data ! 1, data ! 2, data ! 3, data ! 4]);
            data = drop 5 data
        in if length data < len then extensions
           else client_extensions_loop (drop len data)
                  (extensions @ [\<lparr>ext_id = id, ext_payload = take len data\<rparr>])
      else extensions)"
  by pat_completeness auto
termination
  by (relation "measure (length \<circ> fst)") auto

declare client_extensions_loop.simps [simp del]

definition parse_client_info_extensions :: "bytes \<Rightarrow> ExtensionEntry list" where
  "parse_client_info_extensions payload =
     (let EXT_OFFSET = WISP_HEADER_SIZE + 2
      in if length payload \<le> EXT_OFFSET then []
         else client_extensions_loop (drop EXT_OFFSET payload) [])"

definition verify_password :: "bcrypt \<Rightarrow> bytes \<Rightarrow> string \<Rightarrow> bool" where
  "verify_password bcrypt password_bytes stored =
     (case from_utf8 password_bytes of
        None \<Rightarrow> False
      | Some password_str \<Rightarrow>
          if starts_with stored ''$2b$'' \<or> starts_with stored ''$2a$''
          then (case bcrypt password_str stored of Some b \<Rightarrow> b | None \<Rightarrow> False)
          else as_bytes password_str = as_bytes stored)"

text \<open>The fallback at the end of the multi-user branch: the payload as the password of \<^verbatim>\<open>default\<close>.\<close>

definition verify_default :: "bcrypt \<Rightarrow> bytes \<Rightarrow> ServerConfig \<Rightarrow> bool" where
  "verify_default bcrypt auth_payload config =
     (case Mapping.lookup (cfg_auth_users config) ''default'' of
        Some stored \<Rightarrow> verify_password bcrypt auth_payload stored
      | None \<Rightarrow> False)"

definition verify_auth :: "bcrypt \<Rightarrow> bytes \<Rightarrow> ServerConfig \<Rightarrow> bool" where
  "verify_auth bcrypt auth_payload config =
     (if \<not> Mapping.is_empty (cfg_auth_users config) then
        (if length auth_payload \<ge> 2 then
           (let username_len = unat (auth_payload ! 0)
            in if length auth_payload \<ge> 1 + username_len + 1 then
                 (case from_utf8 (take username_len (drop 1 auth_payload)) of
                    None \<Rightarrow> False
                  | Some username \<Rightarrow>
                      let password_bytes = drop (1 + username_len) auth_payload
                      in case Mapping.lookup (cfg_auth_users config) username of
                           Some stored \<Rightarrow> verify_password bcrypt password_bytes stored
                         | None \<Rightarrow> False)
               else verify_default bcrypt auth_payload config)
         else verify_default bcrypt auth_payload config)
      else case cfg_auth_password config of
             Some required_pw \<Rightarrow> auth_payload = as_bytes required_pw
           | None \<Rightarrow> False)"

section \<open>The WebSocket before it is split\<close>

record 'w ws =
  ws_read_half :: ReadHalf
  ws_write_half :: WriteHalf
  ws_inbound :: chunks
  ws_world :: 'w

text \<open>\<^verbatim>\<open>WebSocket::set_writev_threshold\<close> sets the threshold of both halves.\<close>

definition set_writev_threshold :: "usize \<Rightarrow> 'w ws \<Rightarrow> 'w ws" where
  [simp]: "set_writev_threshold threshold ws =
     ws\<lparr>ws_read_half := (ws_read_half ws)\<lparr>rh_writev_threshold := threshold\<rparr>,
        ws_write_half := (ws_write_half ws)\<lparr>wh_writev_threshold := threshold\<rparr>\<rparr>"

definition writev_always :: "'w ws \<Rightarrow> 'w ws" where
  [simp]: "writev_always ws = set_writev_threshold 0 (ws\<lparr>ws_write_half := set_writev True (ws_write_half ws)\<rparr>)"

text \<open>A server never masks, so the random mask key of \<open>WriteHalf_write_frame\<close> is not used.\<close>

definition WebSocket_write_frame ::
  "'w env \<Rightarrow> cpu \<Rightarrow> sock \<Rightarrow> Frame \<Rightarrow> 'w ws \<Rightarrow> ((WebSocketError + unit) \<times> 'w ws) option" where
  "WebSocket_write_frame E cpu s f ws =
     (case WriteHalf_write_frame E cpu [0, 0, 0, 0] s f (ws_write_half ws) (ws_world ws) of
        None \<Rightarrow> None
      | Some (r, wh, w) \<Rightarrow> Some (r, ws\<lparr>ws_write_half := wh, ws_world := w\<rparr>))"

definition unread :: "ReadHalf \<Rightarrow> chunks \<Rightarrow> nat" where
  "unread rh cs = length (rh_buffer rh) + length (delivered cs)"

lemma read_until_unread:
  "read_until n buf cs = (r, buf', cs') \<Longrightarrow>
   length buf' + length (delivered cs') = length buf + length (delivered cs) \<and>
   (r = Ready (Inr ()) \<longrightarrow> n \<le> length buf')"
  by (induction n buf cs rule: read_until.induct)
    (auto simp: delivered_def split: if_splits sum.splits)

lemma parse_frame_header_unread:
  assumes "parse_frame_header rh cs = (Ready (Inr f), rh', cs')"
  shows "unread rh' cs' < unread rh cs"
proof -
  obtain b1 c1 where r1: "read_until 2 (rh_buffer rh) cs = (Ready (Inr ()), b1, c1)"
    using assms by (fastforce simp: parse_frame_header_def split: prod.splits poll.splits sum.splits)
  obtain p2 b2 c2 where r2: "read_until (header_size (b1 ! 1)) b1 c1 = (p2, b2, c2)"
    using prod_cases3 by blast
  obtain p3 b3 c3 where r3: "read_until (header_size (b1 ! 1) + peek_payload_len b2) b2 c2 = (p3, b3, c3)"
    using prod_cases3 by blast
  from assms have "p3 = Ready (Inr ())"
    and end3: "rh_buffer rh' = drop (peek_payload_len b2) (drop (header_size (b1 ! 1)) b3)" "cs' = c3"
    unfolding parse_steps r1 prod.case poll.case sum.case
    by (auto simp: r2 r3 simp del: One_nat_def split: sum.splits poll.splits option.splits)
  with read_until_unread [OF r1] read_until_unread [OF r2] read_until_unread [OF r3]
    header_size_ge [of "b1 ! 1"] show ?thesis
    unfolding unread_def end3 by simp arith
qed

lemma read_frame_inner_unread:
  assumes "read_frame_inner cpu rh cs = (Ready (Inr f, ob), rh', cs')"
  shows "unread rh' cs' < unread rh cs"
proof -
  obtain p rh1 cs1 where p: "parse_frame_header rh cs = (p, rh1, cs1)"
    using prod_cases3 by blast
  with assms obtain g where "p = Ready (Inr g)" "rh' = rh1" "cs' = cs1"
    by (cases p) (auto simp: read_frame_inner_def Let_def split: sum.splits)
  with p show ?thesis
    using parse_frame_header_unread by blast
qed

definition send_obligated ::
  "'w env \<Rightarrow> cpu \<Rightarrow> sock \<Rightarrow> Frame option \<Rightarrow> 'w ws \<Rightarrow> ((WebSocketError + unit) \<times> 'w ws) option" where
  "send_obligated E cpu s obligated_send ws =
     (case obligated_send of
        Some frame \<Rightarrow>
          if \<not> wh_closed (ws_write_half ws) then WebSocket_write_frame E cpu s frame ws else Some (Inr (), ws)
      | None \<Rightarrow> Some (Inr (), ws))"

lemma WebSocket_write_frame_reads:
  "WebSocket_write_frame E cpu s f ws = Some (r, ws') \<Longrightarrow>
   ws_read_half ws' = ws_read_half ws \<and> ws_inbound ws' = ws_inbound ws"
  by (auto simp: WebSocket_write_frame_def split: option.splits)

lemma send_obligated_reads:
  "send_obligated E cpu s ob ws = Some (r, ws') \<Longrightarrow>
   ws_read_half ws' = ws_read_half ws \<and> ws_inbound ws' = ws_inbound ws"
  by (auto simp: send_obligated_def dest: WebSocket_write_frame_reads split: option.splits if_splits)

abbreviation ws_unread :: "'w ws \<Rightarrow> nat" where
  "ws_unread ws \<equiv> unread (ws_read_half ws) (ws_inbound ws)"

text \<open>\<^verbatim>\<open>WebSocket::read_frame\<close>; each turn of the loop consumes a frame.\<close>

function WebSocket_read_frame ::
  "'w env \<Rightarrow> cpu \<Rightarrow> sock \<Rightarrow> 'w ws \<Rightarrow> ((WebSocketError + Frame) poll \<times> 'w ws) option" where
  "WebSocket_read_frame E cpu s ws =
     (case read_frame_inner cpu (ws_read_half ws) (ws_inbound ws) of
        (Pending, rh, cs) \<Rightarrow> Some (Pending, ws\<lparr>ws_read_half := rh, ws_inbound := cs\<rparr>)
      | (Ready (res, obligated_send), rh, cs) \<Rightarrow>
          let ws1 = ws\<lparr>ws_read_half := rh, ws_inbound := cs\<rparr>;
              is_closed = wh_closed (ws_write_half ws1)
          in case send_obligated E cpu s obligated_send ws1 of
               None \<Rightarrow> None
             | Some (Inl e, ws2) \<Rightarrow> Some (Ready (Inl e), ws2)
             | Some (Inr _, ws2) \<Rightarrow>
                 (case res of
                    Inl e \<Rightarrow> Some (Ready (Inl e), ws2)
                  | Inr (Some frame) \<Rightarrow>
                      if is_closed \<and> fr_opcode frame \<noteq> OpClose then Some (Ready (Inl ConnectionClosed), ws2)
                      else Some (Ready (Inr frame), ws2)
                  | Inr None \<Rightarrow> WebSocket_read_frame E cpu s ws2))"
  by pat_completeness auto
termination
proof (relation "measure (\<lambda>(E, cpu, s, ws). ws_unread ws)")
qed (auto dest!: read_frame_inner_unread [OF sym] send_obligated_reads [OF sym] send_obligated_reads)

declare WebSocket_read_frame.simps [simp del]

text \<open>A frame that is returned is the one just read, or the one a further turn returns.\<close>

lemma WebSocket_read_frame_step:
  assumes "WebSocket_read_frame E cpu s ws = Some (Ready (Inr g), ws')"
  obtains fo ob ws2 where
    "read_frame_inner cpu (ws_read_half ws) (ws_inbound ws) = (Ready (Inr fo, ob), ws_read_half ws2, ws_inbound ws2)"
    "case fo of None \<Rightarrow> WebSocket_read_frame E cpu s ws2 = Some (Ready (Inr g), ws') | Some f \<Rightarrow> g = f \<and> ws' = ws2"
proof -
  obtain p rh cs where inner: "read_frame_inner cpu (ws_read_half ws) (ws_inbound ws) = (p, rh, cs)"
    using prod_cases3 by blast
  let ?ws1 = "ws\<lparr>ws_read_half := rh, ws_inbound := cs\<rparr>"
  from assms inner obtain res ob where p: "p = Ready (res, ob)"
    by (cases p) (auto simp: WebSocket_read_frame.simps [of E cpu s ws])
  have eq: "WebSocket_read_frame E cpu s ws =
      (case send_obligated E cpu s ob ?ws1 of
         None \<Rightarrow> None
       | Some (Inl e, ws2) \<Rightarrow> Some (Ready (Inl e), ws2)
       | Some (Inr _, ws2) \<Rightarrow>
           (case res of
              Inl e \<Rightarrow> Some (Ready (Inl e), ws2)
            | Inr (Some frame) \<Rightarrow>
                if wh_closed (ws_write_half ?ws1) \<and> fr_opcode frame \<noteq> OpClose
                then Some (Ready (Inl ConnectionClosed), ws2) else Some (Ready (Inr frame), ws2)
            | Inr None \<Rightarrow> WebSocket_read_frame E cpu s ws2))"
    by (subst WebSocket_read_frame.simps) (simp add: inner p Let_def)
  from assms obtain u ws2 fo where ws2: "send_obligated E cpu s ob ?ws1 = Some (Inr u, ws2)" and res: "res = Inr fo"
    unfolding eq by (auto split: option.splits sum.splits)
  then have "ws_read_half ws2 = rh" "ws_inbound ws2 = cs"
    by (auto dest: send_obligated_reads)
  moreover have "case fo of None \<Rightarrow> WebSocket_read_frame E cpu s ws2 = Some (Ready (Inr g), ws') | Some f \<Rightarrow> g = f \<and> ws' = ws2"
    using assms unfolding eq by (auto simp: ws2 res split: option.splits if_splits)
  ultimately show ?thesis
    using that inner p res by blast
qed

text \<open>Reading consumes: what the client has sent and was not yet read shrinks with every frame.\<close>

lemma WebSocket_read_frame_unread:
  assumes "WebSocket_read_frame E cpu s ws = Some (Ready (Inr g), ws')"
  shows "ws_unread ws' < ws_unread ws"
  using assms
proof (induction ws rule: measure_induct_rule [where f = ws_unread])
  case (less ws)
  then obtain fo ob ws2 where
    inner: "read_frame_inner cpu (ws_read_half ws) (ws_inbound ws) = (Ready (Inr fo, ob), ws_read_half ws2, ws_inbound ws2)"
    and "case fo of None \<Rightarrow> WebSocket_read_frame E cpu s ws2 = Some (Ready (Inr g), ws') | Some f \<Rightarrow> g = f \<and> ws' = ws2"
    using WebSocket_read_frame_step by blast
  with less.IH [of ws2] read_frame_inner_unread [OF inner] show ?case
    by (auto split: option.splits)
qed

section \<open>The handshake\<close>

function read_ws_binary_handshake ::
  "'w env \<Rightarrow> cpu \<Rightarrow> sock \<Rightarrow> 'w ws \<Rightarrow> ((ConnectionError + bytes) poll \<times> 'w ws) option" where
  "read_ws_binary_handshake E cpu s ws =
     (case WebSocket_read_frame E cpu s ws of
        None \<Rightarrow> None
      | Some (Pending, ws1) \<Rightarrow> Some (Pending, ws1)
      | Some (Ready (Inl e), ws1) \<Rightarrow> Some (Ready (Inl (WebSocket_Error e)), ws1)
      | Some (Ready (Inr frame), ws1) \<Rightarrow>
          (case fr_opcode frame of
             OpBinary \<Rightarrow> Some (Ready (Inr (fr_payload frame)), ws1)
           | OpClose \<Rightarrow> Some (Ready (Inl ClientClosed), ws1)
           | OpPing \<Rightarrow>
               (case WebSocket_write_frame E cpu s (Frame_pong (fr_payload frame)) ws1 of
                  None \<Rightarrow> None
                | Some (Inl e, ws2) \<Rightarrow> Some (Ready (Inl (WebSocket_Error e)), ws2)
                | Some (Inr _, ws2) \<Rightarrow> read_ws_binary_handshake E cpu s ws2)
           | _ \<Rightarrow> read_ws_binary_handshake E cpu s ws1))"
  by pat_completeness auto
termination
proof (relation "measure (\<lambda>(E, cpu, s, ws). ws_unread ws)")
qed (auto dest!: WebSocket_read_frame_unread [OF sym] WebSocket_read_frame_unread WebSocket_write_frame_reads [OF sym] WebSocket_write_frame_reads)

declare read_ws_binary_handshake.simps [simp del]

text \<open>\<^verbatim>\<open>ws.write_frame(Frame::binary(..)).await?\<close> followed by the given result.\<close>

definition send_then ::
  "'w env \<Rightarrow> cpu \<Rightarrow> sock \<Rightarrow> bytes \<Rightarrow> (ConnectionError + 'a) \<Rightarrow> 'w ws \<Rightarrow>
   ((ConnectionError + 'a) poll \<times> 'w ws) option" where
  "send_then E cpu s frame r ws =
     (case WebSocket_write_frame E cpu s (Frame_binary frame) ws of
        None \<Rightarrow> None
      | Some (Inl e, ws') \<Rightarrow> Some (Ready (Inl (WebSocket_Error e)), ws')
      | Some (Inr _, ws') \<Rightarrow> Some (Ready r, ws'))"

definition is_valid_info :: "bytes \<Rightarrow> bool" where
  "is_valid_info first_payload \<longleftrightarrow>
     length first_payload \<ge> WISP_HEADER_SIZE + 2 \<and> first_payload ! 0 = PACKET_INFO \<and>
     u32_from_le_bytes [first_payload ! 1, first_payload ! 2, first_payload ! 3, first_payload ! 4] =
       STREAM_ID_CONTROL"

text \<open>What a v2 client's first binary frame leads to; the result is the deferred frame.\<close>

definition first_frame ::
  "'w env \<Rightarrow> cpu \<Rightarrow> bcrypt \<Rightarrow> sock \<Rightarrow> ServerConfig \<Rightarrow> bytes \<Rightarrow> 'w ws \<Rightarrow>
   ((ConnectionError + bytes option) poll \<times> 'w ws) option" where
  "first_frame E cpu bcrypt s config first_payload ws =
     (if is_valid_info first_payload then
        (let client_major = first_payload ! WISP_HEADER_SIZE
         in if client_major \<noteq> WISP_VERSION_MAJOR then
              send_then E cpu s (build_close_frame STREAM_ID_CONTROL IncompatibleExtensions)
                (Inl (Protocol ''Incompatible Wisp version'')) ws
            else
              let client_extensions = parse_client_info_extensions first_payload;
                  auth_ext = find (\<lambda>e. ext_id e = 0x02) client_extensions;
                  authed = (case auth_ext of
                              Some ext \<Rightarrow> verify_auth bcrypt (ext_payload ext) config
                            | None \<Rightarrow> False)
              in if is_auth_required config \<and> \<not> authed then
                   send_then E cpu s (build_close_frame STREAM_ID_CONTROL AuthInvalidCredentials)
                     (Inl (Protocol ''Auth failed'')) ws
                 else
                   send_then E cpu s (build_initial_continue_frame (cfg_buffer_size config)) (Inr None) ws)
      else if is_auth_required config then
        send_then E cpu s (build_close_frame STREAM_ID_CONTROL AuthRequired)
          (Inl (Protocol ''Auth required'')) ws
      else
        send_then E cpu s (build_initial_continue_frame (cfg_buffer_size config)) (Inr (Some first_payload)) ws)"

text \<open>Step 2 of \<open>handle_connection\<close>, with the two calls that make every write of a frame vectored.\<close>

definition handshake ::
  "'w env \<Rightarrow> cpu \<Rightarrow> bcrypt \<Rightarrow> sock \<Rightarrow> ServerConfig \<Rightarrow> bool \<Rightarrow> 'w ws \<Rightarrow>
   ((ConnectionError + bytes option) poll \<times> 'w ws) option" where
  "handshake E cpu bcrypt s config is_v2 ws =
     (let ws = writev_always ws
      in if is_v2 then
           (case WebSocket_write_frame E cpu s (Frame_binary (build_server_info_frame [])) ws of
              None \<Rightarrow> None
            | Some (Inl e, ws1) \<Rightarrow> Some (Ready (Inl (WebSocket_Error e)), ws1)
            | Some (Inr _, ws1) \<Rightarrow>
                (case read_ws_binary_handshake E cpu s ws1 of
                   None \<Rightarrow> None
                 | Some (Pending, ws2) \<Rightarrow> Some (Pending, ws2)
                 | Some (Ready (Inl e), ws2) \<Rightarrow> Some (Ready (Inl e), ws2)
                 | Some (Ready (Inr first_payload), ws2) \<Rightarrow>
                     first_frame E cpu bcrypt s config first_payload ws2))
         else if is_auth_required config then
           send_then E cpu s (build_close_frame STREAM_ID_CONTROL AuthRequired)
             (Inl (Protocol ''Auth required, v2 protocol mandatory'')) ws
         else
           send_then E cpu s (build_initial_continue_frame (cfg_buffer_size config)) (Inr None) ws)"

text \<open>The real client address: the peer's unless a trusted proxy names another.\<close>

definition client_ip_of ::
  "('n \<Rightarrow> IpAddr \<Rightarrow> bool) \<Rightarrow> ServerConfig \<Rightarrow> 'n list \<Rightarrow> IpAddr \<Rightarrow> (string \<times> string) list \<Rightarrow> IpAddr" where
  "client_ip_of contains config trusted_proxies peer headers =
     (if cfg_real_ip_enabled config \<and> cfg_real_ip_headers config \<noteq> [] then
        (if is_trusted_proxy contains peer trusted_proxies then
           (case extract_real_ip headers (cfg_real_ip_headers config) of
              Some real_ip \<Rightarrow> real_ip
            | None \<Rightarrow> peer)
         else peer)
      else peer)"

section \<open>Lemmas: what is written, and that it returns\<close>

lemma WriteHalf_write_frame_role:
  "WriteHalf_write_frame E cpu rnd s f wh w = Some (r, wh', w') \<Longrightarrow> wh_role wh' = wh_role wh"
  by (auto simp: WriteHalf_write_frame_def Let_def split: if_splits option.splits prod.splits)

lemma WebSocket_write_frame_ok:
  assumes "io_ok E sent" "progress E" "cpu_ok cpu" "fr_mask f = None" "wh_role (ws_write_half ws) = Server"
  shows "\<exists>r ws'. WebSocket_write_frame E cpu s f ws = Some (r, ws') \<and> wh_role (ws_write_half ws') = Server \<and>
    (\<not> wh_closed (ws_write_half ws) \<longrightarrow> delivers sent s (ws_wire f) (r = Inr ()) (ws_world ws) (ws_world ws'))"
proof -
  obtain r wh' w' where wr: "WriteHalf_write_frame E cpu [0, 0, 0, 0] s f (ws_write_half ws) (ws_world ws) = Some (r, wh', w')"
    and del: "\<not> wh_closed (ws_write_half ws) \<Longrightarrow>
      delivers sent s (ws_head (fr_fin f) (fr_opcode f) None (length (fr_payload f)) @ fr_payload f) (r = Inr ()) (ws_world ws) w'"
    using WriteHalf_write_frame_delivers [OF assms(1-3) _ assms(4), of "[0, 0, 0, 0]" s "ws_write_half ws" "ws_world ws"] assms(5)
    by (auto simp: Let_def split: if_splits)
  from wr del WriteHalf_write_frame_role [OF wr] assms(4,5) show ?thesis
    by (simp add: WebSocket_write_frame_def ws_wire_def)
qed

lemma read_frame_inner_obligated:
  "read_frame_inner cpu rh cs = (Ready (res, Some f), rh', cs') \<Longrightarrow> fr_mask f = None"
  by (auto simp: read_frame_inner_def Let_def Frame_close_raw_def Frame_close_def Frame_pong_def Frame_new_def
      split: prod.splits poll.splits sum.splits if_splits)

lemma send_obligated_ok:
  assumes "io_ok E sent" "progress E" "cpu_ok cpu" "\<And>f. ob = Some f \<Longrightarrow> fr_mask f = None" "wh_role (ws_write_half ws) = Server"
  shows "\<exists>r ws'. send_obligated E cpu s ob ws = Some (r, ws') \<and> wh_role (ws_write_half ws') = Server"
proof (cases ob)
  case (Some f)
  from WebSocket_write_frame_ok [OF assms(1-3) assms(4) [OF Some] assms(5), of s] Some assms(5) show ?thesis
    by (cases "wh_closed (ws_write_half ws)") (auto simp: send_obligated_def)
qed (simp add: send_obligated_def assms(5))

lemma WebSocket_read_frame_returns:
  assumes "io_ok E sent" "progress E" "cpu_ok cpu" "wh_role (ws_write_half ws) = Server"
  shows "\<exists>r ws'. WebSocket_read_frame E cpu s ws = Some (r, ws') \<and> wh_role (ws_write_half ws') = Server"
  using assms(4)
proof (induction ws rule: measure_induct_rule [where f = ws_unread])
  case (less ws)
  obtain p rh cs where inner: "read_frame_inner cpu (ws_read_half ws) (ws_inbound ws) = (p, rh, cs)"
    using prod_cases3 by blast
  let ?ws1 = "ws\<lparr>ws_read_half := rh, ws_inbound := cs\<rparr>"
  show ?case
  proof (cases p)
    case Pending
    with inner less.prems show ?thesis
      by (subst WebSocket_read_frame.simps) simp
  next
    case (Ready x)
    obtain res ob where x: "x = (res, ob)"
      by fastforce
    have "\<And>f. ob = Some f \<Longrightarrow> fr_mask f = None"
      using inner Ready x read_frame_inner_obligated by blast
    then obtain r ws2 where ws2: "send_obligated E cpu s ob ?ws1 = Some (r, ws2)" "wh_role (ws_write_half ws2) = Server"
      using send_obligated_ok [OF assms(1-3), of ob ?ws1 s] less.prems by auto
    show ?thesis
    proof (cases "\<exists>u. r = Inr u \<and> res = Inr None")
      case True
      then have "WebSocket_read_frame E cpu s ws = WebSocket_read_frame E cpu s ws2"
        using inner Ready x ws2 by (subst WebSocket_read_frame.simps) (auto simp: Let_def)
      moreover have "ws_unread ws2 < ws_unread ws"
        using read_frame_inner_unread [of cpu "ws_read_half ws" "ws_inbound ws" None ob rh cs] inner Ready x True
          send_obligated_reads [OF ws2(1)] by auto
      ultimately show ?thesis
        using less.IH ws2(2) by simp
    next
      case False
      with inner Ready x ws2 show ?thesis
        by (subst WebSocket_read_frame.simps) (auto simp: Let_def split: sum.split option.split)
    qed
  qed
qed

lemma read_ws_binary_handshake_returns:
  assumes "io_ok E sent" "progress E" "cpu_ok cpu" "wh_role (ws_write_half ws) = Server"
  shows "\<exists>r ws'. read_ws_binary_handshake E cpu s ws = Some (r, ws') \<and> wh_role (ws_write_half ws') = Server"
  using assms(4)
proof (induction ws rule: measure_induct_rule [where f = ws_unread])
  case (less ws)
  obtain p ws1 where rd: "WebSocket_read_frame E cpu s ws = Some (p, ws1)" and role: "wh_role (ws_write_half ws1) = Server"
    using WebSocket_read_frame_returns [OF assms(1-3) less.prems] by blast
  show ?case
  proof (cases p)
    case Pending
    with rd role show ?thesis
      by (subst read_ws_binary_handshake.simps) simp
  next
    case (Ready x)
    show ?thesis
    proof (cases x)
      case (Inl e)
      with rd role Ready show ?thesis
        by (subst read_ws_binary_handshake.simps) simp
    next
      case (Inr f)
      have "fr_mask (Frame_pong (fr_payload f)) = None"
        by (simp add: Frame_pong_def)
      then obtain r2 ws2 where pong: "WebSocket_write_frame E cpu s (Frame_pong (fr_payload f)) ws1 = Some (r2, ws2)"
          "wh_role (ws_write_half ws2) = Server"
        using WebSocket_write_frame_ok [OF assms(1-3) _ role] by blast
      have "ws_unread ws1 < ws_unread ws"
        using WebSocket_read_frame_unread rd Ready Inr by blast
      then have IH: "\<exists>r ws'. read_ws_binary_handshake E cpu s ws1 = Some (r, ws') \<and> wh_role (ws_write_half ws') = Server"
          "\<exists>r ws'. read_ws_binary_handshake E cpu s ws2 = Some (r, ws') \<and> wh_role (ws_write_half ws') = Server"
        using less.IH role pong WebSocket_write_frame_reads [OF pong(1)] by simp_all
      from rd role Ready Inr pong IH show ?thesis
        by (subst read_ws_binary_handshake.simps; cases "fr_opcode f"; cases r2) simp_all
    qed
  qed
qed

section \<open>Lemmas: the client's first frame\<close>

lemma as_bytes_inject [simp]: "as_bytes s = as_bytes t \<longleftrightarrow> s = t"
  unfolding as_bytes_def by (rule inj_map_eq_map) (metis char_of_byte_of_char injI)

text \<open>A masked binary message of which all bytes have arrived is read at once.\<close>

lemma read_arrived_binary:
  assumes "cpu_ok cpu" "length key = 4" "live (ws_inbound ws)" "ws_read_half ws = rh"
    and "rh_buffer rh @ delivered (ws_inbound ws) = ws_head True OpBinary (Some key) (length p) @ mask_from 0 key p"
    and "rh_role rh = Server" "rh_auto_apply_mask rh" "length p \<le> rh_max_message_size rh" "length p < 2 ^ 64"
    and "\<not> wh_closed (ws_write_half ws)"
  shows "\<exists>ws'. read_ws_binary_handshake E cpu s ws = Some (Ready (Inr p), ws') \<and> ws_write_half ws' = ws_write_half ws"
proof -
  let ?m = "mask_from 0 key p" and ?cs = "ws_inbound ws"
  let ?rh = "rh\<lparr>rh_buffer := rh_buffer rh @ delivered ?cs\<rparr>"
  have "try_parse_frame_buffered ?rh = (Some (Inr (Frame_new True OpBinary (Some key) ?m)), ?rh\<lparr>rh_buffer := []\<rparr>)"
    by (rule try_parse_wire) (use assms in \<open>simp_all add: is_control_def\<close>)
  with parse_frame_header_eq [OF assms(3), of rh] obtain buf' cs' where
    hd: "parse_frame_header rh ?cs = (Ready (Inr (Frame_new True OpBinary (Some key) ?m)), rh\<lparr>rh_buffer := buf'\<rparr>, cs')"
    by auto
  have "Frame_unmask cpu (Frame_new True OpBinary (Some key) ?m) = Frame_new True OpBinary (Some key) p"
    using assms(1,2) by (simp add: Frame_unmask_def Frame_new_def unmask_on_eq mask_from_involution)
  then have inner: "read_frame_inner cpu rh ?cs =
      (Ready (Inr (Some (Frame_new True OpBinary (Some key) p)), None), rh\<lparr>rh_buffer := buf'\<rparr>, cs')"
    unfolding read_frame_inner_def hd using assms(6,7) by (simp add: Let_def) (simp add: Frame_new_def)
  have "\<exists>ws'. WebSocket_read_frame E cpu s ws = Some (Ready (Inr (Frame_new True OpBinary (Some key) p)), ws') \<and>
      ws_write_half ws' = ws_write_half ws"
    by (subst WebSocket_read_frame.simps) (use assms inner in \<open>simp add: send_obligated_def Let_def\<close>)
  then show ?thesis
    by (subst read_ws_binary_handshake.simps) (auto simp: Frame_new_def)
qed

lemma client_extensions_loop_eq: "client_extensions_loop data acc = acc @ parse_extensions data"
  by (induction data acc rule: client_extensions_loop.induct)
    (simp add: client_extensions_loop.simps parse_extensions.simps Let_def)

lemma parse_client_info_extensions_eq: "parse_client_info_extensions p = parse_extensions (drop 7 p)"
  by (simp add: parse_client_info_extensions_def client_extensions_loop_eq parse_extensions.simps)

lemma valid_info_parse:
  "is_valid_info p \<Longrightarrow>
   parse_wisp_frame p = Some (Info 0 (p ! 5) (p ! 6) (parse_client_info_extensions p))"
  by (auto simp: is_valid_info_def parse_wisp_frame_def parse_info_def parse_client_info_extensions_eq Let_def)

lemma invalid_info_parse: "\<not> is_valid_info p \<Longrightarrow> parse_wisp_frame p \<noteq> Some (Info 0 major minor exts)"
  by (auto simp: is_valid_info_def parse_wisp_frame_def parse_info_def parse_connect_def parse_continue_def
      parse_close_def Let_def split: if_splits option.splits)

definition authorised :: "bcrypt \<Rightarrow> ServerConfig \<Rightarrow> ExtensionEntry list \<Rightarrow> bool" where
  "authorised bcrypt config exts =
     (case find (\<lambda>e. ext_id e = 0x02) exts of
        Some ext \<Rightarrow> verify_auth bcrypt (ext_payload ext) config | None \<Rightarrow> False)"

text \<open>The decision on the first frame in terms of the Wisp parser: the reason and message of a refusal.\<close>

definition verdict :: "bcrypt \<Rightarrow> ServerConfig \<Rightarrow> WispFrame option \<Rightarrow> (CloseReason \<times> string) option" where
  "verdict bcrypt config frame =
     (case frame of
        Some (Info sid major minor exts) \<Rightarrow>
          if sid = 0 then
            (if major \<noteq> 2 then Some (IncompatibleExtensions, ''Incompatible Wisp version'')
             else if is_auth_required config \<and> \<not> authorised bcrypt config exts
             then Some (AuthInvalidCredentials, ''Auth failed'') else None)
          else if is_auth_required config then Some (AuthRequired, ''Auth required'') else None
      | _ \<Rightarrow> if is_auth_required config then Some (AuthRequired, ''Auth required'') else None)"

lemma verdict_info:
  "is_valid_info p \<Longrightarrow> verdict bcrypt config (parse_wisp_frame p) =
     (if p ! 5 \<noteq> 2 then Some (IncompatibleExtensions, ''Incompatible Wisp version'')
      else if is_auth_required config \<and> \<not> authorised bcrypt config (parse_client_info_extensions p)
      then Some (AuthInvalidCredentials, ''Auth failed'') else None)"
  by (simp add: valid_info_parse verdict_def)

lemma verdict_other:
  assumes "\<not> is_valid_info p"
  shows "verdict bcrypt config (parse_wisp_frame p) =
     (if is_auth_required config then Some (AuthRequired, ''Auth required'') else None)"
  using invalid_info_parse [OF assms] by (auto simp: verdict_def split: option.split WispFrame.split)

lemma first_frame_eq:
  "first_frame E cpu bcrypt s config p ws =
     (case verdict bcrypt config (parse_wisp_frame p) of
        Some (reason, msg) \<Rightarrow> send_then E cpu s (build_close_frame 0 reason) (Inl (Protocol msg)) ws
      | None \<Rightarrow> send_then E cpu s (build_initial_continue_frame (cfg_buffer_size config))
                 (Inr (if is_valid_info p then None else Some p)) ws)"
proof (cases "is_valid_info p")
  case True
  then show ?thesis
    unfolding verdict_info [OF True] first_frame_def Let_def authorised_def by simp
next
  case False
  then show ?thesis
    unfolding verdict_other [OF False] first_frame_def by simp
qed

lemma send_then_ok:
  assumes "io_ok E sent" "progress E" "cpu_ok cpu" "wh_role (ws_write_half ws) = Server" 
  shows "\<exists>r' ws'. send_then E cpu s frame r ws = Some (Ready r', ws') \<and>
     (\<not> wh_closed (ws_write_half ws) \<longrightarrow>
       delivers sent s (ws_binary frame) (\<forall>e. r' \<noteq> Inl (WebSocket_Error e)) (ws_world ws) (ws_world ws')) \<and>
     (r' = r \<or> (\<exists>e. r' = Inl (WebSocket_Error e)))"
proof -
  have "fr_mask (Frame_binary frame) = None"
    by (simp add: Frame_binary_def)
  from WebSocket_write_frame_ok [OF assms(1-3) this assms(4), of s]
  obtain x ws' where x: "WebSocket_write_frame E cpu s (Frame_binary frame) ws = Some (x, ws')"
    "\<not> wh_closed (ws_write_half ws) \<longrightarrow> delivers sent s (ws_binary frame) (x = Inr ()) (ws_world ws) (ws_world ws')"
    unfolding ws_binary_def by blast
  then show ?thesis
    by (cases x) (auto simp: send_then_def delivers_def)
qed

section \<open>Small connections\<close>

text \<open>A machine for the witnesses: every write is taken as a whole.\<close>

definition sure_env :: "script_world env" where
  "sure_env = script_env\<lparr>ev_write_vectored := (\<lambda>s bss w.
     (Inr (length (concat bss)), w\<lparr>sw_sent := (sw_sent w)(s := sw_sent w s @ concat bss)\<rparr>))\<rparr>"

lemma sure_env_ok: "io_ok sure_env sw_sent" "progress sure_env"
proof -
  show "io_ok sure_env sw_sent"
    using script_env_ok unfolding io_ok_def sure_env_def by (auto simp: took_def)
  show "progress sure_env"
    by (auto simp: progress_def sure_env_def simp flip: length_greater_0_conv)
qed

lemma sure_write:
  assumes "fr_mask f = None" "wh_role (ws_write_half ws) = Server" "\<not> wh_closed (ws_write_half ws)"
  shows "\<exists>ws'. WebSocket_write_frame sure_env cpu s f ws = Some (Inr (), ws') \<and>
     wh_role (ws_write_half ws') = Server \<and> (fr_opcode f \<noteq> OpClose \<longrightarrow> \<not> wh_closed (ws_write_half ws'))"
proof -
  have "length (take (fst (fmt_head f (replicate MAX_HEAD_SIZE 0))) (snd (fmt_head f (replicate MAX_HEAD_SIZE 0)))) =
      fst (fmt_head f (replicate MAX_HEAD_SIZE 0))"
    using assms(1) by (simp add: fmt_head_def Let_def)
  then show ?thesis
    using assms
    by (simp add: WebSocket_write_frame_def WriteHalf_write_frame_def Frame_writev_def sure_env_def script_env_def
        Let_def case_prod_beta lift_io_def)
qed

definition guarded_config :: ServerConfig where
  "guarded_config = ServerConfig_default\<lparr>cfg_auth_password := Some ''pwd''\<rparr>"

definition info_frame :: bytes where
  "info_frame = [5, 0, 0, 0, 0, 2, 1, 2, 3, 0, 0, 0, 112, 119, 100]"

definition info_ws :: "script_world ws" where
  "info_ws = \<lparr>ws_read_half = (ReadHalf_after_handshake Server)\<lparr>rh_buffer := [0x82, 0x8F, 0, 0, 0, 0] @ info_frame\<rparr>,
     ws_write_half = WriteHalf_after_handshake Server, ws_inbound = [], ws_world = script_start []\<rparr>"

text \<open>The handshake of a v2 client whose first binary message has arrived and is not refused.\<close>

lemma accepted_handshake:
  assumes "wh_role (ws_write_half ws) = Server" "\<not> wh_closed (ws_write_half ws)" "live (ws_inbound ws)"
    and "rh_role (ws_read_half ws) = Server" "rh_auto_apply_mask (ws_read_half ws)"
    and "length p \<le> rh_max_message_size (ws_read_half ws)" "length p < 2 ^ 64" "length key = 4"
    and "rh_buffer (ws_read_half ws) @ delivered (ws_inbound ws) =
      ws_head True OpBinary (Some key) (length p) @ mask_from 0 key p"
    and "verdict bcrypt config (parse_wisp_frame p) = None"
  shows "\<exists>ws'. handshake sure_env plain_cpu bcrypt 1 config True ws =
    Some (Ready (Inr (if is_valid_info p then None else Some p)), ws')"
proof -
  let ?E = sure_env
  let ?ws0 = "writev_always ws"
  have none: "fr_mask (Frame_binary p) = None" for p
    by (simp add: Frame_binary_def)
  have binary: "fr_opcode (Frame_binary p) \<noteq> OpClose" for p
    by (simp add: Frame_binary_def)
  have open0: "wh_role (ws_write_half ?ws0) = Server" "\<not> wh_closed (ws_write_half ?ws0)"
    using assms(1,2) by simp_all
  obtain ws1 where w1: "WebSocket_write_frame ?E plain_cpu 1 (Frame_binary (build_server_info_frame [])) ?ws0 = Some (Inr (), ws1)"
      "wh_role (ws_write_half ws1) = Server" "\<not> wh_closed (ws_write_half ws1)"
    using sure_write [OF none open0] binary by blast
  have rd1: "ws_read_half ws1 = (ws_read_half ws)\<lparr>rh_writev_threshold := 0\<rparr>" "ws_inbound ws1 = ws_inbound ws"
    using WebSocket_write_frame_reads [OF w1(1)] by simp_all
  obtain ws2 where rd: "read_ws_binary_handshake ?E plain_cpu 1 ws1 = Some (Ready (Inr p), ws2)"
      "ws_write_half ws2 = ws_write_half ws1"
    using read_arrived_binary [OF plain_cpu_ok assms(8) _ rd1(1), of p ?E 1] w1(3) rd1(2) assms by auto
  obtain ws' where w3: "WebSocket_write_frame ?E plain_cpu 1
      (Frame_binary (build_initial_continue_frame (cfg_buffer_size config))) ws2 = Some (Inr (), ws')"
    using sure_write [OF none, of ws2] w1(2,3) rd(2) by metis
  show ?thesis
    unfolding handshake_def Let_def using w1 rd w3 assms(10) by (simp add: first_frame_eq send_then_def)
qed

lemma info_accepted:
  "verdict (\<lambda>_ _. None) guarded_config (parse_wisp_frame info_frame) = None" "is_valid_info info_frame"
proof -
  show valid: "is_valid_info info_frame"
    by code_simp
  have "info_frame ! 5 = 2"
      "parse_client_info_extensions info_frame = [\<lparr>ext_id = 2, ext_payload = [112, 119, 100]\<rparr>]"
    by code_simp+
  moreover have "verify_auth (\<lambda>_ _. None) [112, 119, 100] guarded_config"
    by (simp add: verify_auth_def guarded_config_def ServerConfig_default_def as_bytes_def byte_of_char_def)
  ultimately show "verdict (\<lambda>_ _. None) guarded_config (parse_wisp_frame info_frame) = None"
    by (simp add: verdict_info [OF valid] authorised_def)
qed

text \<open>A client's binary message with a zero mask.\<close>

definition client_binary :: "bytes \<Rightarrow> bytes" where
  "client_binary p = ws_head True OpBinary (Some [0, 0, 0, 0]) (length p) @ mask_from 0 [0, 0, 0, 0] p"

section \<open>Properties\<close>

text \<open>C32. The handshake always comes to an end or waits for the client, whatever bytes the client has sent and however
  the socket splits the writes.\<close>

theorem handshake_returns:
  assumes "io_ok E sent" "progress E" "cpu_ok cpu" "wh_role (ws_write_half ws) = Server"
  shows "\<exists>r ws'. handshake E cpu bcrypt s config is_v2 ws = Some (r, ws')"
proof -
  define ws0 where "ws0 = writev_always ws"
  have role: "wh_role (ws_write_half ws0) = Server"
    by (simp add: ws0_def assms(4))
  have send: "\<exists>x ws'. send_then E cpu s frame r ws = Some (x, ws')"
    if "wh_role (ws_write_half ws) = Server" for frame ws and r :: "ConnectionError + bytes option"
    using send_then_ok [OF assms(1-3) that] by blast
  have first: "\<exists>x ws'. first_frame E cpu bcrypt s config p ws = Some (x, ws')"
    if "wh_role (ws_write_half ws) = Server" for p ws
    using send [OF that] by (auto simp: first_frame_eq split: option.split)
  show ?thesis
  proof (cases is_v2)
    case False
    with send [OF role] show ?thesis
      unfolding handshake_def ws0_def [symmetric] Let_def by auto
  next
    case True
    have "fr_mask (Frame_binary (build_server_info_frame [])) = None"
      by (simp add: Frame_binary_def)
    then obtain r1 ws1 where w1: "WebSocket_write_frame E cpu s (Frame_binary (build_server_info_frame [])) ws0 = Some (r1, ws1)"
        "wh_role (ws_write_half ws1) = Server"
      using WebSocket_write_frame_ok [OF assms(1-3) _ role] by blast
    obtain r2 ws2 where w2: "read_ws_binary_handshake E cpu s ws1 = Some (r2, ws2)" "wh_role (ws_write_half ws2) = Server"
      using read_ws_binary_handshake_returns [OF assms(1-3) w1(2)] by blast
    from True w1 w2 first [OF w2(2)] show ?thesis
      unfolding handshake_def ws0_def [symmetric] Let_def by (auto split: sum.split poll.split)
  qed
qed

theorem handshake_returns_witness:
  "\<exists>r ws'. handshake drip_env plain_cpu (\<lambda>_ _. None) 1 ServerConfig_default True info_ws = Some (r, ws')"
  by (rule handshake_returns [OF drip_env_ok plain_cpu_ok]) (simp add: info_ws_def WriteHalf_after_handshake_def)

text \<open>C31. The answer to a client's first frame, in terms of the Wisp parser: a control-stream INFO of another major
  version, wrong or missing credentials, and, when authentication is required, any other frame are each
  refused with their CLOSE reason and an error; everything else gets the initial CONTINUE with the configured
  buffer size, and a frame that is not an INFO is kept for the main loop.  If the socket fails the error is
  reported and only a prefix of the answer was sent.\<close>

theorem first_frame_answer:
  assumes "io_ok E sent" "progress E" "cpu_ok cpu" "wh_role (ws_write_half ws) = Server" "\<not> wh_closed (ws_write_half ws)"
  shows "\<exists>r ws'. first_frame E cpu bcrypt s config p ws = Some (Ready r, ws') \<and>
     (let (answer, r') =
        (case verdict bcrypt config (parse_wisp_frame p) of
           Some (reason, msg) \<Rightarrow> (build_close_frame 0 reason, Inl (Protocol msg))
         | None \<Rightarrow> (build_initial_continue_frame (cfg_buffer_size config),
                    Inr (if \<exists>major minor exts. parse_wisp_frame p = Some (Info 0 major minor exts) then None else Some p)))
      in delivers sent s (ws_binary answer) (\<forall>e. r \<noteq> Inl (WebSocket_Error e)) (ws_world ws) (ws_world ws') \<and>
         (r = r' \<or> (\<exists>e. r = Inl (WebSocket_Error e))))"
proof -
  have valid: "is_valid_info p = (\<exists>major minor exts. parse_wisp_frame p = Some (Info 0 major minor exts))"
    using valid_info_parse invalid_info_parse by blast
  obtain answer r' where a: "(case verdict bcrypt config (parse_wisp_frame p) of
           Some (reason, msg) \<Rightarrow> (build_close_frame 0 reason, Inl (Protocol msg))
         | None \<Rightarrow> (build_initial_continue_frame (cfg_buffer_size config),
                    Inr (if \<exists>major minor exts. parse_wisp_frame p = Some (Info 0 major minor exts) then None else Some p))) =
       (answer, r')"
    by fastforce
  then have "first_frame E cpu bcrypt s config p ws = send_then E cpu s answer r' ws"
    unfolding first_frame_eq valid by (auto split: option.splits)
  with send_then_ok [OF assms(1-4), of s answer r'] assms(5) show ?thesis
    unfolding a by simp
qed

theorem first_frame_answer_witness:
  "\<exists>r ws'. first_frame drip_env plain_cpu (\<lambda>_ _. None) 1 guarded_config [1, 2, 3] info_ws = Some (Ready r, ws') \<and>
     delivers sw_sent 1 (ws_binary (build_close_frame 0 AuthRequired)) (\<forall>e. r \<noteq> Inl (WebSocket_Error e))
       (ws_world info_ws) (ws_world ws')"
proof -
  have "verdict (\<lambda>_ _. None) guarded_config (parse_wisp_frame [1, 2, 3]) = Some (AuthRequired, ''Auth required'')"
    by (simp add: verdict_def parse_wisp_frame_def guarded_config_def is_auth_required_def)
  with first_frame_answer [OF drip_env_ok plain_cpu_ok, of info_ws "\<lambda>_ _. None" 1 guarded_config "[1, 2, 3]"] show ?thesis
    by (auto simp: info_ws_def WriteHalf_after_handshake_def)
qed

text \<open>C33. Multi-user credentials: a payload made of a user name, with its length in front, and a non-empty password is
  accepted exactly if the name is configured and the password matches what is stored for it: by bcrypt for a
  \<^verbatim>\<open>$2b$\<close> or \<^verbatim>\<open>$2a$\<close> hash, and else as the stored text.\<close>

theorem multi_user_credentials:
  assumes "\<not> Mapping.is_empty (cfg_auth_users config)"
    and "from_utf8 name = Some user" "length name < 256" "from_utf8 pw = Some password" "pw \<noteq> []"
  shows "verify_auth bcrypt (of_nat (length name) # name @ pw) config \<longleftrightarrow>
     (\<exists>stored. Mapping.lookup (cfg_auth_users config) user = Some stored \<and>
        (if starts_with stored ''$2b$'' \<or> starts_with stored ''$2a$''
         then bcrypt password stored = Some True else password = stored))"
proof -
  have len: "unat (of_nat (length name) :: u8) = length name"
    using assms(3) by (simp add: unat_of_nat)
  have "verify_auth bcrypt (of_nat (length name) # name @ pw) config =
     (case Mapping.lookup (cfg_auth_users config) user of
        Some stored \<Rightarrow> verify_password bcrypt pw stored | None \<Rightarrow> False)"
    using assms len by (auto simp: verify_auth_def Let_def Suc_le_eq)
  then show ?thesis
    using assms(4) by (auto simp: verify_password_def split: option.splits)
qed

theorem multi_user_credentials_witness:
  "let config = ServerConfig_default\<lparr>cfg_auth_users := Mapping.update ''bob'' ''x'' Mapping.empty\<rparr>
   in verify_auth (\<lambda>_ _. None) [3, 98, 111, 98, 120] config \<and> \<not> verify_auth (\<lambda>_ _. None) [3, 98, 111, 98, 121] config"
proof -
  let ?config = "ServerConfig_default\<lparr>cfg_auth_users := Mapping.update ''bob'' ''x'' Mapping.empty\<rparr>"
  have users: "\<not> Mapping.is_empty (cfg_auth_users ?config)" "Mapping.lookup (cfg_auth_users ?config) ''bob'' = Some ''x''"
    by (simp_all add: is_empty_update)
  have utf8: "from_utf8 [98, 111, 98] = Some ''bob''" "from_utf8 [120] = Some ''x''" "from_utf8 [121] = Some ''y''"
    by code_simp+
  show ?thesis
    using multi_user_credentials [OF users(1) utf8(1) _ utf8(2), of "\<lambda>_ _. None"]
      multi_user_credentials [OF users(1) utf8(1) _ utf8(3), of "\<lambda>_ _. None"] users(2)
    by (simp add: starts_with_def)
qed

end
