(* ===== verification/Conn_Handlers.thy ===== *)
theory Conn_Handlers
  imports Handshake Stream_Table Security
begin

text \<open>
  The state of one proxied connection and the handlers of its main loop, \<^verbatim>\<open>src/server/connection.rs\<close>:
  inbound frames, CONNECT for TCP and UDP, control events, and the phases of the loop.

  The connection is one task.  Its state is the record \<open>conn\<close>: the stream table with the cells of the
  cancellation flags, the pending CONTINUE packets and pending streams, the two bounded channels, the tasks it has
  spawned, the worker's DNS cache and the outside world.  A handler is a function of that state; it runs from
  one poll of the event loop to the next, and the other tasks run between handlers (theory \<open>Conn_Loop\<close>).
  A handler that awaits a send on the connection's own full control channel never continues, and one that
  panics ends the process (the release profile aborts on panic); both are values of \<open>halt\<close>.

  Sockets, clock, resolver and task bodies' system calls are the record \<open>net\<close>, fixed per connection in \<open>ctx\<close>.
\<close>

section \<open>State\<close>

datatype ControlEvent =
    StreamClosed u32 CloseReason
  | TcpConnected u32 sock sock CancelFlag
  | TcpConnectFailed u32 CloseReason

record ConnState =
  cs_conn_start :: Instant
  cs_streams_opened :: u32
  cs_client_ip :: IpAddr
  cs_idle_enabled :: bool
  cs_idle_duration :: Duration
  cs_ping_enabled :: bool
  cs_ping_interval_secs :: u64
  cs_pong_timeout :: Duration
  cs_awaiting_pong :: bool
  cs_last_pong :: Instant

text \<open>The socket options that \<open>handle_tcp_connect\<close> hands to the connect task.\<close>

record ConnectOpts =
  co_tcp_nodelay :: bool
  co_buffers_upgraded :: bool
  co_tcp_keepalive_secs :: u64

text \<open>
  The spawned tasks, by where they are: a connect task before its first poll, awaiting the connection, and
  a task awaiting the send of its last event; a reader at the head of its loop, awaiting data, and
  awaiting the send of a frame.
\<close>

datatype task =
    ConnectTask u32 SocketAddr CancelFlag ConnectOpts
  | ConnectWait u32 SocketAddr CancelFlag ConnectOpts
  | EventSend ControlEvent
  | TcpReader u32 sock CancelFlag
  | TcpReading u32 sock CancelFlag
  | TcpSending u32 sock CancelFlag bytes
  | UdpReader u32 sock CancelFlag
  | UdpReading u32 sock CancelFlag
  | UdpSending u32 sock CancelFlag bytes

datatype connect_result = Connected sock sock | ConnectError ErrorKind | ConnectElapsed

record 'w net =
  net_io :: "'w env"
  net_now :: "'w \<Rightarrow> Instant"
  net_lookup_host :: "'w resolver"
  net_connect :: "SocketAddr \<Rightarrow> ConnectOpts \<Rightarrow> 'w \<Rightarrow> connect_result \<times> 'w"
  net_read :: "sock \<Rightarrow> 'w \<Rightarrow> bytes io_result \<times> 'w"
  net_recv_from :: "sock \<Rightarrow> 'w \<Rightarrow> bytes io_result \<times> 'w"
  net_uninit :: "'w \<Rightarrow> bytes"
  net_upgrade_buffers :: "sock \<Rightarrow> 'w \<Rightarrow> 'w"
  net_far_future :: "'w \<Rightarrow> Instant"

record 'w ctx =
  x_net :: "'w net"
  x_config :: ServerConfig
  x_client :: sock
  x_cpu :: cpu
  x_yield_limit :: u32

abbreviation x_io :: "'w ctx \<Rightarrow> 'w env" where
  "x_io X \<equiv> net_io (x_net X)"

record 'w conn =
  c_table :: StreamTable
  c_cells :: cells
  c_pending_continues :: "(u32 \<times> u32) list"
  c_streams_with_pending :: "u32 list"
  c_buffers_upgraded :: bool
  c_control :: "ControlEvent list"
  c_write :: "bytes list"
  c_tasks :: "task list"
  c_cs :: ConnState
  c_dns :: DnsCache
  c_world :: 'w

datatype halt = Blocked_Forever | Panicked

text \<open>A handler that does not come to its end leaves a state too: what it did before it stopped.\<close>

type_synonym ('e, 'w) halting = "'e \<times> 'w conn"

section \<open>Building blocks\<close>

text \<open>\<^verbatim>\<open>let _ = write_ws_binary_frame(tcp_write, ..).await\<close>: the result is ignored.\<close>

definition send_client :: "'w ctx \<Rightarrow> bytes \<Rightarrow> 'w conn \<Rightarrow> 'w conn" where
  "send_client X payload s =
     s\<lparr>c_world := snd (write_ws_binary_frame (x_io X) (x_client X) payload (c_world s))\<rparr>"

definition send_close :: "'w ctx \<Rightarrow> u32 \<Rightarrow> CloseReason \<Rightarrow> 'w conn \<Rightarrow> 'w conn" where
  "send_close X stream_id reason s = send_client X (build_close_frame stream_id reason) s"

definition remove_stream :: "u32 \<Rightarrow> 'w conn \<Rightarrow> ProxyStream option \<times> 'w conn" where
  "remove_stream stream_id s =
     (case StreamTable_remove stream_id (c_cells s) (c_table s) of (taken, h, t) \<Rightarrow>
        (taken, s\<lparr>c_cells := h, c_table := t\<rparr>))"

definition spawn :: "task \<Rightarrow> 'w conn \<Rightarrow> 'w conn" where
  "spawn t s = s\<lparr>c_tasks := c_tasks s @ [t]\<rparr>"

text \<open>The capacities of \<^verbatim>\<open>mpsc::channel\<close> for backend data and control events.\<close>

definition WRITE_CAPACITY :: usize where [simp]: "WRITE_CAPACITY = 4096"
definition CONTROL_CAPACITY :: usize where [simp]: "CONTROL_CAPACITY = 256"

text \<open>
  \<^verbatim>\<open>tx.send(..).await\<close> by the connection's own task: its receiver is held by the same task, so a full channel
  is never drained.
\<close>

definition self_send :: "ControlEvent \<Rightarrow> 'w conn \<Rightarrow> (halt, 'w) halting + 'w conn" where
  "self_send ev s =
     (if length (c_control s) < CONTROL_CAPACITY then Inr (s\<lparr>c_control := c_control s @ [ev]\<rparr>)
      else Inl (Blocked_Forever, s))"

section \<open>DATA\<close>

definition handle_data_zerocopy ::
  "'w ctx \<Rightarrow> u32 \<Rightarrow> u32 \<Rightarrow> u32 \<Rightarrow> bytes \<Rightarrow> 'w conn \<Rightarrow> u32 option \<times> 'w conn" where
  "handle_data_zerocopy X buf_size threshold stream_id data s =
     (case StreamTable_get_mut stream_id (c_table s) of
        None \<Rightarrow> (None, s)
      | Some (ProxyTcp tcp) \<Rightarrow>
          (case tcp_try_write (x_io X) tcp data (c_world s) of (dead, tcp1, w) \<Rightarrow>
             let s1 = s\<lparr>c_world := w, c_table := StreamTable_set stream_id (ProxyTcp tcp1) (c_table s)\<rparr>
             in if dead then (Some stream_id, snd (remove_stream stream_id s1))
                else
                  let (tcp2, swp) =
                        (if tcp_pending tcp1 \<noteq> [] \<and> \<not> tcp_queued_for_drain tcp1
                         then (tcp1\<lparr>tcp_queued_for_drain := True\<rparr>, c_streams_with_pending s @ [stream_id])
                         else (tcp1, c_streams_with_pending s));
                      (due, tcp3) = record_packet threshold tcp2;
                      (tcp4, pc) =
                        (if due then (reset_counter tcp3, c_pending_continues s @ [(stream_id, buf_size)])
                         else (tcp3, c_pending_continues s))
                  in (None, s\<lparr>c_world := w, c_table := StreamTable_set stream_id (ProxyTcp tcp4) (c_table s),
                              c_streams_with_pending := swp, c_pending_continues := pc\<rparr>))
      | Some (ProxyUdp udp) \<Rightarrow>
          (None, s\<lparr>c_world := snd (ev_try_send_to (x_io X) (udp_socket udp) data (udp_dest_addr udp) (c_world s))\<rparr>)
      | Some (ProxyConnecting connecting) \<Rightarrow>
          if length (conn_early_data connecting) < 128
          then (None, s\<lparr>c_table := StreamTable_set stream_id
                           (ProxyConnecting (queue_early_data data connecting)) (c_table s)\<rparr>)
          else (None, s))"

section \<open>CONNECT\<close>

definition handle_tcp_connect ::
  "'w ctx \<Rightarrow> u32 \<Rightarrow> ConnectPayload \<Rightarrow> bool \<Rightarrow> 'w conn \<Rightarrow> (halt, 'w) halting + 'w conn" where
  "handle_tcp_connect X stream_id connect multiplexed s =
     (let config = x_config X;
          (connecting, h) = ConnectingStream_new (c_cells s);
          connect_cancel = conn_cancel connecting;
          (ok, t) = StreamTable_insert stream_id (ProxyConnecting connecting) (c_table s);
          s1 = s\<lparr>c_cells := h, c_table := t\<rparr>
      in if \<not> ok then Inr (send_close X stream_id Throttled s1)
         else
           case dns_resolve_no_hold (net_now (x_net X)) (net_lookup_host (x_net X)) (cp_hostname connect)
                  (cp_port connect) (c_dns s1, c_world s1) of
             None \<Rightarrow> Inl (Panicked, s1)
           | Some (Inl _, dns, w) \<Rightarrow>
               self_send (TcpConnectFailed stream_id Unreachable) (s1\<lparr>c_dns := dns, c_world := w\<rparr>)
           | Some (Inr resolved_addr, dns, w) \<Rightarrow>
               let s2 = s1\<lparr>c_dns := dns, c_world := w\<rparr>
               in if is_ip_blocked (sa_ip resolved_addr) config
                  then self_send (TcpConnectFailed stream_id Blocked) s2
                  else if \<not> cfg_allow_direct_ip config \<and> is_raw_ip (cp_hostname connect)
                  then self_send (TcpConnectFailed stream_id Blocked) s2
                  else Inr (spawn (ConnectTask stream_id resolved_addr connect_cancel
                              \<lparr>co_tcp_nodelay = cfg_tcp_nodelay config, co_buffers_upgraded = multiplexed,
                               co_tcp_keepalive_secs = cfg_tcp_keepalive_secs config\<rparr>) s2))"

definition handle_udp_connect ::
  "'w ctx \<Rightarrow> u32 \<Rightarrow> ConnectPayload \<Rightarrow> 'w conn \<Rightarrow> (halt, 'w) halting + 'w conn" where
  "handle_udp_connect X stream_id connect s =
     (case ev_udp_bind (x_io X) (c_world s) of
        (Inl _, w) \<Rightarrow> Inr (send_close X stream_id NetworkError (s\<lparr>c_world := w\<rparr>))
      | (Inr sock, w) \<Rightarrow>
          (case dns_resolve_no_hold (net_now (x_net X)) (net_lookup_host (x_net X)) (cp_hostname connect)
                  (cp_port connect) (c_dns s, w) of
             None \<Rightarrow> Inl (Panicked, s\<lparr>c_world := w\<rparr>)
           | Some (Inl _, dns, w) \<Rightarrow> Inr (send_close X stream_id Unreachable (s\<lparr>c_dns := dns, c_world := w\<rparr>))
           | Some (Inr dest_addr, dns, w) \<Rightarrow>
               let s1 = s\<lparr>c_dns := dns, c_world := w\<rparr>
               in if is_ip_blocked (sa_ip dest_addr) (x_config X)
                  then Inr (send_close X stream_id Blocked s1)
                  else
                    let (udp_cancel, h) = CancelFlag_new (c_cells s1);
                        (ok, t) = StreamTable_insert stream_id
                                    (ProxyUdp (UdpProxyStream_new sock dest_addr udp_cancel)) (c_table s1);
                        s2 = s1\<lparr>c_cells := h, c_table := t\<rparr>
                    in if \<not> ok then Inr (send_close X stream_id Throttled s2)
                       else Inr (spawn (UdpReader stream_id sock udp_cancel) s2)))"

definition handle_connect :: "'w ctx \<Rightarrow> u32 \<Rightarrow> ConnectPayload \<Rightarrow> 'w conn \<Rightarrow> (halt, 'w) halting + 'w conn" where
  "handle_connect X stream_id connect s =
     (if stream_id = STREAM_ID_CONTROL \<or> StreamTable_contains stream_id (c_table s)
      then Inr (send_close X stream_id InvalidInfo s)
      else if cp_port connect = 0 then Inr (send_close X stream_id InvalidInfo s)
      else if is_hostname_blocked (x_config X) (cp_hostname connect) then Inr (send_close X stream_id Blocked s)
      else if is_port_blocked (x_config X) (cp_port connect) then Inr (send_close X stream_id Blocked s)
      else if is_hostname_blocked_pre_resolution (cp_hostname connect) (x_config X)
      then Inr (send_close X stream_id Blocked s)
      else case cp_stream_type connect of
             Tcp \<Rightarrow> handle_tcp_connect X stream_id connect (StreamTable_len (c_table s) \<ge> 1) s
           | Udp \<Rightarrow> handle_udp_connect X stream_id connect s)"

section \<open>Inbound frames\<close>

text \<open>\<open>process_inbound_frame\<close> serves the frame that the handshake deferred.\<close>

definition process_inbound_frame ::
  "'w ctx \<Rightarrow> bytes \<Rightarrow> u32 \<Rightarrow> u32 \<Rightarrow> 'w conn \<Rightarrow> (halt, 'w) halting + bool \<times> 'w conn" where
  "process_inbound_frame X payload buf_size threshold s =
     (if cfg_max_frame_size (x_config X) > 0 \<and> length payload > cfg_max_frame_size (x_config X) then Inr (False, s)
      else if length payload < WISP_HEADER_SIZE then Inr (False, s)
      else
        let packet_type = payload ! 0;
            stream_id = u32_from_le_bytes [payload ! 1, payload ! 2, payload ! 3, payload ! 4]
        in if packet_type = PACKET_DATA then
             (case handle_data_zerocopy X buf_size threshold stream_id (drop WISP_HEADER_SIZE payload) s of
                (Some dead_id, s1) \<Rightarrow> Inr (False, send_close X dead_id NetworkError s1)
              | (None, s1) \<Rightarrow> Inr (False, s1))
           else if packet_type = PACKET_CONNECT then
             (case parse_wisp_frame payload of
                Some (Connect stream_id connect) \<Rightarrow>
                  (case handle_connect X stream_id connect s of
                     Inl h \<Rightarrow> Inl h | Inr s1 \<Rightarrow> Inr (False, s1))
              | _ \<Rightarrow> Inr (False, send_close X stream_id InvalidInfo s))
           else if packet_type = PACKET_CLOSE then
             (if stream_id = STREAM_ID_CONTROL then Inr (True, s)
              else Inr (False, snd (remove_stream stream_id s)))
           else Inr (False, s))"

definition handle_inbound ::
  "'w ctx \<Rightarrow> (WebSocketError + WispFrameResult) \<Rightarrow> u32 \<Rightarrow> u32 \<Rightarrow> 'w conn \<Rightarrow> (halt, 'w) halting + bool \<times> 'w conn" where
  "handle_inbound X result buf_size threshold s =
     (case result of
        Inr (Wisp packet_type stream_id payload) \<Rightarrow>
          if packet_type = PACKET_DATA then
            (case handle_data_zerocopy X buf_size threshold stream_id payload s of
               (Some dead_id, s1) \<Rightarrow> Inr (False, send_close X dead_id NetworkError s1)
             | (None, s1) \<Rightarrow> Inr (False, s1))
          else if packet_type = PACKET_CONNECT then
            (let s1 = s\<lparr>c_cs := (c_cs s)\<lparr>cs_streams_opened := cs_streams_opened (c_cs s) + 1\<rparr>\<rparr>
             in case parse_connect_payload payload of
                  Some connect \<Rightarrow>
                    (case handle_connect X stream_id connect s1 of
                       Inl h \<Rightarrow> Inl h | Inr s2 \<Rightarrow> Inr (False, s2))
                | None \<Rightarrow> Inr (False, send_close X stream_id InvalidInfo s1))
          else if packet_type = PACKET_CLOSE then
            (if stream_id = STREAM_ID_CONTROL
             then Inr (True, s\<lparr>c_world := snd (write_ws_close_frame (x_io X) (x_client X) (c_world s))\<rparr>)
             else Inr (False, snd (remove_stream stream_id s)))
          else Inr (False, s)
      | Inr (Control frame) \<Rightarrow>
          (case fr_opcode frame of
             OpClose \<Rightarrow> Inr (True, s\<lparr>c_world := snd (write_ws_close_frame (x_io X) (x_client X) (c_world s))\<rparr>)
           | OpPing \<Rightarrow>
               Inr (False, s\<lparr>c_world := snd (write_ws_pong_frame (x_io X) (x_client X) (fr_payload frame) (c_world s))\<rparr>)
           | OpPong \<Rightarrow>
               Inr (False, s\<lparr>c_cs := (c_cs s)\<lparr>cs_awaiting_pong := False, cs_last_pong := net_now (x_net X) (c_world s)\<rparr>\<rparr>)
           | _ \<Rightarrow> Inr (False, s))
      | Inl e \<Rightarrow> Inr (True, s))"

section \<open>Control events\<close>

definition handle_control_event :: "'w ctx \<Rightarrow> ControlEvent \<Rightarrow> 'w conn \<Rightarrow> 'w conn" where
  "handle_control_event X event s =
     (case event of
        StreamClosed stream_id reason \<Rightarrow> send_close X stream_id reason (snd (remove_stream stream_id s))
      | TcpConnected stream_id reader writer _ \<Rightarrow>
          (let (cancel, h) = CancelFlag_new (c_cells s);
               s1 = s\<lparr>c_cells := h\<rparr>
           in case remove_stream stream_id s1 of
                (Some (ProxyConnecting connecting), s2) \<Rightarrow>
                  (case flush_early_data (x_io X) writer (conn_early_data connecting) False [] (c_world s2) of
                     (dead, pending, w) \<Rightarrow>
                       let s3 = s2\<lparr>c_world := w\<rparr>
                       in if dead then send_close X stream_id NetworkError s3
                          else
                            let has_pending = (pending \<noteq> []);
                                tcp_stream = TcpProxyStream_with_pending writer pending cancel;
                                s4 = s3\<lparr>c_table := snd (StreamTable_insert stream_id (ProxyTcp tcp_stream) (c_table s3))\<rparr>;
                                s5 = (if has_pending
                                      then s4\<lparr>c_streams_with_pending := c_streams_with_pending s4 @ [stream_id]\<rparr>
                                      else s4);
                                s6 = send_client X (build_continue_frame stream_id (cfg_buffer_size (x_config X))) s5
                            in spawn (TcpReader stream_id reader cancel) s6)
              | (Some existing, s2) \<Rightarrow>
                  s2\<lparr>c_table := snd (StreamTable_insert stream_id existing (c_table s2))\<rparr>
              | (None, s2) \<Rightarrow> s2)
      | TcpConnectFailed stream_id reason \<Rightarrow> send_close X stream_id reason (snd (remove_stream stream_id s)))"

section \<open>The phases of the loop\<close>

text \<open>Phase 0: \<^verbatim>\<open>retain\<close> over the streams with pending data, collecting the dead ones.\<close>

fun retain_pending ::
  "'w ctx \<Rightarrow> u32 list \<Rightarrow> 'w conn \<Rightarrow> u32 list \<times> u32 list \<times> 'w conn" where
  "retain_pending X [] s = ([], [], s)"
| "retain_pending X (sid # sids) s =
     (case StreamTable_get_mut sid (c_table s) of
        Some (ProxyTcp tcp) \<Rightarrow>
          if tcp_pending tcp \<noteq> [] then
            (case drain_pending (x_io X) tcp (c_world s) of (dead, tcp1, w) \<Rightarrow>
               if dead then
                 (case retain_pending X sids (s\<lparr>c_world := w, c_table := StreamTable_set sid
                          (ProxyTcp (tcp1\<lparr>tcp_queued_for_drain := False\<rparr>)) (c_table s)\<rparr>) of
                    (kept, dead_streams, s') \<Rightarrow> (kept, sid # dead_streams, s'))
               else if tcp_pending tcp1 = [] then
                 retain_pending X sids (s\<lparr>c_world := w, c_table := StreamTable_set sid
                   (ProxyTcp (tcp1\<lparr>tcp_queued_for_drain := False\<rparr>)) (c_table s)\<rparr>)
               else
                 (case retain_pending X sids (s\<lparr>c_world := w, c_table := StreamTable_set sid (ProxyTcp tcp1) (c_table s)\<rparr>) of
                    (kept, dead_streams, s') \<Rightarrow> (sid # kept, dead_streams, s')))
          else
            retain_pending X sids
              (s\<lparr>c_table := StreamTable_set sid (ProxyTcp (tcp\<lparr>tcp_queued_for_drain := False\<rparr>)) (c_table s)\<rparr>)
      | _ \<Rightarrow> retain_pending X sids s)"

fun close_dead :: "'w ctx \<Rightarrow> u32 list \<Rightarrow> 'w conn \<Rightarrow> 'w conn" where
  "close_dead X [] s = s"
| "close_dead X (sid # sids) s = close_dead X sids (send_close X sid NetworkError (snd (remove_stream sid s)))"

definition drain_pending_streams :: "'w ctx \<Rightarrow> 'w conn \<Rightarrow> 'w conn" where
  "drain_pending_streams X s =
     (if c_streams_with_pending s \<noteq> [] then
        (case retain_pending X (c_streams_with_pending s) s of (kept, dead_streams, s1) \<Rightarrow>
           close_dead X dead_streams (s1\<lparr>c_streams_with_pending := kept\<rparr>))
      else s)"

definition upgrade_if_multiplexed :: "'w ctx \<Rightarrow> 'w conn \<Rightarrow> 'w conn" where
  "upgrade_if_multiplexed X s =
     (if \<not> c_buffers_upgraded s \<and> StreamTable_len (c_table s) \<ge> 2
      then s\<lparr>c_world := net_upgrade_buffers (x_net X) (x_client X) (c_world s), c_buffers_upgraded := True\<rparr>
      else s)"

lemma handle_control_event_control [simp]:
  "c_control (handle_control_event X ev s) = c_control s"
  by (auto simp: handle_control_event_def send_close_def send_client_def remove_stream_def spawn_def Let_def
      split: ControlEvent.split prod.split option.split ProxyStream.split)

lemma upgrade_if_multiplexed_control [simp]: "c_control (upgrade_if_multiplexed X s) = c_control s"
  by (simp add: upgrade_if_multiplexed_def)

text \<open>Phase 1: \<^verbatim>\<open>while let Ok(event) = control_rx.try_recv()\<close>, with the check of the socket buffers.\<close>

function drain_control :: "'w ctx \<Rightarrow> 'w conn \<Rightarrow> 'w conn" where
  "drain_control X s =
     (case c_control s of
        [] \<Rightarrow> s
      | event # rest \<Rightarrow>
          drain_control X (upgrade_if_multiplexed X (handle_control_event X event (s\<lparr>c_control := rest\<rparr>))))"
  by pat_completeness auto
termination
  by (relation "measure (\<lambda>(X, s). length (c_control s))") auto

declare drain_control.simps [simp del]

text \<open>Phase 2: all queued backend data in one batch.\<close>

definition write_batch :: "'w ctx \<Rightarrow> bytes list \<Rightarrow> 'w conn \<Rightarrow> (ConnectionError, 'w) halting + 'w conn" where
  "write_batch X batch s =
     (case write_ws_frames_batched (x_io X) (x_client X) batch (c_world s) of
        (Inl _, w) \<Rightarrow> Inl (WriterClosed, s\<lparr>c_world := w\<rparr>)
      | (Inr _, w) \<Rightarrow> Inr (s\<lparr>c_world := w\<rparr>))"

definition drain_phases :: "'w ctx \<Rightarrow> 'w conn \<Rightarrow> (ConnectionError, 'w) halting + 'w conn" where
  "drain_phases X s =
     (let s1 = drain_control X (drain_pending_streams X s);
          batch = c_write s1;
          s2 = s1\<lparr>c_write := []\<rparr>
      in if batch \<noteq> [] then write_batch X batch s2 else Inr s2)"

text \<open>\<^verbatim>\<open>if !pending_continues.is_empty() { flush_continues_direct(..).await?; }\<close>\<close>

definition flush_pending :: "'w ctx \<Rightarrow> 'w conn \<Rightarrow> (ConnectionError, 'w) halting + 'w conn" where
  "flush_pending X s =
     (if c_pending_continues s \<noteq> [] then
        (case flush_continues_direct (x_io X) (x_client X) (c_pending_continues s) (c_world s) of
           (Inl _, pc, w) \<Rightarrow> Inl (WriterClosed, s\<lparr>c_pending_continues := pc, c_world := w\<rparr>)
         | (Inr _, pc, w) \<Rightarrow> Inr (s\<lparr>c_pending_continues := pc, c_world := w\<rparr>))
      else Inr s)"

text \<open>\<^verbatim>\<open>write_rx.recv()\<close> fired; \<^const>\<open>None\<close> would be a closed channel and ends the loop.\<close>

definition handle_write_batch :: "'w ctx \<Rightarrow> bytes option \<Rightarrow> 'w conn \<Rightarrow> (ConnectionError, 'w) halting + 'w conn option" where
  "handle_write_batch X data s =
     (case data of
        Some first \<Rightarrow>
          (case write_batch X (first # c_write s) (s\<lparr>c_write := []\<rparr>) of
             Inl e \<Rightarrow> Inl e | Inr s1 \<Rightarrow> Inr (Some s1))
      | None \<Rightarrow> Inr None)"

text \<open>The drain after a control event, without the check of the socket buffers.\<close>

function drain_events :: "'w ctx \<Rightarrow> 'w conn \<Rightarrow> 'w conn" where
  "drain_events X s =
     (case c_control s of
        [] \<Rightarrow> s
      | event # rest \<Rightarrow> drain_events X (handle_control_event X event (s\<lparr>c_control := rest\<rparr>)))"
  by pat_completeness auto
termination
  by (relation "measure (\<lambda>(X, s). length (c_control s))") auto

declare drain_events.simps [simp del]

definition handle_control_branch :: "'w ctx \<Rightarrow> ControlEvent option \<Rightarrow> 'w conn \<Rightarrow> 'w conn" where
  "handle_control_branch X event s =
     (case event of
        Some ev \<Rightarrow> drain_events X (upgrade_if_multiplexed X (handle_control_event X ev s))
      | None \<Rightarrow> s)"

end
