(* ===== verification/Conn_Loop.thy ===== *)
theory Conn_Loop
  imports Conn_Handlers
begin

text \<open>
  The spawned tasks and the main loop of \<open>handle_connection\<close>, \<^verbatim>\<open>src/server/connection.rs\<close>, as steps of one state.

  A step is a turn of the connection's own task (\<open>loop_step\<close>), a step of one spawned task (\<open>task_step\<close>), bytes
  arriving from the client, or a change of the world outside (time passes, other connections use the DNS
  cache).  \<open>conn_step\<close> is their interleaving and \<open>reachable\<close> the states it can lead to.
\<close>

section \<open>Spawned tasks\<close>

text \<open>
  One step of a task: the task afterwards, \<^const>\<open>None\<close> when it has ended; no step while it waits for room in a
  channel.  \<open>alive\<close> says whether the receivers of the channels still exist.
\<close>

definition send_event :: "bool \<Rightarrow> ControlEvent \<Rightarrow> 'w conn \<Rightarrow> (task option \<times> 'w conn) option" where
  "send_event alive ev s =
     (if \<not> alive then Some (None, s)
      else if length (c_control s) < CONTROL_CAPACITY then Some (None, s\<lparr>c_control := c_control s @ [ev]\<rparr>)
      else None)"

text \<open>\<^verbatim>\<open>try_send\<close> and, when the channel is full, the awaited send: then \<open>full\<close> is where the task waits.\<close>

definition send_frame :: "bool \<Rightarrow> bytes \<Rightarrow> task \<Rightarrow> task \<Rightarrow> 'w conn \<Rightarrow> task option \<times> 'w conn" where
  "send_frame alive frame sent full s =
     (if \<not> alive then (None, s)
      else if length (c_write s) < WRITE_CAPACITY then (Some sent, s\<lparr>c_write := c_write s @ [frame]\<rparr>)
      else (Some full, s))"

definition resume_send :: "bool \<Rightarrow> bytes \<Rightarrow> task \<Rightarrow> 'w conn \<Rightarrow> (task option \<times> 'w conn) option" where
  "resume_send alive frame sent s =
     (if \<not> alive then Some (None, s)
      else if length (c_write s) < WRITE_CAPACITY then Some (Some sent, s\<lparr>c_write := c_write s @ [frame]\<rparr>)
      else None)"

text \<open>The task spawned by \<open>handle_tcp_connect\<close>, with the ten second timeout and the socket options in \<open>net_connect\<close>.\<close>

definition connect_event :: "u32 \<Rightarrow> CancelFlag \<Rightarrow> connect_result \<Rightarrow> ControlEvent" where
  "connect_event stream_id connect_cancel result =
     (case result of
        Connected reader writer \<Rightarrow> TcpConnected stream_id reader writer connect_cancel
      | ConnectError e \<Rightarrow> TcpConnectFailed stream_id (if e = ConnectionRefused then Refused else Unreachable)
      | ConnectElapsed \<Rightarrow> TcpConnectFailed stream_id TimedOut)"

text \<open>A read of \<open>backend_tcp_reader\<close> has returned.\<close>

definition tcp_read_done ::
  "'w ctx \<Rightarrow> bool \<Rightarrow> u32 \<Rightarrow> sock \<Rightarrow> CancelFlag \<Rightarrow> bytes io_result \<Rightarrow> 'w conn \<Rightarrow> task option \<times> 'w conn" where
  "tcp_read_done X alive stream_id reader cancel r s =
     (case r of
        Inr data \<Rightarrow>
          if data = [] then
            (if \<not> CancelFlag_is_cancelled cancel (c_cells s)
             then (Some (EventSend (StreamClosed stream_id Voluntary)), s) else (None, s))
          else if CancelFlag_is_cancelled cancel (c_cells s) then (None, s)
          else
            let frame = preframe_tcp (net_uninit (x_net X) (c_world s)) (build_data_header stream_id) data
            in send_frame alive frame (TcpReader stream_id reader cancel) (TcpSending stream_id reader cancel frame) s
      | Inl e \<Rightarrow>
          if \<not> CancelFlag_is_cancelled cancel (c_cells s)
          then (Some (EventSend (StreamClosed stream_id NetworkError)), s) else (None, s))"

text \<open>A \<^verbatim>\<open>recv_from\<close> of the UDP reader has returned.\<close>

definition udp_recv_done ::
  "bool \<Rightarrow> u32 \<Rightarrow> sock \<Rightarrow> CancelFlag \<Rightarrow> bytes io_result \<Rightarrow> 'w conn \<Rightarrow> task option \<times> 'w conn" where
  "udp_recv_done alive stream_id socket cancel r s =
     (case r of
        Inr data \<Rightarrow>
          if CancelFlag_is_cancelled cancel (c_cells s) then (None, s)
          else
            let frame = preframe_udp (build_data_header stream_id) data
            in send_frame alive frame (UdpReader stream_id socket cancel) (UdpSending stream_id socket cancel frame) s
      | Inl e \<Rightarrow>
          if \<not> CancelFlag_is_cancelled cancel (c_cells s)
          then (Some (EventSend (StreamClosed stream_id NetworkError)), s) else (None, s))"

text \<open>The first poll of a connect task, and the end of its wait.\<close>

definition connect_start ::
  "u32 \<Rightarrow> SocketAddr \<Rightarrow> CancelFlag \<Rightarrow> ConnectOpts \<Rightarrow> 'w conn \<Rightarrow> task option \<times> 'w conn" where
  "connect_start stream_id addr cancel opts s =
     (if CancelFlag_is_cancelled cancel (c_cells s) then (None, s)
      else (Some (ConnectWait stream_id addr cancel opts), s))"

definition connect_done ::
  "'w ctx \<Rightarrow> u32 \<Rightarrow> SocketAddr \<Rightarrow> CancelFlag \<Rightarrow> ConnectOpts \<Rightarrow> 'w conn \<Rightarrow> task option \<times> 'w conn" where
  "connect_done X stream_id addr cancel opts s =
     (case net_connect (x_net X) addr opts (c_world s) of (result, w) \<Rightarrow>
        (Some (EventSend (connect_event stream_id cancel result)), s\<lparr>c_world := w\<rparr>))"

text \<open>The heads of the loops of the two readers.\<close>

definition tcp_reader_head :: "u32 \<Rightarrow> sock \<Rightarrow> CancelFlag \<Rightarrow> 'w conn \<Rightarrow> task option \<times> 'w conn" where
  "tcp_reader_head stream_id reader cancel s =
     (if CancelFlag_is_cancelled cancel (c_cells s) then (None, s) else (Some (TcpReading stream_id reader cancel), s))"

definition udp_reader_head :: "u32 \<Rightarrow> sock \<Rightarrow> CancelFlag \<Rightarrow> 'w conn \<Rightarrow> task option \<times> 'w conn" where
  "udp_reader_head stream_id socket cancel s =
     (if CancelFlag_is_cancelled cancel (c_cells s) then (None, s) else (Some (UdpReading stream_id socket cancel), s))"

fun task_step :: "'w ctx \<Rightarrow> bool \<Rightarrow> task \<Rightarrow> 'w conn \<Rightarrow> (task option \<times> 'w conn) option" where
  "task_step X alive (ConnectTask stream_id addr cancel opts) s = Some (connect_start stream_id addr cancel opts s)"
| "task_step X alive (ConnectWait stream_id addr cancel opts) s = Some (connect_done X stream_id addr cancel opts s)"
| "task_step X alive (EventSend ev) s = send_event alive ev s"
| "task_step X alive (TcpReader stream_id reader cancel) s = Some (tcp_reader_head stream_id reader cancel s)"
| "task_step X alive (TcpReading stream_id reader cancel) s =
     (case net_read (x_net X) reader (c_world s) of (r, w) \<Rightarrow>
        Some (tcp_read_done X alive stream_id reader cancel r (s\<lparr>c_world := w\<rparr>)))"
| "task_step X alive (TcpSending stream_id reader cancel frame) s =
     resume_send alive frame (TcpReader stream_id reader cancel) s"
| "task_step X alive (UdpReader stream_id socket cancel) s = Some (udp_reader_head stream_id socket cancel s)"
| "task_step X alive (UdpReading stream_id socket cancel) s =
     (case net_recv_from (x_net X) socket (c_world s) of (r, w) \<Rightarrow>
        Some (udp_recv_done alive stream_id socket cancel r (s\<lparr>c_world := w\<rparr>)))"
| "task_step X alive (UdpSending stream_id socket cancel frame) s =
     resume_send alive frame (UdpReader stream_id socket cancel) s"

definition put_task :: "nat \<Rightarrow> task option \<Rightarrow> task list \<Rightarrow> task list" where
  "put_task i t ts = take i ts @ (case t of Some u \<Rightarrow> [u] | None \<Rightarrow> []) @ drop (Suc i) ts"

definition step_task :: "'w ctx \<Rightarrow> bool \<Rightarrow> nat \<Rightarrow> 'w conn \<Rightarrow> 'w conn option" where
  "step_task X alive i s =
     (if i < length (c_tasks s) then
        (case task_step X alive (c_tasks s ! i) s of
           None \<Rightarrow> None
         | Some (t, s1) \<Rightarrow> Some (s1\<lparr>c_tasks := put_task i t (c_tasks s)\<rparr>))
      else None)"

section \<open>The main loop\<close>

datatype phase = Inner | Drain | Select | Finished "ConnectionError + unit" | Halted halt

record 'w loop =
  l_phase :: phase
  l_conn :: "'w conn"
  l_reader :: ReadHalf
  l_inbound :: chunks
  l_frames_since_yield :: u32
  l_idle_deadline :: Instant
  l_ping_deadline :: Instant

definition timers_enabled :: "ConnState \<Rightarrow> bool" where
  "timers_enabled cs \<longleftrightarrow> cs_idle_enabled cs \<or> cs_ping_enabled cs"

text \<open>
  The reset of the idle timer for an inbound frame; in the lean loop there is no timer.  \<^const>\<open>None\<close> is the panic of
  an addition that leaves the range of the clock.
\<close>

definition touch_idle :: "'w ctx \<Rightarrow> 'w loop \<Rightarrow> 'w loop option" where
  "touch_idle X L =
     (if cs_idle_enabled (c_cs (l_conn L))
      then map_option (\<lambda>deadline. L\<lparr>l_idle_deadline := deadline\<rparr>)
             (instant_add (net_now (x_net X) (c_world (l_conn L))) (cs_idle_duration (c_cs (l_conn L))))
      else Some L)"

abbreviation cfg_bs :: "'w ctx \<Rightarrow> u32" where
  "cfg_bs X \<equiv> cfg_buffer_size (x_config X)"

abbreviation cfg_th :: "'w ctx \<Rightarrow> u32" where
  "cfg_th X \<equiv> continue_threshold (x_config X)"

text \<open>One frame of the tight inner loop.\<close>

definition inner_frame :: "'w ctx \<Rightarrow> (WebSocketError + WispFrameResult) \<Rightarrow> 'w loop \<Rightarrow> 'w loop" where
  "inner_frame X result L0 =
     (case touch_idle X L0 of
        None \<Rightarrow> L0\<lparr>l_phase := Halted Panicked\<rparr>
      | Some L \<Rightarrow>
      case handle_inbound X result (cfg_bs X) (cfg_th X) (l_conn L) of
        Inl (h, s) \<Rightarrow> L\<lparr>l_phase := Halted h, l_conn := s\<rparr>
      | Inr (True, s) \<Rightarrow>
          L\<lparr>l_phase := Finished (Inr ()),
            l_conn := (if c_pending_continues s \<noteq> [] then
                         (case flush_continues_direct (x_io X) (x_client X) (c_pending_continues s) (c_world s) of
                            (_, pc, w) \<Rightarrow> s\<lparr>c_pending_continues := pc, c_world := w\<rparr>)
                       else s)\<rparr>
      | Inr (False, s) \<Rightarrow>
          let n = l_frames_since_yield L + 1
          in if n \<ge> x_yield_limit X then
               (case flush_pending X s of
                  Inl (e, s1) \<Rightarrow> L\<lparr>l_phase := Finished (Inl e), l_conn := s1\<rparr>
                | Inr s1 \<Rightarrow> L\<lparr>l_phase := Drain, l_conn := s1, l_frames_since_yield := 0\<rparr>)
             else L\<lparr>l_conn := s, l_frames_since_yield := n\<rparr>)"

definition inner_step :: "'w ctx \<Rightarrow> 'w loop \<Rightarrow> 'w loop" where
  "inner_step X L =
     (case try_read_wisp_frame (x_cpu X) (l_reader L) of
        (None, rh) \<Rightarrow> L\<lparr>l_reader := rh, l_phase := Drain\<rparr>
      | (Some result, rh) \<Rightarrow> inner_frame X result (L\<lparr>l_reader := rh\<rparr>))"

definition drain_step :: "'w ctx \<Rightarrow> 'w loop \<Rightarrow> 'w loop" where
  "drain_step X L =
     (case flush_pending X (l_conn L) of
        Inl (e, s) \<Rightarrow> L\<lparr>l_phase := Finished (Inl e), l_conn := s\<rparr>
      | Inr s \<Rightarrow>
          (case drain_phases X s of
             Inl (e, s1) \<Rightarrow> L\<lparr>l_phase := Finished (Inl e), l_conn := s1\<rparr>
           | Inr s1 \<Rightarrow> L\<lparr>l_phase := Select, l_conn := s1\<rparr>))"

text \<open>The branches of \<^verbatim>\<open>select!\<close>.\<close>

definition select_frame :: "'w ctx \<Rightarrow> (WebSocketError + WispFrameResult) \<Rightarrow> 'w loop \<Rightarrow> 'w loop" where
  "select_frame X result L0 =
     (case touch_idle X L0 of
        None \<Rightarrow> L0\<lparr>l_phase := Halted Panicked\<rparr>
      | Some L \<Rightarrow>
      case handle_inbound X result (cfg_bs X) (cfg_th X) (l_conn L) of
        Inl (h, s) \<Rightarrow> L\<lparr>l_phase := Halted h, l_conn := s\<rparr>
      | Inr (True, s) \<Rightarrow> L\<lparr>l_phase := Finished (Inr ()), l_conn := s\<rparr>
      | Inr (False, s) \<Rightarrow>
          (case flush_pending X s of
             Inl (e, s1) \<Rightarrow> L\<lparr>l_phase := Finished (Inl e), l_conn := s1\<rparr>
           | Inr s1 \<Rightarrow> L\<lparr>l_phase := Inner, l_conn := s1, l_frames_since_yield := l_frames_since_yield L + 1\<rparr>))"

definition select_write :: "'w ctx \<Rightarrow> bytes option \<Rightarrow> 'w loop \<Rightarrow> 'w loop" where
  "select_write X data L =
     (case handle_write_batch X data (l_conn L) of
        Inl (e, s) \<Rightarrow> L\<lparr>l_phase := Finished (Inl e), l_conn := s\<rparr>
      | Inr None \<Rightarrow> L\<lparr>l_phase := Finished (Inr ())\<rparr>
      | Inr (Some s) \<Rightarrow> L\<lparr>l_phase := Inner, l_conn := s\<rparr>)"

definition select_ping :: "'w ctx \<Rightarrow> 'w loop \<Rightarrow> 'w loop" where
  "select_ping X L =
     (let s = l_conn L; cs = c_cs s; now = net_now (x_net X) (c_world s) in
      if cs_ping_enabled cs then
        (if cs_awaiting_pong cs \<and> now - cs_last_pong cs > cs_pong_timeout cs
         then L\<lparr>l_phase := Finished (Inr ())\<rparr>
         else
           let w = snd (write_ws_ping_frame (x_io X) (x_client X) (c_world s));
               L = L\<lparr>l_conn := s\<lparr>c_world := w, c_cs := cs\<lparr>cs_awaiting_pong := True\<rparr>\<rparr>\<rparr>
           in case instant_add (net_now (x_net X) w) (from_secs (cs_ping_interval_secs cs)) of
                None \<Rightarrow> L\<lparr>l_phase := Halted Panicked\<rparr>
              | Some deadline \<Rightarrow> L\<lparr>l_phase := Inner, l_ping_deadline := deadline\<rparr>)
      else L\<lparr>l_phase := Inner\<rparr>)"

text \<open>
  \<^verbatim>\<open>biased\<close>: the branches are tried in their order, and the first that is ready is taken; while none is the loop
  waits and takes no step.
\<close>

definition select_step :: "'w ctx \<Rightarrow> 'w loop \<Rightarrow> 'w loop option" where
  "select_step X L =
     (case read_wisp_frame (x_cpu X) (l_reader L) (l_inbound L) of
        (Ready result, rh, cs) \<Rightarrow> Some (select_frame X result (L\<lparr>l_reader := rh, l_inbound := cs\<rparr>))
      | (Pending, rh, cs) \<Rightarrow>
          let L = L\<lparr>l_reader := rh, l_inbound := cs\<rparr>; s = l_conn L; now = net_now (x_net X) (c_world s)
          in case c_write s of
               data # rest \<Rightarrow> Some (select_write X (Some data) (L\<lparr>l_conn := s\<lparr>c_write := rest\<rparr>\<rparr>))
             | [] \<Rightarrow>
                 (case c_control s of
                    ev # rest \<Rightarrow>
                      Some (L\<lparr>l_phase := Inner,
                              l_conn := handle_control_branch X (Some ev) (s\<lparr>c_control := rest\<rparr>)\<rparr>)
                  | [] \<Rightarrow>
                      if timers_enabled (c_cs s) \<and> l_idle_deadline L \<le> now
                      then Some (L\<lparr>l_phase := Finished (Inr ())\<rparr>)
                      else if timers_enabled (c_cs s) \<and> l_ping_deadline L \<le> now
                      then Some (select_ping X L)
                      else None))"

definition loop_step :: "'w ctx \<Rightarrow> 'w loop \<Rightarrow> 'w loop option" where
  "loop_step X L =
     (case l_phase L of
        Inner \<Rightarrow> Some (inner_step X L)
      | Drain \<Rightarrow> Some (drain_step X L)
      | Select \<Rightarrow> select_step X L
      | Finished _ \<Rightarrow> None
      | Halted _ \<Rightarrow> None)"

section \<open>The start of a connection\<close>

definition ConnState_new :: "ServerConfig \<Rightarrow> Instant \<Rightarrow> IpAddr \<Rightarrow> ConnState" where
  "ConnState_new config now peer_ip =
     \<lparr>cs_conn_start = now, cs_streams_opened = 0, cs_client_ip = peer_ip,
      cs_idle_enabled = (cfg_idle_timeout_secs config > 0),
      cs_idle_duration = from_secs (if cfg_idle_timeout_secs config > 0 then cfg_idle_timeout_secs config
                                    else 365 * 24 * 3600),
      cs_ping_enabled = (cfg_ws_ping_interval_secs config > 0),
      cs_ping_interval_secs = cfg_ws_ping_interval_secs config,
      cs_pong_timeout = from_secs (cfg_ws_pong_timeout_secs config),
      cs_awaiting_pong = False, cs_last_pong = now\<rparr>"

definition conn_new :: "'w ctx \<Rightarrow> ConnState \<Rightarrow> DnsCache \<Rightarrow> 'w \<Rightarrow> 'w conn" where
  "conn_new X cs dns w =
     \<lparr>c_table = StreamTable_new (cfg_max_streams (x_config X)), c_cells = [], c_pending_continues = [],
      c_streams_with_pending = [], c_buffers_upgraded = False, c_control = [], c_write = [], c_tasks = [],
      c_cs = cs, c_dns = dns, c_world = w\<rparr>"

text \<open>The limit of frames per turn, from the number of cores.\<close>

definition yield_limit :: "nat option \<Rightarrow> u32" where
  "yield_limit core_ids = (let cores = (case core_ids of Some n \<Rightarrow> n | None \<Rightarrow> 4) in if cores \<ge> 12 then 64 else 32)"

text \<open>The read half taken over from the handshake, with the bytes that the HTTP server had already read.\<close>

definition take_read_half :: "bytes \<Rightarrow> ReadHalf \<Rightarrow> ReadHalf" where
  "take_read_half read_buf rh = (if read_buf \<noteq> [] then prepend_bytes read_buf rh else rh)"

definition loop_reader :: "ServerConfig \<Rightarrow> ReadHalf \<Rightarrow> ReadHalf" where
  "loop_reader config rh =
     (let rh = set_auto_close False rh;
          rh = set_auto_pong False rh
      in if cfg_max_frame_size config > 0 then set_max_message_size (cfg_max_frame_size config) rh else rh)"

text \<open>The deferred frame is served first; its result is ignored, an error of the flush ends the connection.\<close>

definition serve_deferred :: "'w ctx \<Rightarrow> bytes option \<Rightarrow> 'w conn \<Rightarrow> phase \<times> 'w conn" where
  "serve_deferred X deferred s =
     (case deferred of
        None \<Rightarrow> (Inner, s)
      | Some buf \<Rightarrow>
          (case process_inbound_frame X buf (cfg_bs X) (cfg_th X) s of
             Inl (h, s1) \<Rightarrow> (Halted h, s1)
           | Inr (_, s1) \<Rightarrow>
               (case flush_pending X s1 of
                  Inl (e, s2) \<Rightarrow> (Finished (Inl e), s2)
                | Inr s2 \<Rightarrow> (Inner, s2))))"

text \<open>The deadline of \<^verbatim>\<open>tokio::time::sleep\<close>, which does not panic but picks a far one.\<close>

definition sleep_deadline :: "'w ctx \<Rightarrow> Duration \<Rightarrow> 'w \<Rightarrow> Instant" where
  "sleep_deadline X d w =
     (case instant_add (net_now (x_net X) w) d of Some deadline \<Rightarrow> deadline | None \<Rightarrow> net_far_future (x_net X) w)"

definition loop_start ::
  "'w ctx \<Rightarrow> ConnState \<Rightarrow> DnsCache \<Rightarrow> bytes option \<Rightarrow> bytes \<Rightarrow> ReadHalf \<Rightarrow> 'w \<Rightarrow> 'w loop" where
  "loop_start X cs dns deferred read_buf rh w =
     (case serve_deferred X deferred (conn_new X cs dns w) of (ph, s) \<Rightarrow>
        \<lparr>l_phase = ph, l_conn = s, l_reader = loop_reader (x_config X) (take_read_half read_buf rh), l_inbound = [],
            l_frames_since_yield = 0, l_idle_deadline = sleep_deadline X (cs_idle_duration cs) (c_world s),
            l_ping_deadline = sleep_deadline X
              (from_secs (if cs_ping_enabled cs then cs_ping_interval_secs cs else 365 * 24 * 3600)) (c_world s)\<rparr>)"

section \<open>Interleaving\<close>

definition alive :: "'w loop \<Rightarrow> bool" where
  "alive L = (case l_phase L of Finished _ \<Rightarrow> False | Halted Panicked \<Rightarrow> False | _ \<Rightarrow> True)"

inductive conn_step :: "'w ctx \<Rightarrow> 'w loop \<Rightarrow> 'w loop \<Rightarrow> bool" for X :: "'w ctx" where
  main: "loop_step X L = Some L' \<Longrightarrow> conn_step X L L'"
| task: "step_task X (alive L) i (l_conn L) = Some s \<Longrightarrow> conn_step X L (L\<lparr>l_conn := s\<rparr>)"
| arrive: "conn_step X L (L\<lparr>l_inbound := l_inbound L @ [chunk]\<rparr>)"
| outside: "conn_step X L (L\<lparr>l_conn := (l_conn L)\<lparr>c_dns := dns, c_world := w\<rparr>\<rparr>)"

inductive reachable :: "'w ctx \<Rightarrow> 'w loop \<Rightarrow> bool" for X :: "'w ctx" where
  start: "reachable X (loop_start X cs dns deferred read_buf rh w)"
| step: "reachable X L \<Longrightarrow> conn_step X L L' \<Longrightarrow> reachable X L'"

inductive_cases conn_stepE: "conn_step X L L'"

end
