(* ===== verification/Conn_Life.thy ===== *)
theory Conn_Life
  imports Conn_Handlers
begin

text \<open>
  The life of the streams of a connection, as an abstract machine: which streams exist, their cancellation flags,
  the list of streams with pending data, the control events under way and the spawned tasks.  Socket contents,
  frames, CONTINUE packets, timers and the two-part stream table are abstracted away.

  \<open>life_step\<close> says what may happen to a stream; theory \<open>Conn_Refine\<close> shows that every step of the connection is
  a sequence of such steps.  The invariants of the machine are proved here, each through the locale
  \<open>life_invariant\<close>.
\<close>

section \<open>The machine\<close>

record life =
  lf_streams :: "u32 \<Rightarrow> ProxyStream option"
  lf_cells :: cells
  lf_queue :: "u32 list"
  lf_events :: "ControlEvent list"
  lf_tasks :: "task list"

definition life_init :: life where
  "life_init = \<lparr>lf_streams = (\<lambda>_. None), lf_cells = [], lf_queue = [], lf_events = [], lf_tasks = []\<rparr>"

text \<open>The destinations that the configuration lets a client reach.\<close>

definition allowed :: "ServerConfig \<Rightarrow> SocketAddr \<Rightarrow> bool" where
  "allowed config addr \<longleftrightarrow>
     \<not> is_ip_blocked (sa_ip addr) config \<and> \<not> is_port_blocked config (sa_port addr) \<and> sa_port addr \<noteq> 0"

definition drop_stream :: "u32 \<Rightarrow> life \<Rightarrow> life" where
  "drop_stream sid a =
     (case lf_streams a sid of
        None \<Rightarrow> a
      | Some st \<Rightarrow> a\<lparr>lf_streams := (lf_streams a)(sid := None),
                     lf_cells := CancelFlag_cancel (ProxyStream_cancel st) (lf_cells a)\<rparr>)"

text \<open>What a TCP stream may look like after data was written or its queue was drained.\<close>

definition tcp_ok :: "u32 \<Rightarrow> u32 \<Rightarrow> u32 list \<Rightarrow> TcpProxyStream \<Rightarrow> bool" where
  "tcp_ok threshold sid queue tcp \<longleftrightarrow>
     (tcp_pending tcp \<noteq> [] \<longrightarrow> tcp_queued_for_drain tcp) \<and>
     (tcp_queued_for_drain tcp \<longrightarrow> sid \<in> set queue) \<and>
     tcp_packets_since_continue tcp < threshold"

text \<open>How one task may go on, and the events it puts into the control channel.\<close>

inductive task_next :: "cells \<Rightarrow> task \<Rightarrow> task option \<Rightarrow> ControlEvent list \<Rightarrow> bool" for h :: cells where
  connect_skipped: "CancelFlag_is_cancelled f h \<Longrightarrow> task_next h (ConnectTask sid addr f opts) None []"
| connect_started:
    "\<not> CancelFlag_is_cancelled f h \<Longrightarrow> task_next h (ConnectTask sid addr f opts) (Some (ConnectWait sid addr f opts)) []"
| connected: "task_next h (ConnectWait sid addr f opts) (Some (EventSend (TcpConnected sid r w f))) []"
| failed: "task_next h (ConnectWait sid addr f opts) (Some (EventSend (TcpConnectFailed sid reason))) []"
| event: "task_next h (EventSend ev) None [ev]"
| tcp_ended: "CancelFlag_is_cancelled f h \<Longrightarrow> task_next h (TcpReader sid s f) None []"
| tcp_waits: "\<not> CancelFlag_is_cancelled f h \<Longrightarrow> task_next h (TcpReader sid s f) (Some (TcpReading sid s f)) []"
| tcp_cancelled: "CancelFlag_is_cancelled f h \<Longrightarrow> task_next h (TcpReading sid s f) None []"
| tcp_closed: "\<not> CancelFlag_is_cancelled f h \<Longrightarrow>
    task_next h (TcpReading sid s f) (Some (EventSend (StreamClosed sid reason))) []"
| tcp_data: "\<not> CancelFlag_is_cancelled f h \<Longrightarrow> task_next h (TcpReading sid s f) (Some (TcpReader sid s f)) []"
| tcp_full: "\<not> CancelFlag_is_cancelled f h \<Longrightarrow> task_next h (TcpReading sid s f) (Some (TcpSending sid s f frame)) []"
| tcp_resumed: "task_next h (TcpSending sid s f frame) (Some (TcpReader sid s f)) []"
| udp_ended: "CancelFlag_is_cancelled f h \<Longrightarrow> task_next h (UdpReader sid s f) None []"
| udp_waits: "\<not> CancelFlag_is_cancelled f h \<Longrightarrow> task_next h (UdpReader sid s f) (Some (UdpReading sid s f)) []"
| udp_cancelled: "CancelFlag_is_cancelled f h \<Longrightarrow> task_next h (UdpReading sid s f) None []"
| udp_closed: "\<not> CancelFlag_is_cancelled f h \<Longrightarrow>
    task_next h (UdpReading sid s f) (Some (EventSend (StreamClosed sid reason))) []"
| udp_data: "\<not> CancelFlag_is_cancelled f h \<Longrightarrow> task_next h (UdpReading sid s f) (Some (UdpReader sid s f)) []"
| udp_full: "\<not> CancelFlag_is_cancelled f h \<Longrightarrow> task_next h (UdpReading sid s f) (Some (UdpSending sid s f frame)) []"
| udp_resumed: "task_next h (UdpSending sid s f frame) (Some (UdpReader sid s f)) []"

inductive life_step :: "ServerConfig \<Rightarrow> life \<Rightarrow> life \<Rightarrow> bool" for config :: ServerConfig where
  io: "lf_streams a sid = Some (ProxyTcp tcp) \<Longrightarrow>
    tcp_writer tcp' = tcp_writer tcp \<Longrightarrow> tcp_cancel tcp' = tcp_cancel tcp \<Longrightarrow>
    set (lf_queue a) - {sid} \<subseteq> set queue \<Longrightarrow>
    (tcp_ok (continue_threshold config) sid (lf_queue a) tcp \<Longrightarrow> tcp_ok (continue_threshold config) sid queue tcp') \<Longrightarrow>
    life_step config a (a\<lparr>lf_streams := (lf_streams a)(sid \<mapsto> ProxyTcp tcp'), lf_queue := queue\<rparr>)"
| unqueue: "\<nexists>tcp. lf_streams a sid = Some (ProxyTcp tcp) \<Longrightarrow> set (lf_queue a) - {sid} \<subseteq> set queue \<Longrightarrow>
    life_step config a (a\<lparr>lf_queue := queue\<rparr>)"
| early: "lf_streams a sid = Some (ProxyConnecting c) \<Longrightarrow> length (conn_early_data c) < 128 \<Longrightarrow>
    life_step config a (a\<lparr>lf_streams := (lf_streams a)(sid \<mapsto> ProxyConnecting (queue_early_data data c))\<rparr>)"
| close: "life_step config a (drop_stream sid a)"
| refused: "life_step config a (a\<lparr>lf_cells := lf_cells a @ [False]\<rparr>)"
| open_tcp: "lf_streams a sid = None \<Longrightarrow> sid \<noteq> 0 \<Longrightarrow> allowed config addr \<Longrightarrow>
    life_step config a (a\<lparr>lf_streams := (lf_streams a)(sid \<mapsto>
        ProxyConnecting \<lparr>conn_early_data = [], conn_cancel = length (lf_cells a)\<rparr>),
      lf_cells := lf_cells a @ [False],
      lf_tasks := lf_tasks a @ [ConnectTask sid addr (length (lf_cells a)) opts]\<rparr>)"
| open_failed: "lf_streams a sid = None \<Longrightarrow> sid \<noteq> 0 \<Longrightarrow>
    life_step config a (a\<lparr>lf_streams := (lf_streams a)(sid \<mapsto>
        ProxyConnecting \<lparr>conn_early_data = [], conn_cancel = length (lf_cells a)\<rparr>),
      lf_cells := lf_cells a @ [False], lf_events := lf_events a @ [TcpConnectFailed sid reason]\<rparr>)"
| open_udp: "lf_streams a sid = None \<Longrightarrow> sid \<noteq> 0 \<Longrightarrow> allowed config addr \<Longrightarrow>
    life_step config a (a\<lparr>lf_streams := (lf_streams a)(sid \<mapsto> ProxyUdp (UdpProxyStream_new s addr (length (lf_cells a)))),
      lf_cells := lf_cells a @ [False], lf_tasks := lf_tasks a @ [UdpReader sid s (length (lf_cells a))]\<rparr>)"
| ended: "lf_events a = StreamClosed sid reason # evs \<Longrightarrow>
    life_step config a (drop_stream sid (a\<lparr>lf_events := evs\<rparr>))"
| connect_failed: "lf_events a = TcpConnectFailed sid reason # evs \<Longrightarrow>
    life_step config a (drop_stream sid (a\<lparr>lf_events := evs\<rparr>))"
| connect_done: "lf_events a = TcpConnected sid r w f # evs \<Longrightarrow> lf_streams a sid = Some (ProxyConnecting c) \<Longrightarrow>
    life_step config a (a\<lparr>lf_events := evs,
      lf_streams := (lf_streams a)(sid \<mapsto> ProxyTcp (TcpProxyStream_with_pending w pending (length (lf_cells a)))),
      lf_cells := CancelFlag_cancel (conn_cancel c) (lf_cells a @ [False]),
      lf_queue := lf_queue a @ (if pending \<noteq> [] then [sid] else []),
      lf_tasks := lf_tasks a @ [TcpReader sid r (length (lf_cells a))]\<rparr>)"
| connect_dead: "lf_events a = TcpConnected sid r w f # evs \<Longrightarrow> lf_streams a sid = Some (ProxyConnecting c) \<Longrightarrow>
    life_step config a (drop_stream sid (a\<lparr>lf_events := evs, lf_cells := lf_cells a @ [False]\<rparr>))"
| connect_late: "lf_events a = TcpConnected sid r w f # evs \<Longrightarrow> lf_streams a sid = Some st \<Longrightarrow>
    \<nexists>c. st = ProxyConnecting c \<Longrightarrow>
    life_step config a (a\<lparr>lf_events := evs,
      lf_cells := CancelFlag_cancel (ProxyStream_cancel st) (lf_cells a @ [False])\<rparr>)"
| connect_gone: "lf_events a = TcpConnected sid r w f # evs \<Longrightarrow> lf_streams a sid = None \<Longrightarrow>
    life_step config a (a\<lparr>lf_events := evs, lf_cells := lf_cells a @ [False]\<rparr>)"
| task: "lf_tasks a = ts @ t # us \<Longrightarrow> task_next (lf_cells a) t t' evs \<Longrightarrow>
    life_step config a (a\<lparr>lf_tasks := ts @ (case t' of Some u \<Rightarrow> [u] | None \<Rightarrow> []) @ us,
      lf_events := lf_events a @ evs\<rparr>)"

definition life_steps :: "ServerConfig \<Rightarrow> life \<Rightarrow> life \<Rightarrow> bool" where
  "life_steps config = (life_step config)\<^sup>*\<^sup>*"

locale life_invariant =
  fixes config :: ServerConfig and I :: "life \<Rightarrow> bool"
  assumes init: "I life_init"
    and step: "life_step config a b \<Longrightarrow> I a \<Longrightarrow> I b"
begin

lemma steps: "life_steps config a b \<Longrightarrow> I a \<Longrightarrow> I b"
  unfolding life_steps_def by (induction rule: rtranclp_induct) (auto intro: step)

lemma always: "life_steps config life_init a \<Longrightarrow> I a"
  using steps init by blast

end

section \<open>Invariants\<close>

lemma drop_stream_simps [simp]:
  "lf_queue (drop_stream sid a) = lf_queue a" "lf_events (drop_stream sid a) = lf_events a"
  "lf_tasks (drop_stream sid a) = lf_tasks a" "length (lf_cells (drop_stream sid a)) = length (lf_cells a)"
  "lf_streams (drop_stream sid a) = (lf_streams a)(sid := None)"
  by (auto simp: drop_stream_def split: option.split)

lemma cancelled_mono:
  "CancelFlag_is_cancelled f h \<Longrightarrow> CancelFlag_is_cancelled f (CancelFlag_cancel g h)"
  by (simp add: is_cancelled_cancel)

lemma new_not_cancelled [simp]: "\<not> CancelFlag_is_cancelled (length h) h"
  by (simp add: CancelFlag_is_cancelled_def)

lemma threshold_pos: "0 < continue_threshold config"
  using continue_threshold_nat [of config] by (simp add: word_less_nat_alt)

text \<open>Pending data is never forgotten, credits are never overrun, and early data is bounded.\<close>

fun stream_ok :: "u32 \<Rightarrow> u32 \<Rightarrow> u32 list \<Rightarrow> ProxyStream \<Rightarrow> bool" where
  "stream_ok threshold sid queue (ProxyTcp tcp) = tcp_ok threshold sid queue tcp"
| "stream_ok threshold sid queue (ProxyConnecting c) = (length (conn_early_data c) \<le> 128)"
| "stream_ok threshold sid queue (ProxyUdp u) = True"

definition pending_ok :: "ServerConfig \<Rightarrow> life \<Rightarrow> bool" where
  "pending_ok config a \<longleftrightarrow>
     (\<forall>sid st. lf_streams a sid = Some st \<longrightarrow>
        sid \<noteq> 0 \<and> stream_ok (continue_threshold config) sid (lf_queue a) st)"

lemma stream_ok_queue:
  "stream_ok th k q st \<Longrightarrow> set q - {sid} \<subseteq> set q' \<Longrightarrow> k \<noteq> sid \<or> (\<nexists>tcp. st = ProxyTcp tcp) \<Longrightarrow> stream_ok th k q' st"
  by (cases st) (auto simp: tcp_ok_def)

lemma pending_ok_step:
  assumes "life_step config a b" "pending_ok config a"
  shows "pending_ok config b"
  using assms
proof (cases rule: life_step.cases)
  case (io sid tcp tcp' queue)
  have "sid \<noteq> 0 \<and> stream_ok (continue_threshold config) sid (lf_queue a) (ProxyTcp tcp)"
    using assms(2) io(2) unfolding pending_ok_def by blast
  with io(6) have "sid \<noteq> 0" "tcp_ok (continue_threshold config) sid queue tcp'"
    by simp_all
  with io(1) assms(2) show ?thesis
    using stream_ok_queue [OF _ io(5)] unfolding pending_ok_def by auto
next
  case (unqueue sid queue)
  then show ?thesis
    using assms(2) stream_ok_queue [OF _ unqueue(3)] unfolding pending_ok_def by (metis life.select_convs(1,3) life.surjective life.update_convs(3))
next
  case (connect_done sid r w f evs c pending)
  have "stream_ok th k (lf_queue a @ xs) st" if "stream_ok th k (lf_queue a) st" for th k xs st
    using that by (cases st) (auto simp: tcp_ok_def)
  with connect_done assms(2) threshold_pos [of config] show ?thesis
    by (auto simp: pending_ok_def tcp_ok_def TcpProxyStream_with_pending_def)
next
  case (task ts t us t' evs)
  then show ?thesis
    using assms(2) by (simp add: pending_ok_def)
qed (auto simp: pending_ok_def queue_early_data_def UdpProxyStream_new_def)

interpretation pending: life_invariant config "pending_ok config" for config
  by unfold_locales (simp_all add: pending_ok_step, simp add: pending_ok_def life_init_def)

text \<open>Every connection attempt and every UDP stream has a destination that the configuration allows.\<close>

definition task_ok :: "ServerConfig \<Rightarrow> task \<Rightarrow> bool" where
  "task_ok config t =
     (case t of ConnectTask _ addr _ _ \<Rightarrow> allowed config addr
      | ConnectWait _ addr _ _ \<Rightarrow> allowed config addr | _ \<Rightarrow> True)"

definition egress_ok :: "ServerConfig \<Rightarrow> life \<Rightarrow> bool" where
  "egress_ok config a \<longleftrightarrow>
     (\<forall>t \<in> set (lf_tasks a). task_ok config t) \<and>
     (\<forall>sid u. lf_streams a sid = Some (ProxyUdp u) \<longrightarrow> allowed config (udp_dest_addr u))"

lemma task_next_ok: "task_next h t t' evs \<Longrightarrow> task_ok config t \<Longrightarrow> t' = Some u \<Longrightarrow> task_ok config u"
  by (cases rule: task_next.cases) (auto simp: task_ok_def)

lemma egress_ok_step:
  assumes "life_step config a b" "egress_ok config a"
  shows "egress_ok config b"
  using assms
proof (cases rule: life_step.cases)
  case (task ts t us t' evs)
  then show ?thesis
    using assms(2) task_next_ok [OF task(3)] by (auto simp: egress_ok_def split: option.splits)
qed (auto simp: egress_ok_def task_ok_def UdpProxyStream_new_def split: if_splits)

interpretation egress: life_invariant config "egress_ok config" for config
  by unfold_locales (simp_all add: egress_ok_step, simp add: egress_ok_def life_init_def)

text \<open>
  Cancellation: each stream has a flag of its own, and a task that has not been cancelled serves a stream that is
  still in the table: a reader an open one, a connect task one that is still connecting.
\<close>

fun is_connecting :: "ProxyStream \<Rightarrow> bool" where
  "is_connecting (ProxyConnecting c) = True"
| "is_connecting _ = False"

fun serves :: "task \<Rightarrow> (u32 \<times> CancelFlag \<times> bool) option" where
  "serves (ConnectTask sid addr f opts) = Some (sid, f, True)"
| "serves (ConnectWait sid addr f opts) = Some (sid, f, True)"
| "serves (EventSend ev) = None"
| "serves (TcpReader sid s f) = Some (sid, f, False)"
| "serves (TcpReading sid s f) = Some (sid, f, False)"
| "serves (TcpSending sid s f frame) = Some (sid, f, False)"
| "serves (UdpReader sid s f) = Some (sid, f, False)"
| "serves (UdpReading sid s f) = Some (sid, f, False)"
| "serves (UdpSending sid s f frame) = Some (sid, f, False)"

definition flag_of :: "life \<Rightarrow> u32 \<Rightarrow> (CancelFlag \<times> bool) option" where
  "flag_of a sid = map_option (\<lambda>st. (ProxyStream_cancel st, is_connecting st)) (lf_streams a sid)"

definition flags_ok :: "life \<Rightarrow> bool" where
  "flags_ok a \<longleftrightarrow>
     (\<forall>sid f k. flag_of a sid = Some (f, k) \<longrightarrow> f < length (lf_cells a)) \<and>
     (\<forall>sid sid' f k k'. flag_of a sid = Some (f, k) \<longrightarrow> flag_of a sid' = Some (f, k') \<longrightarrow> sid = sid') \<and>
     (\<forall>t \<in> set (lf_tasks a). \<forall>sid f k. serves t = Some (sid, f, k) \<longrightarrow>
        f < length (lf_cells a) \<and> (CancelFlag_is_cancelled f (lf_cells a) \<or> flag_of a sid = Some (f, k)))"

lemma flag_of_simps:
  "flag_of (a\<lparr>lf_streams := m\<rparr>) sid = map_option (\<lambda>st. (ProxyStream_cancel st, is_connecting st)) (m sid)"
  "flag_of (a\<lparr>lf_cells := h\<rparr>) sid = flag_of a sid" "flag_of (a\<lparr>lf_queue := q\<rparr>) sid = flag_of a sid"
  "flag_of (a\<lparr>lf_events := e\<rparr>) sid = flag_of a sid" "flag_of (a\<lparr>lf_tasks := ts\<rparr>) sid = flag_of a sid"
  by (simp_all add: flag_of_def)

lemma flags_okD:
  assumes "flags_ok a"
  shows "flag_of a sid = Some (f, k) \<Longrightarrow> f < length (lf_cells a)"
    and "flag_of a sid = Some (f, k) \<Longrightarrow> flag_of a sid' = Some (f, k') \<Longrightarrow> sid = sid'"
    and "t \<in> set (lf_tasks a) \<Longrightarrow> serves t = Some (sid, f, k) \<Longrightarrow> f < length (lf_cells a)"
    and "t \<in> set (lf_tasks a) \<Longrightarrow> serves t = Some (sid, f, k) \<Longrightarrow>
      CancelFlag_is_cancelled f (lf_cells a) \<or> flag_of a sid = Some (f, k)"
  using assms unfolding flags_ok_def by blast+

lemma flags_okI:
  assumes "\<And>sid f k. flag_of a sid = Some (f, k) \<Longrightarrow> f < length (lf_cells a)"
    and "\<And>sid sid' f k k'. flag_of a sid = Some (f, k) \<Longrightarrow> flag_of a sid' = Some (f, k') \<Longrightarrow> sid = sid'"
    and "\<And>t sid f k. t \<in> set (lf_tasks a) \<Longrightarrow> serves t = Some (sid, f, k) \<Longrightarrow>
      f < length (lf_cells a) \<and> (CancelFlag_is_cancelled f (lf_cells a) \<or> flag_of a sid = Some (f, k))"
  shows "flags_ok a"
  using assms unfolding flags_ok_def by blast

text \<open>The three ways in which flags change: a stream keeps its flag, loses it, or gets a new one.\<close>

lemma flags_ok_same:
  assumes "flags_ok a" "flag_of b = flag_of a" "lf_cells b = lf_cells a \<or> lf_cells b = lf_cells a @ [False]"
    "\<And>t. t \<in> set (lf_tasks b) \<Longrightarrow> serves t \<noteq> None \<Longrightarrow> \<exists>u \<in> set (lf_tasks a). serves u = serves t"
  shows "flags_ok b"
proof -
  have cells: "f < length (lf_cells a) \<Longrightarrow> f < length (lf_cells b)"
    "CancelFlag_is_cancelled f (lf_cells b) = CancelFlag_is_cancelled f (lf_cells a)" for f
    using assms(3) by auto
  show ?thesis
  proof (rule flags_okI; unfold assms(2) cells(2))
    fix t sid f k
    assume t: "t \<in> set (lf_tasks b)" "serves t = Some (sid, f, k)"
    then obtain u where "u \<in> set (lf_tasks a)" "serves u = Some (sid, f, k)"
      using assms(4) [OF t(1)] by auto
    with assms(1) show "f < length (lf_cells b) \<and> (CancelFlag_is_cancelled f (lf_cells a) \<or> flag_of a sid = Some (f, k))"
      using cells(1) flags_okD(3,4) by blast
  qed (use cells(1) flags_okD(1,2) [OF assms(1)] in blast)+
qed

lemma flags_ok_drop:
  assumes "flags_ok a"
  shows "flags_ok (drop_stream sid a)"
proof (cases "lf_streams a sid")
  case None
  then show ?thesis
    using assms by (simp add: drop_stream_def)
next
  case (Some st)
  let ?b = "drop_stream sid a" and ?f = "ProxyStream_cancel st"
  have f: "flag_of a sid = Some (?f, is_connecting st)"
    using Some by (simp add: flag_of_def)
  have b: "flag_of ?b k = (if k = sid then None else flag_of a k)"
    "CancelFlag_is_cancelled g (lf_cells ?b) = (CancelFlag_is_cancelled g (lf_cells a) \<or> g = ?f)" for k g
    using Some flags_okD(1) [OF assms f] by (auto simp: flag_of_def drop_stream_def is_cancelled_cancel)
  show ?thesis
  proof (rule flags_okI; unfold b drop_stream_simps)
    fix t j g c
    assume t: "t \<in> set (lf_tasks a)" "serves t = Some (j, g, c)"
    show "g < length (lf_cells a) \<and>
        ((CancelFlag_is_cancelled g (lf_cells a) \<or> g = ?f) \<or> (if j = sid then None else flag_of a j) = Some (g, c))"
      using flags_okD(3,4) [OF assms t] f by auto
  next
    fix j j' g c c'
    assume "(if j = sid then None else flag_of a j) = Some (g, c)" "(if j' = sid then None else flag_of a j') = Some (g, c')"
    then show "j = j'"
      using flags_okD(2) [OF assms, of j g c j' c'] by (simp split: if_splits)
  next
    fix j g c
    assume "(if j = sid then None else flag_of a j) = Some (g, c)"
    then show "g < length (lf_cells a)"
      using flags_okD(1) [OF assms, of j g c] by (simp split: if_splits)
  qed
qed

lemma flags_ok_new:
  assumes "flags_ok a" "lf_streams a sid = None"
    "lf_cells b = lf_cells a @ [False]" "flag_of b = (flag_of a)(sid \<mapsto> (length (lf_cells a), k))"
    "\<And>t. t \<in> set (lf_tasks b) \<Longrightarrow> t \<in> set (lf_tasks a) \<or> serves t = None \<or> serves t = Some (sid, length (lf_cells a), k)"
  shows "flags_ok b"
proof (rule flags_okI)
  have none: "flag_of a sid = None"
    using assms(2) by (simp add: flag_of_def)
  note old = flags_okD(1) [OF assms(1)]
  show "f < length (lf_cells b)" if "flag_of b j = Some (f, c)" for j f c
    using that old [of j f c] unfolding assms(3,4) by (auto split: if_splits)
  show "i = j" if "flag_of b i = Some (f, c)" "flag_of b j = Some (f, d)" for i j f c d
    using that old [of i f c] old [of j f d] flags_okD(2) [OF assms(1), of i f c j d] unfolding assms(4)
    by (auto split: if_splits)
  show "f < length (lf_cells b) \<and> (CancelFlag_is_cancelled f (lf_cells b) \<or> flag_of b j = Some (f, c))"
    if t: "t \<in> set (lf_tasks b)" "serves t = Some (j, f, c)" for t j f c
  proof (cases "t \<in> set (lf_tasks a)")
    case True
    from flags_okD(3,4) [OF assms(1) True t(2)] none show ?thesis
      unfolding assms(3,4) by auto
  next
    case False
    with assms(5) [OF t(1)] t(2) show ?thesis
      by (simp add: assms(3,4))
  qed
qed

lemma flags_ok_cancel:
  assumes "flags_ok a"
  shows "flags_ok (a\<lparr>lf_cells := CancelFlag_cancel g (lf_cells a)\<rparr>)"
proof (rule flags_okI; unfold flag_of_simps)
  fix t sid f k
  assume "t \<in> set (lf_tasks (a\<lparr>lf_cells := CancelFlag_cancel g (lf_cells a)\<rparr>))" "serves t = Some (sid, f, k)"
  with flags_okD(3,4) [OF assms, of t sid f k]
  show "f < length (lf_cells (a\<lparr>lf_cells := CancelFlag_cancel g (lf_cells a)\<rparr>)) \<and>
      (CancelFlag_is_cancelled f (lf_cells (a\<lparr>lf_cells := CancelFlag_cancel g (lf_cells a)\<rparr>)) \<or> flag_of a sid = Some (f, k))"
    by (auto simp: cancelled_mono)
qed (use flags_okD(1,2) [OF assms] in auto)

lemma flags_ok_done:
  assumes "flags_ok a" "lf_streams a sid = Some (ProxyConnecting c)"
    "lf_streams b = (lf_streams a)(sid \<mapsto> ProxyTcp (TcpProxyStream_with_pending w pending (length (lf_cells a))))"
    "lf_cells b = CancelFlag_cancel (conn_cancel c) (lf_cells a @ [False])"
    "lf_tasks b = lf_tasks a @ [TcpReader sid r (length (lf_cells a))]"
  shows "flags_ok b"
proof -
  have "conn_cancel c < length (lf_cells a)"
    using flags_okD(1) [OF assms(1), of sid "conn_cancel c" True] assms(2) by (simp add: flag_of_def)
  with assms(2-5) show ?thesis
    by (intro flags_ok_new [OF flags_ok_drop [OF assms(1), of sid], of sid b False])
      (auto simp: flag_of_def fun_eq_iff TcpProxyStream_with_pending_def drop_stream_def CancelFlag_cancel_def list_update_append1)
qed

lemma flags_ok_step:
  assumes "life_step config a b" "flags_ok a"
  shows "flags_ok b"
  using assms
proof (cases rule: life_step.cases)
  case (open_tcp sid addr opts)
  then show ?thesis
    by (intro flags_ok_new [OF assms(2), of sid b True]) (auto simp: flag_of_def fun_eq_iff)
next
  case (open_failed sid reason)
  then show ?thesis
    by (intro flags_ok_new [OF assms(2), of sid b True]) (auto simp: flag_of_def fun_eq_iff)
next
  case (open_udp sid addr s)
  then show ?thesis
    by (intro flags_ok_new [OF assms(2), of sid b False]) (auto simp: flag_of_def fun_eq_iff UdpProxyStream_new_def)
next
  case (connect_done sid r w f evs c pending)
  then show ?thesis
    by (intro flags_ok_done [OF assms(2) connect_done(3)]) auto
next
  case (connect_late sid r w f evs st)
  have "flags_ok (a\<lparr>lf_events := evs, lf_cells := lf_cells a @ [False]\<rparr>)"
    by (intro flags_ok_same [OF assms(2)]) (auto simp: flag_of_def fun_eq_iff)
  from flags_ok_cancel [OF this] connect_late show ?thesis
    by simp
next
  case (task ts t us t' evs)
  have "\<And>u. t' = Some u \<Longrightarrow> serves u \<noteq> None \<Longrightarrow> serves u = serves t"
    using task(3) by (cases rule: task_next.cases) auto
  with task show ?thesis
    by (intro flags_ok_same [OF assms(2)]) (auto simp: flag_of_def fun_eq_iff split: option.splits)
qed (auto intro!: flags_ok_drop flags_ok_same [OF assms(2)] simp: flag_of_def fun_eq_iff queue_early_data_def)

interpretation flags: life_invariant config flags_ok for config
  by unfold_locales (simp add: flags_ok_def flag_of_def life_init_def, rule flags_ok_step)

text \<open>
  Progress of a CONNECT: as long as a stream is connecting its connect task is at work, or a reply to the
  connection is being sent or waits in the control channel.
\<close>

fun connect_reply :: "ControlEvent \<Rightarrow> u32 option" where
  "connect_reply (TcpConnected sid r w f) = Some sid"
| "connect_reply (TcpConnectFailed sid reason) = Some sid"
| "connect_reply (StreamClosed sid reason) = None"

fun works_on :: "u32 \<Rightarrow> CancelFlag \<Rightarrow> task \<Rightarrow> bool" where
  "works_on sid f (EventSend ev) = (connect_reply ev = Some sid)"
| "works_on sid f t = (serves t = Some (sid, f, True))"

definition outstanding :: "u32 \<Rightarrow> CancelFlag \<Rightarrow> life \<Rightarrow> bool" where
  "outstanding sid f a \<longleftrightarrow>
     (\<exists>t \<in> set (lf_tasks a). works_on sid f t) \<or> (\<exists>ev \<in> set (lf_events a). connect_reply ev = Some sid)"

definition connects_ok :: "life \<Rightarrow> bool" where
  "connects_ok a \<longleftrightarrow> flags_ok a \<and>
     (\<forall>sid f. flag_of a sid = Some (f, True) \<longrightarrow>
        \<not> CancelFlag_is_cancelled f (lf_cells a) \<and> outstanding sid f a)"

lemmas life_flag_simps = flag_of_def fun_eq_iff outstanding_def

text \<open>What a step must not do to a stream that goes on connecting.\<close>

lemma connects_ok_keep:
  assumes "connects_ok a" "flags_ok b"
    "\<And>sid f. flag_of b sid = Some (f, True) \<Longrightarrow> flag_of a sid = Some (f, True)"
    "\<And>sid f. flag_of b sid = Some (f, True) \<Longrightarrow> \<not> CancelFlag_is_cancelled f (lf_cells a) \<Longrightarrow>
       \<not> CancelFlag_is_cancelled f (lf_cells b)"
    "\<And>sid f. flag_of b sid = Some (f, True) \<Longrightarrow> \<not> CancelFlag_is_cancelled f (lf_cells a) \<Longrightarrow>
       outstanding sid f a \<Longrightarrow> outstanding sid f b"
  shows "connects_ok b"
  using assms unfolding connects_ok_def by blast

lemma connects_ok_drop:
  assumes "connects_ok a" "flags_ok (drop_stream sid a')" "flag_of a' = flag_of a"
    "lf_cells a' = lf_cells a \<or> lf_cells a' = lf_cells a @ [False]"
    "\<And>k f. k \<noteq> sid \<Longrightarrow> outstanding k f a \<Longrightarrow> outstanding k f a'"
  shows "connects_ok (drop_stream sid a')"
proof (rule connects_ok_keep [OF assms(1,2)])
  fix k f
  assume k: "flag_of (drop_stream sid a') k = Some (f, True)"
  then have neq: "k \<noteq> sid" and fk: "flag_of a k = Some (f, True)"
    using assms(3) [symmetric] by (auto simp: flag_of_def split: if_splits)
  then show "flag_of a k = Some (f, True)"
    by simp
  show "outstanding k f (drop_stream sid a')" if "outstanding k f a"
    using assms(5) [OF neq that] by (simp add: outstanding_def)
  assume live: "\<not> CancelFlag_is_cancelled f (lf_cells a)"
  then have live': "\<not> CancelFlag_is_cancelled f (lf_cells a')"
    using assms(4) by auto
  show "\<not> CancelFlag_is_cancelled f (lf_cells (drop_stream sid a'))"
  proof (cases "lf_streams a' sid")
    case (Some st)
    then have "flag_of a sid = Some (ProxyStream_cancel st, is_connecting st)"
      using assms(3) [symmetric] by (simp add: flag_of_def)
    with fk neq assms(1) have "ProxyStream_cancel st \<noteq> f"
      using flags_okD(2) unfolding connects_ok_def by blast
    with live' Some show ?thesis
      by (simp add: drop_stream_def is_cancelled_cancel)
  qed (use live' in \<open>simp add: drop_stream_def\<close>)
qed

lemma connects_ok_open:
  assumes "connects_ok a" "flags_ok b" "flag_of b = (flag_of a)(sid \<mapsto> (length (lf_cells a), k))"
    "lf_cells b = lf_cells a @ [False]" "k \<Longrightarrow> outstanding sid (length (lf_cells a)) b"
    "\<And>j f. outstanding j f a \<Longrightarrow> outstanding j f b"
  shows "connects_ok b"
  unfolding connects_ok_def
proof (intro conjI allI impI)
  fix j f
  assume j: "flag_of b j = Some (f, True)"
  have "\<not> CancelFlag_is_cancelled f (lf_cells a) \<and> outstanding j f b"
  proof (cases "j = sid")
    case True
    with j assms(3,5) show ?thesis
      by auto
  next
    case False
    with j assms(1,3,6) show ?thesis
      by (auto simp: connects_ok_def)
  qed
  then show "\<not> CancelFlag_is_cancelled f (lf_cells b)" "outstanding j f b"
    by (simp_all add: assms(4))
qed (rule assms(2))

lemma outstanding_more:
  "outstanding sid f a \<Longrightarrow> set (lf_tasks a) \<subseteq> set (lf_tasks b) \<Longrightarrow> set (lf_events a) \<subseteq> set (lf_events b) \<Longrightarrow> outstanding sid f b"
  unfolding outstanding_def by blast

text \<open>A step of a task passes its work on.\<close>

lemma outstanding_task:
  assumes "lf_tasks a = ts @ t # us" "task_next (lf_cells a) t t' evs" "outstanding sid f a"
    "\<not> CancelFlag_is_cancelled f (lf_cells a)"
  shows "outstanding sid f (a\<lparr>lf_tasks := ts @ (case t' of Some u \<Rightarrow> [u] | None \<Rightarrow> []) @ us, lf_events := lf_events a @ evs\<rparr>)"
proof -
  have "(\<exists>u. t' = Some u \<and> works_on sid f u) \<or> (\<exists>ev \<in> set evs. connect_reply ev = Some sid)" if "works_on sid f t"
    using assms(2) that assms(4) by (cases rule: task_next.cases) auto
  with assms(1,3) show ?thesis
    by (auto simp: outstanding_def split: option.split)
qed

lemma connects_ok_same:
  assumes "connects_ok a" "flags_ok b" "flag_of b = flag_of a" "lf_cells b = lf_cells a \<or> lf_cells b = lf_cells a @ [False]"
    "\<And>sid f. \<not> CancelFlag_is_cancelled f (lf_cells a) \<Longrightarrow> outstanding sid f a \<Longrightarrow>
       flag_of a sid = Some (f, True) \<Longrightarrow> outstanding sid f b"
  shows "connects_ok b"
  by (rule connects_ok_keep [OF assms(1,2)]) (use assms(3-5) in auto)

text \<open>The reply of a finished connection replaces the connecting stream; one that comes late changes no connecting stream.\<close>

lemma connects_ok_done:
  assumes "connects_ok a" "flags_ok b" "lf_events a = TcpConnected sid r w f # evs"
    "lf_streams a sid = Some (ProxyConnecting c)"
    "lf_streams b = (lf_streams a)(sid \<mapsto> ProxyTcp (TcpProxyStream_with_pending w pending (length (lf_cells a))))"
    "lf_cells b = CancelFlag_cancel (conn_cancel c) (lf_cells a @ [False])"
    "lf_events b = evs" "set (lf_tasks a) \<subseteq> set (lf_tasks b)"
  shows "connects_ok b"
proof -
  let ?d = "drop_stream sid (a\<lparr>lf_events := evs\<rparr>)"
  have flags: "flags_ok a"
    using assms(1) by (simp add: connects_ok_def)
  then have "conn_cancel c < length (lf_cells a)"
    using flags_okD(1) [of a sid "conn_cancel c" True] assms(4) by (simp add: flag_of_def)
  then have b: "lf_cells b = lf_cells ?d @ [False]"
    using assms(4,6) by (simp add: drop_stream_def CancelFlag_cancel_def list_update_append1)
  have "flags_ok ?d"
    by (intro flags_ok_drop flags_ok_same [OF flags]) (auto simp: life_flag_simps)
  then have "connects_ok ?d"
    by (rule connects_ok_drop [OF assms(1)]) (use assms(3) in \<open>auto simp: life_flag_simps\<close>)
  then show ?thesis
    by (rule connects_ok_open [OF _ assms(2), of _ sid False])
      (use assms b in \<open>auto simp: life_flag_simps TcpProxyStream_with_pending_def\<close>)
qed

lemma connects_ok_late:
  assumes "connects_ok a" "flags_ok b" "lf_events a = TcpConnected sid r w f # evs"
    "lf_streams a sid = Some st" "\<not> is_connecting st"
    "b = a\<lparr>lf_events := evs, lf_cells := CancelFlag_cancel (ProxyStream_cancel st) (lf_cells a @ [False])\<rparr>"
  shows "connects_ok b"
proof (rule connects_ok_keep [OF assms(1,2)])
  fix k g
  assume "flag_of b k = Some (g, True)"
  then show a: "flag_of a k = Some (g, True)"
    by (simp add: assms(6) flag_of_def)
  have st: "flag_of a sid = Some (ProxyStream_cancel st, False)"
    using assms(4,5) by (simp add: flag_of_def)
  with a have "k \<noteq> sid"
    by auto
  with st a assms(1) have "g \<noteq> ProxyStream_cancel st"
    using flags_okD(2) unfolding connects_ok_def by blast
  then show "\<not> CancelFlag_is_cancelled g (lf_cells b)" if "\<not> CancelFlag_is_cancelled g (lf_cells a)"
    using that by (simp add: assms(6) is_cancelled_cancel)
  show "outstanding k g b" if "outstanding k g a"
    using that assms(3) \<open>k \<noteq> sid\<close> by (auto simp: assms(6) outstanding_def)
qed

lemma connects_ok_step:
  assumes "life_step config a b" "connects_ok a"
  shows "connects_ok b"
proof -
  have flags: "flags_ok b"
    using assms flags_ok_step by (auto simp: connects_ok_def)
  note same = connects_ok_same [OF assms(2) flags] and opened = connects_ok_open [OF assms(2) flags]
    and drop = connects_ok_drop [OF assms(2)]
  from assms(1) show ?thesis
  proof (cases rule: life_step.cases)
    case (task ts t us t' evs)
    with outstanding_task [OF task(2,3)] show ?thesis
      by (intro same) (auto simp: flag_of_def fun_eq_iff)
  next
    case (close sid)
    then show ?thesis
      using drop [of sid a] flags by simp
  next
    case (ended sid reason evs)
    then show ?thesis
      using drop [of sid "a\<lparr>lf_events := evs\<rparr>"] flags by (auto simp: life_flag_simps)
  next
    case (connect_failed sid reason evs)
    then show ?thesis
      using drop [of sid "a\<lparr>lf_events := evs\<rparr>"] flags by (auto simp: life_flag_simps)
  next
    case (connect_dead sid r w f evs c)
    then show ?thesis
      using drop [of sid "a\<lparr>lf_events := evs, lf_cells := lf_cells a @ [False]\<rparr>"] flags by (auto simp: life_flag_simps)
  next
    case (open_tcp sid addr opts)
    then show ?thesis
      by (intro opened [of sid True]) (auto simp: life_flag_simps)
  next
    case (open_failed sid reason)
    then show ?thesis
      by (intro opened [of sid True]) (auto simp: life_flag_simps)
  next
    case (open_udp sid addr s)
    then show ?thesis
      by (intro opened [of sid False]) (auto simp: life_flag_simps UdpProxyStream_new_def)
  next
    case (connect_done sid r w f evs c pending)
    then show ?thesis
      by (intro connects_ok_done [OF assms(2) flags connect_done(2,3)]) auto
  next
    case (connect_late sid r w f evs st)
    then have "\<not> is_connecting st"
      by (cases st) auto
    with connect_late show ?thesis
      using connects_ok_late [OF assms(2) flags connect_late(2,3)] by simp
  qed ((rule same; auto simp: life_flag_simps queue_early_data_def)+)
qed

interpretation connects: life_invariant config connects_ok for config
  by unfold_locales (simp add: connects_ok_def flags.init flag_of_def life_init_def [symmetric], simp add: life_init_def, rule connects_ok_step)

end
