(* ===== verification/Conn_Refine.thy ===== *)
theory Conn_Refine
  imports Conn_Loop Conn_Life
begin

text \<open>
  Every step of a connection is a sequence of steps of the abstract machine of theory \<open>Conn_Life\<close>, as long as the
  connection runs; so the machine's invariants hold in every state that a running connection reaches.
\<close>

definition view :: "'w conn \<Rightarrow> life" where
  "view s = \<lparr>lf_streams = (\<lambda>k. StreamTable_get_mut k (c_table s)), lf_cells = c_cells s,
     lf_queue = c_streams_with_pending s, lf_events = c_control s, lf_tasks = c_tasks s\<rparr>"

lemma view_simps [simp]:
  "lf_streams (view s) = (\<lambda>k. StreamTable_get_mut k (c_table s))" "lf_cells (view s) = c_cells s"
  "lf_queue (view s) = c_streams_with_pending s" "lf_events (view s) = c_control s" "lf_tasks (view s) = c_tasks s"
  by (simp_all add: view_def)

definition refines :: "ServerConfig \<Rightarrow> 'w conn \<Rightarrow> 'w conn \<Rightarrow> bool" where
  "refines config s s' \<longleftrightarrow>
     (table_inv (c_table s) \<longrightarrow> table_inv (c_table s') \<and>
        st_max_streams (c_table s') = st_max_streams (c_table s) \<and> life_steps config (view s) (view s'))"

lemma refines_refl: "view s' = view s \<Longrightarrow> c_table s' = c_table s \<Longrightarrow> refines config s s'"
  by (simp add: refines_def life_steps_def)

lemma refines_trans: "refines config s t \<Longrightarrow> refines config t u \<Longrightarrow> refines config s u"
  by (auto simp: refines_def life_steps_def)

lemma refines_step:
  "(table_inv (c_table s) \<Longrightarrow> table_inv (c_table s') \<and> st_max_streams (c_table s') = st_max_streams (c_table s)) \<Longrightarrow>
   (table_inv (c_table s) \<Longrightarrow> life_step config (view s) (view s')) \<Longrightarrow> refines config s s'"
  by (auto simp: refines_def life_steps_def)

text \<open>What writing to the client leaves alone.\<close>

lemma send_client_frame [simp]:
  "view (send_client X p s) = view s" "c_table (send_client X p s) = c_table s"
  "view (send_close X sid r s) = view s" "c_table (send_close X sid r s) = c_table s"
  by (simp_all add: send_client_def send_close_def view_def)

lemma refines_close: "refines config s s' \<Longrightarrow> refines config s (send_close X sid r s')"
  by (simp add: refines_def)

lemma remove_stream_eq:
  "remove_stream sid s =
     (StreamTable_get_mut sid (c_table s),
      s\<lparr>c_cells := (case StreamTable_get_mut sid (c_table s) of
           None \<Rightarrow> c_cells s | Some st \<Rightarrow> CancelFlag_cancel (ProxyStream_cancel st) (c_cells s)),
        c_table := StreamTable_delete sid (c_table s)\<rparr>)"
  by (simp add: remove_stream_def remove_eq)

lemma view_remove: "view (snd (remove_stream sid s)) = drop_stream sid (view s)"
  by (auto simp: remove_stream_eq view_def drop_stream_def get_delete fun_eq_iff split: option.split)

lemma refines_remove: "refines config s (snd (remove_stream sid s))"
  by (rule refines_step) (simp_all add: view_remove life_step.close, simp add: remove_stream_eq table_inv_delete)

section \<open>DATA\<close>

lemma drain_pending_dead: "drain_pending E tcp w = (True, tcp', w') \<Longrightarrow> tcp_pending tcp' = []"
  by (auto simp: drain_pending_def Let_def split: if_splits list.splits prod.splits sum.splits)

lemma record_packet_eq:
  "record_packet th t = (th \<le> tcp_packets_since_continue t + 1, t\<lparr>tcp_packets_since_continue := tcp_packets_since_continue t + 1\<rparr>)"
  by (simp add: record_packet_def Let_def)

lemma get_set_fun:
  "StreamTable_get_mut sid t = Some old \<Longrightarrow>
   (\<lambda>k. StreamTable_get_mut k (StreamTable_set sid st t)) = (\<lambda>k. StreamTable_get_mut k t)(sid \<mapsto> st)"
  by (auto simp: get_set fun_eq_iff)

text \<open>A TCP stream is replaced in place, with a new list of pending streams.\<close>

lemma refines_io:
  assumes "StreamTable_get_mut sid (c_table s) = Some (ProxyTcp tcp)"
    "c_table s' = StreamTable_set sid (ProxyTcp tcp') (c_table s)" "c_cells s' = c_cells s"
    "c_control s' = c_control s" "c_tasks s' = c_tasks s"
    "tcp_writer tcp' = tcp_writer tcp" "tcp_cancel tcp' = tcp_cancel tcp"
    "set (c_streams_with_pending s) - {sid} \<subseteq> set (c_streams_with_pending s')"
    "tcp_ok (continue_threshold config) sid (c_streams_with_pending s) tcp \<Longrightarrow>
     tcp_ok (continue_threshold config) sid (c_streams_with_pending s') tcp'"
  shows "refines config s s'"
proof (rule refines_step)
  have "view s' = (view s)\<lparr>lf_streams := (lf_streams (view s))(sid \<mapsto> ProxyTcp tcp'), lf_queue := c_streams_with_pending s'\<rparr>"
    using assms(2-5) get_set_fun [OF assms(1)] by (simp add: view_def)
  then show "life_step config (view s) (view s')"
    using life_step.io [of "view s" sid tcp tcp' "c_streams_with_pending s'" config] assms by simp
qed (simp add: table_inv_set assms(1,2))

text \<open>The stream after a DATA packet.\<close>

lemma tcp_ok_data:
  assumes "tcp_ok (continue_threshold config) sid q tcp"
    and "(tcp2, q') = (if p \<noteq> [] \<and> \<not> tcp_queued_for_drain tcp
       then (tcp\<lparr>tcp_pending := p, tcp_queued_for_drain := True\<rparr>, q @ [sid]) else (tcp\<lparr>tcp_pending := p\<rparr>, q))"
    and "record_packet (continue_threshold config) tcp2 = (due, tcp3)"
  shows "tcp_ok (continue_threshold config) sid q' (if due then reset_counter tcp3 else tcp3)"
  using assms threshold_pos [of config]
  by (auto simp: tcp_ok_def record_packet_eq reset_counter_def split: if_splits)

lemma refines_early:
  assumes "StreamTable_get_mut sid (c_table s) = Some (ProxyConnecting c)" "length (conn_early_data c) < 128"
  shows "refines config s (s\<lparr>c_table := StreamTable_set sid (ProxyConnecting (queue_early_data data c)) (c_table s)\<rparr>)"
proof (rule refines_step)
  let ?s' = "s\<lparr>c_table := StreamTable_set sid (ProxyConnecting (queue_early_data data c)) (c_table s)\<rparr>"
  have "view ?s' = (view s)\<lparr>lf_streams := (lf_streams (view s))(sid \<mapsto> ProxyConnecting (queue_early_data data c))\<rparr>"
    using get_set_fun [OF assms(1)] by (simp add: view_def)
  then show "life_step config (view s) (view ?s')"
    using life_step.early [of "view s" sid c config data] assms by simp
qed (simp add: table_inv_set assms(1))

lemma refines_dead:
  assumes "StreamTable_get_mut sid (c_table s) = Some (ProxyTcp tcp)"
  shows "refines config s (snd (remove_stream sid
     (s\<lparr>c_world := w, c_table := StreamTable_set sid (ProxyTcp (tcp\<lparr>tcp_pending := p\<rparr>)) (c_table s)\<rparr>)))"
    (is "refines config s ?s'")
proof (rule refines_step)
  have "view ?s' = drop_stream sid (view s)"
    unfolding view_remove using assms by (auto simp: drop_stream_def view_def get_set get_delete fun_eq_iff)
  then show "life_step config (view s) (view ?s')"
    by (simp add: life_step.close)
qed (simp add: remove_stream_eq table_inv_delete table_inv_set assms)

lemma refines_data_tcp:
  assumes "handle_data_zerocopy X (cfg_bs X) (cfg_th X) sid data s = (r, s')"
    and tcp: "StreamTable_get_mut sid (c_table s) = Some (ProxyTcp tcp)"
    and wr: "tcp_try_write (x_io X) tcp data (c_world s) = (False, tcp\<lparr>tcp_pending := p\<rparr>, w)"
  shows "refines (x_config X) s s'"
proof -
  define tcp2q where "tcp2q = (if p \<noteq> [] \<and> \<not> tcp_queued_for_drain tcp
      then (tcp\<lparr>tcp_pending := p, tcp_queued_for_drain := True\<rparr>, c_streams_with_pending s @ [sid])
      else (tcp\<lparr>tcp_pending := p\<rparr>, c_streams_with_pending s))"
  obtain tcp2 q where t2: "tcp2q = (tcp2, q)"
    by fastforce
  obtain due tcp3 where t3: "record_packet (cfg_th X) tcp2 = (due, tcp3)"
    by fastforce
  define tcp4 where "tcp4 = (if due then reset_counter tcp3 else tcp3)"
  have s': "\<exists>pc. s' = s\<lparr>c_world := w, c_table := StreamTable_set sid (ProxyTcp tcp4) (c_table s),
      c_streams_with_pending := q, c_pending_continues := pc\<rparr>"
    using assms t2 t3
    by (intro exI [of _ "if due then c_pending_continues s @ [(sid, cfg_bs X)] else c_pending_continues s"])
      (auto simp: handle_data_zerocopy_def Let_def tcp2q_def [symmetric] tcp4_def)
  have kept: "tcp_writer tcp4 = tcp_writer tcp" "tcp_cancel tcp4 = tcp_cancel tcp"
    "set (c_streams_with_pending s) - {sid} \<subseteq> set q"
    using t2 t3 by (auto simp: tcp4_def tcp2q_def record_packet_eq reset_counter_def split: if_splits)
  have ok: "tcp_ok (cfg_th X) sid q tcp4" if "tcp_ok (cfg_th X) sid (c_streams_with_pending s) tcp"
    unfolding tcp4_def by (rule tcp_ok_data [OF that _ t3, of q p]) (use t2 in \<open>simp add: tcp2q_def\<close>)
  from s' kept ok show ?thesis
    by (elim exE, intro refines_io [OF tcp]) simp_all
qed

lemma refines_data:
  assumes "handle_data_zerocopy X (cfg_bs X) (cfg_th X) sid data s = (r, s')"
  shows "refines (x_config X) s s'"
proof -
  consider (none) "StreamTable_get_mut sid (c_table s) = None"
    | (udp) u where "StreamTable_get_mut sid (c_table s) = Some (ProxyUdp u)"
    | (connecting) c where "StreamTable_get_mut sid (c_table s) = Some (ProxyConnecting c)"
    | (tcp) tcp where "StreamTable_get_mut sid (c_table s) = Some (ProxyTcp tcp)"
    by (metis ProxyStream.exhaust not_None_eq)
  then show ?thesis
  proof cases
    case (tcp tcp)
    obtain dead tcp1 w where wr: "tcp_try_write (x_io X) tcp data (c_world s) = (dead, tcp1, w)"
      using prod_cases3 by blast
    obtain p where p: "tcp1 = tcp\<lparr>tcp_pending := p\<rparr>"
      using tcp_try_write_kept [OF wr] by blast
    show ?thesis
    proof (cases dead)
      case True
      with assms tcp wr p refines_dead [OF tcp] show ?thesis
        by (auto simp: handle_data_zerocopy_def Let_def)
    next
      case False
      with wr p refines_data_tcp [OF assms tcp] show ?thesis
        by simp
    qed
  qed (use assms in \<open>auto simp: handle_data_zerocopy_def view_def intro: refines_refl refines_early split: if_splits\<close>)
qed

section \<open>CONNECT\<close>

lemma dns_port: "dns_resolve_no_hold now lk host port cw = Some (Inr addr, dns, w) \<Longrightarrow> sa_port addr = port"
  by (cases cw) (auto simp: dns_resolve_no_hold_def Let_def split: option.splits prod.splits sum.splits if_splits)

lemma get_insert_fun:
  "fst (StreamTable_insert sid st t) \<Longrightarrow>
   (\<lambda>k. StreamTable_get_mut k (snd (StreamTable_insert sid st t))) = (\<lambda>k. StreamTable_get_mut k t)(sid \<mapsto> st)"
  "\<not> fst (StreamTable_insert sid st t) \<Longrightarrow>
   (\<lambda>k. StreamTable_get_mut k (snd (StreamTable_insert sid st t))) = (\<lambda>k. StreamTable_get_mut k t)"
  by (auto simp: get_insert fun_eq_iff)

text \<open>
  A CONNECT that reaches the table: the insert is refused, or the stream is there and either a
  failure is announced to the loop or a task is started for it.
\<close>

lemma refines_refused:
  "\<not> fst (StreamTable_insert sid st (c_table s)) \<Longrightarrow>
   refines config s (s\<lparr>c_dns := dns, c_world := w, c_cells := c_cells s @ [False],
     c_table := snd (StreamTable_insert sid st (c_table s))\<rparr>)"
  using life_step.refused [of config "view s"]
  by (intro refines_step) (simp_all add: table_inv_insert view_def get_insert_fun)

lemma refines_opened:
  assumes "fst (StreamTable_insert sid st (c_table s))" "c_table s' = snd (StreamTable_insert sid st (c_table s))"
    "c_cells s' = c_cells s @ [False]" "c_streams_with_pending s' = c_streams_with_pending s"
    "life_step config (view s) ((view s)\<lparr>lf_streams := (lf_streams (view s))(sid \<mapsto> st),
       lf_cells := c_cells s @ [False], lf_events := c_control s', lf_tasks := c_tasks s'\<rparr>)"
  shows "refines config s s'"
  using assms by (intro refines_step) (simp_all add: table_inv_insert view_def get_insert_fun)

lemma refines_tcp_connect:
  assumes "handle_tcp_connect X sid connect m s = Inr s'" "StreamTable_get_mut sid (c_table s) = None" "sid \<noteq> 0"
    "cp_port connect \<noteq> 0" "\<not> is_port_blocked (x_config X) (cp_port connect)"
  shows "refines (x_config X) s s'"
proof -
  let ?st = "ProxyConnecting \<lparr>conn_early_data = [], conn_cancel = length (c_cells s)\<rparr>"
  let ?ins = "StreamTable_insert sid ?st (c_table s)"
  let ?s1 = "s\<lparr>c_cells := c_cells s @ [False], c_table := snd ?ins\<rparr>"
  have new: "ConnectingStream_new (c_cells s) = (\<lparr>conn_early_data = [], conn_cancel = length (c_cells s)\<rparr>, c_cells s @ [False])"
    by (simp add: ConnectingStream_new_def CancelFlag_new_def)
  note unfolded = assms(1) [unfolded handle_tcp_connect_def Let_def new prod.case ConnectingStream.simps split_beta]
  show ?thesis
  proof (cases "fst ?ins")
    case False
    then have "s' = send_close X sid Throttled ?s1"
      using unfolded by simp
    with refines_refused [OF False, where dns = "c_dns s" and w = "c_world s"] show ?thesis
      by (simp add: refines_close)
  next
    case True
    have failed: "refines (x_config X) s (?s1\<lparr>c_dns := dns, c_world := w,
        c_control := c_control s @ [TcpConnectFailed sid reason]\<rparr>)" for dns w reason
      using life_step.open_failed [of "view s" sid "x_config X"] assms(2,3)
      by (intro refines_opened [OF True]) (simp_all add: view_def)
    have started: "refines (x_config X) s (?s1\<lparr>c_dns := dns, c_world := w,
        c_tasks := c_tasks s @ [ConnectTask sid addr (length (c_cells s)) opts]\<rparr>)" if "allowed (x_config X) addr" for dns w addr opts
      using life_step.open_tcp [of "view s" sid "x_config X" addr] that assms(2,3)
      by (intro refines_opened [OF True]) (simp_all add: view_def)
    from unfolded True obtain r dns w where dns: "dns_resolve_no_hold (net_now (x_net X)) (net_lookup_host (x_net X))
        (cp_hostname connect) (cp_port connect) (c_dns s, c_world s) = Some (r, dns, w)"
      by (auto split: option.splits prod.splits)
    show ?thesis
    proof (cases r)
      case (Inl e)
      with unfolded True dns show ?thesis
        using failed by (auto simp: self_send_def split: if_splits)
    next
      case (Inr addr)
      with assms(4,5) have "allowed (x_config X) addr \<longleftrightarrow> \<not> is_ip_blocked (sa_ip addr) (x_config X)"
        using dns_port [OF dns [unfolded Inr]] by (simp add: allowed_def)
      with unfolded True dns Inr show ?thesis
        using failed started by (auto simp: self_send_def spawn_def split: if_splits)
    qed
  qed
qed

lemma refines_udp_connect:
  assumes "handle_udp_connect X sid connect s = Inr s'" "StreamTable_get_mut sid (c_table s) = None" "sid \<noteq> 0"
    "cp_port connect \<noteq> 0" "\<not> is_port_blocked (x_config X) (cp_port connect)"
  shows "refines (x_config X) s s'"
proof -
  have same: "refines (x_config X) s (send_close X sid reason (s\<lparr>c_world := w\<rparr>))"
    "refines (x_config X) s (send_close X sid reason (s\<lparr>c_dns := dns, c_world := w\<rparr>))" for reason w dns
    by (simp_all add: refines_close refines_refl view_def)
  obtain r w where bind: "ev_udp_bind (x_io X) (c_world s) = (r, w)"
    by fastforce
  show ?thesis
  proof (cases r)
    case (Inl e)
    with assms(1) bind same show ?thesis
      by (auto simp: handle_udp_connect_def)
  next
    case (Inr sock)
    with assms(1) bind obtain q dns v where dns: "dns_resolve_no_hold (net_now (x_net X)) (net_lookup_host (x_net X))
        (cp_hostname connect) (cp_port connect) (c_dns s, w) = Some (q, dns, v)"
      by (auto simp: handle_udp_connect_def split: option.splits prod.splits)
    show ?thesis
    proof (cases q)
      case (Inl e)
      with assms(1) bind \<open>r = Inr sock\<close> dns same show ?thesis
        by (auto simp: handle_udp_connect_def)
    next
      case (Inr addr)
      let ?st = "ProxyUdp (UdpProxyStream_new sock addr (length (c_cells s)))"
      let ?ins = "StreamTable_insert sid ?st (c_table s)"
      let ?s2 = "s\<lparr>c_dns := dns, c_world := v, c_cells := c_cells s @ [False], c_table := snd ?ins\<rparr>"
      consider (blocked) "is_ip_blocked (sa_ip addr) (x_config X)" "s' = send_close X sid Blocked (s\<lparr>c_dns := dns, c_world := v\<rparr>)"
        | (full) "\<not> fst ?ins" "s' = send_close X sid Throttled ?s2"
        | (opened) "\<not> is_ip_blocked (sa_ip addr) (x_config X)" "fst ?ins"
            "s' = ?s2\<lparr>c_tasks := c_tasks s @ [UdpReader sid sock (length (c_cells s))]\<rparr>"
        using assms(1) bind \<open>r = Inr sock\<close> dns Inr
        by (auto simp: handle_udp_connect_def Let_def CancelFlag_new_def split_beta spawn_def split: if_splits)
      then show ?thesis
      proof cases
        case opened
        with assms(4,5) have "allowed (x_config X) addr"
          using dns_port [OF dns [unfolded Inr]] by (simp add: allowed_def)
        then show ?thesis
          using life_step.open_udp [of "view s" sid "x_config X" addr] assms(2,3) opened(3)
          by (intro refines_opened [OF opened(2)]) (simp_all add: view_def)
      qed (simp_all add: same refines_refused refines_close)
    qed
  qed
qed

lemma refines_connect:
  assumes "handle_connect X sid connect s = Inr s'"
  shows "refines (x_config X) s s'"
proof -
  let ?config = "x_config X"
  let ?bad = "sid = 0 \<or> StreamTable_contains sid (c_table s) \<or> cp_port connect = 0 \<or>
    is_hostname_blocked ?config (cp_hostname connect) \<or> is_port_blocked ?config (cp_port connect) \<or>
    is_hostname_blocked_pre_resolution (cp_hostname connect) ?config"
  show ?thesis
  proof (cases ?bad)
    case True
    then have "\<exists>reason. s' = send_close X sid reason s"
      using assms by (auto simp: handle_connect_def split: if_splits)
    then show ?thesis
      by (auto simp: refines_close refines_refl)
  next
    case False
    with assms refines_tcp_connect [of X sid connect _ s s'] refines_udp_connect [of X sid connect s s'] show ?thesis
      by (auto simp: handle_connect_def contains_iff split: StreamType.splits)
  qed
qed

section \<open>Inbound frames\<close>

lemma refines_data_closed:
  assumes "(case handle_data_zerocopy X (cfg_bs X) (cfg_th X) sid data s of
      (Some dead_id, s1) \<Rightarrow> Inr (False, send_close X dead_id NetworkError s1) | (None, s1) \<Rightarrow> Inr (False, s1)) = Inr (b, s')"
  shows "refines (x_config X) s s'"
proof -
  obtain r s1 where data: "handle_data_zerocopy X (cfg_bs X) (cfg_th X) sid data s = (r, s1)"
    by fastforce
  from refines_data [OF this] refines_close assms data show ?thesis
    by (cases r) auto
qed

lemma refines_connected:
  assumes "(case handle_connect X sid connect t of Inl h \<Rightarrow> Inl h | Inr s1 \<Rightarrow> Inr (False, s1)) = Inr (b, s')"
    "view t = view s" "c_table t = c_table s"
  shows "refines (x_config X) s s'"
  using assms refines_trans [OF refines_refl refines_connect] by (cases "handle_connect X sid connect t") auto

lemma refines_view: "view t = view s \<Longrightarrow> c_table t = c_table s \<Longrightarrow> refines config t u \<Longrightarrow> refines config s u"
  by (rule refines_trans [OF refines_refl])

lemma view_other [simp]:
  "view (s\<lparr>c_world := w\<rparr>) = view s" "view (s\<lparr>c_cs := cs\<rparr>) = view s" "view (s\<lparr>c_dns := dns\<rparr>) = view s"
  "view (s\<lparr>c_write := q\<rparr>) = view s" "view (s\<lparr>c_pending_continues := pc\<rparr>) = view s"
  "view (s\<lparr>c_buffers_upgraded := b\<rparr>) = view s"
  by (simp_all add: view_def)

lemma refines_process_inbound:
  assumes "process_inbound_frame X payload (cfg_bs X) (cfg_th X) s = Inr (b, s')"
  shows "refines (x_config X) s s'"
proof -
  let ?sid = "u32_from_le_bytes [payload ! 1, payload ! 2, payload ! 3, payload ! 4]"
  consider "s' = s" | "\<exists>reason. s' = send_close X ?sid reason s" | "s' = snd (remove_stream ?sid s)"
    | "refines (x_config X) s s'"
    using assms refines_data_closed [of X ?sid "drop WISP_HEADER_SIZE payload" s b s']
      refines_connected [of X _ _ s b s' s]
    by (auto simp: process_inbound_frame_def Let_def split: if_splits option.splits WispFrame.splits)
  then show ?thesis
    by cases (auto simp: refines_refl refines_close refines_remove)
qed

lemma refines_inbound:
  assumes "handle_inbound X result (cfg_bs X) (cfg_th X) s = Inr (b, s')"
  shows "refines (x_config X) s s'"
proof (cases result)
  case (Inl e)
  with assms show ?thesis
    by (simp add: handle_inbound_def refines_refl)
next
  case (Inr r)
  show ?thesis
  proof (cases r)
    case (Control frame)
    with assms Inr show ?thesis
      by (auto simp: handle_inbound_def intro: refines_refl split: OpCode.splits)
  next
    case (Wisp packet_type sid payload)
    let ?s1 = "s\<lparr>c_cs := (c_cs s)\<lparr>cs_streams_opened := cs_streams_opened (c_cs s) + 1\<rparr>\<rparr>"
    consider "view s' = view s \<and> c_table s' = c_table s" | "s' = snd (remove_stream sid s)" | "refines (x_config X) s s'"
      using assms Inr Wisp refines_data_closed [of X sid payload s b s'] refines_connected [of X sid _ ?s1 b s' s]
      by (auto simp: handle_inbound_def Let_def split: if_splits option.splits)
    then show ?thesis
      by cases (auto simp: refines_refl refines_remove)
  qed
qed

section \<open>Control events\<close>

lemma reinsert:
  assumes "table_inv t" "StreamTable_get_mut sid t \<noteq> None"
  shows "(\<lambda>k. StreamTable_get_mut k (snd (StreamTable_insert sid st (StreamTable_delete sid t)))) = (\<lambda>k. StreamTable_get_mut k t)(sid \<mapsto> st)"
    "table_inv (snd (StreamTable_insert sid st (StreamTable_delete sid t)))"
  using table.insert_after_delete [OF assms] assms(1)
  by (auto simp: get_insert get_delete fun_eq_iff table_inv_insert table_inv_delete)

lemma refines_tcp_connected:
  assumes "c_control s = TcpConnected sid reader writer f # rest"
  shows "refines (x_config X) s (handle_control_event X (TcpConnected sid reader writer f) (s\<lparr>c_control := rest\<rparr>))"
    (is "refines _ s ?s'")
proof (cases "StreamTable_get_mut sid (c_table s)")
  case None
  then have "view ?s' = (view s)\<lparr>lf_events := rest, lf_cells := lf_cells (view s) @ [False]\<rparr>"
    "c_table ?s' = StreamTable_delete sid (c_table s)"
    by (auto simp: handle_control_event_def Let_def CancelFlag_new_def remove_stream_eq view_def get_delete fun_eq_iff)
  with None assms life_step.connect_gone [of "view s" sid reader writer f rest] show ?thesis
    by (intro refines_step) (simp_all add: table_inv_delete)
next
  case (Some st)
  show ?thesis
  proof (cases "\<exists>c. st = ProxyConnecting c")
    case False
    then have s': "?s' = s\<lparr>c_control := rest, c_cells := CancelFlag_cancel (ProxyStream_cancel st) (c_cells s @ [False]),
        c_table := snd (StreamTable_insert sid st (StreamTable_delete sid (c_table s)))\<rparr>"
      using Some by (cases st) (simp_all add: handle_control_event_def Let_def CancelFlag_new_def remove_stream_eq)
    have "(\<lambda>k. StreamTable_get_mut k (c_table s))(sid \<mapsto> st) = (\<lambda>k. StreamTable_get_mut k (c_table s))"
      using Some by auto
    with Some False assms life_step.connect_late [of "view s" sid reader writer f rest st] show ?thesis
      unfolding s' by (intro refines_step) (simp_all add: reinsert view_def)
  next
    case True
    then obtain c where c: "st = ProxyConnecting c" ..
    let ?h = "CancelFlag_cancel (conn_cancel c) (c_cells s @ [False])"
    obtain dead pending w where fl: "flush_early_data (x_io X) writer (conn_early_data c) False [] (c_world s) = (dead, pending, w)"
      using prod_cases3 by blast
    show ?thesis
    proof (cases dead)
      case True
      have "view ?s' = drop_stream sid ((view s)\<lparr>lf_events := rest, lf_cells := lf_cells (view s) @ [False]\<rparr>)"
        "c_table ?s' = StreamTable_delete sid (c_table s)"
        using Some c fl True by (auto simp: handle_control_event_def Let_def CancelFlag_new_def remove_stream_eq
            view_def drop_stream_def get_delete fun_eq_iff send_close_def send_client_def)
      with Some c assms life_step.connect_dead [of "view s" sid reader writer f rest c] show ?thesis
        by (intro refines_step) (simp_all add: table_inv_delete)
    next
      case False
      let ?tcp = "TcpProxyStream_with_pending writer pending (length (c_cells s))"
      have s': "c_cells ?s' = ?h" "c_control ?s' = rest" "c_tasks ?s' = c_tasks s @ [TcpReader sid reader (length (c_cells s))]"
        "c_streams_with_pending ?s' = c_streams_with_pending s @ (if pending \<noteq> [] then [sid] else [])"
        "c_table ?s' = snd (StreamTable_insert sid (ProxyTcp ?tcp) (StreamTable_delete sid (c_table s)))"
        using Some c fl False by (simp_all add: handle_control_event_def Let_def CancelFlag_new_def remove_stream_eq
            spawn_def send_client_def)
      show ?thesis
        using Some c assms life_step.connect_done [of "view s" sid reader writer f rest c "x_config X" pending]
        by (intro refines_step) (simp_all add: view_def s' reinsert)
    qed
  qed
qed

lemma refines_control_event:
  assumes "c_control s = ev # rest"
  shows "refines (x_config X) s (handle_control_event X ev (s\<lparr>c_control := rest\<rparr>))"
proof -
  have drop: "refines (x_config X) s (send_close X sid reason (snd (remove_stream sid (s\<lparr>c_control := rest\<rparr>))))"
    if "life_step (x_config X) (view s) (drop_stream sid ((view s)\<lparr>lf_events := rest\<rparr>))" for sid reason
  proof (rule refines_close, rule refines_step)
    show "life_step (x_config X) (view s) (view (snd (remove_stream sid (s\<lparr>c_control := rest\<rparr>))))"
      using that unfolding view_remove by (simp add: view_def)
  qed (simp add: remove_stream_eq table_inv_delete)
  show ?thesis
  proof (cases ev)
    case (TcpConnected sid reader writer f)
    with assms refines_tcp_connected show ?thesis
      by blast
  qed (use assms drop life_step.ended life_step.connect_failed in \<open>simp_all add: handle_control_event_def\<close>)
qed

section \<open>The phases of the loop\<close>

lemma retain_step:
  assumes "StreamTable_get_mut sid (c_table s) = Some (ProxyTcp tcp)" "tcp' = tcp\<lparr>tcp_pending := p, tcp_queued_for_drain := b\<rparr>"
    "b = tcp_queued_for_drain tcp \<and> tcp_pending tcp \<noteq> [] \<and> sid \<in> set q' \<or> \<not> b \<and> p = []"
    "set q \<subseteq> insert sid (set q')"
  shows "refines config (s\<lparr>c_streams_with_pending := q\<rparr>)
    (s\<lparr>c_world := w, c_table := StreamTable_set sid (ProxyTcp tcp') (c_table s), c_streams_with_pending := q'\<rparr>)"
  by (rule refines_io [where sid = sid and tcp = tcp and tcp' = tcp']) (use assms in \<open>auto simp: tcp_ok_def\<close>)

text \<open>One TCP stream of the list: it leaves the list with an empty queue, or stays in it.\<close>

lemma retain_pending_tcp:
  assumes "retain_pending X (sid # sids) s = (kept, dead, s')"
    and tcp: "StreamTable_get_mut sid (c_table s) = Some (ProxyTcp tcp)"
  obtains (leaves) w d where "retain_pending X sids (s\<lparr>c_world := w, c_table := StreamTable_set sid
      (ProxyTcp (tcp\<lparr>tcp_pending := [], tcp_queued_for_drain := False\<rparr>)) (c_table s)\<rparr>) = (kept, d, s')"
  | (stays) w p k where "retain_pending X sids (s\<lparr>c_world := w, c_table := StreamTable_set sid
      (ProxyTcp (tcp\<lparr>tcp_pending := p\<rparr>)) (c_table s)\<rparr>) = (k, dead, s')" "kept = sid # k" "tcp_pending tcp \<noteq> []"
proof (cases "tcp_pending tcp = []")
  case True
  then have same: "s\<lparr>c_world := c_world s, c_table := StreamTable_set sid
      (ProxyTcp (tcp\<lparr>tcp_pending := [], tcp_queued_for_drain := False\<rparr>)) (c_table s)\<rparr> =
    s\<lparr>c_table := StreamTable_set sid (ProxyTcp (tcp\<lparr>tcp_queued_for_drain := False\<rparr>)) (c_table s)\<rparr>"
    by (cases tcp) simp
  from True assms show ?thesis
    by (intro leaves [of "c_world s" dead, unfolded same]) simp
next
  case False
  obtain d tcp1 w where dr: "drain_pending (x_io X) tcp (c_world s) = (d, tcp1, w)"
    using prod_cases3 by blast
  obtain p where p: "tcp1 = tcp\<lparr>tcp_pending := p\<rparr>"
    using tcp_kept(1) [OF dr] by blast
  have dead: "d \<Longrightarrow> p = []"
    using drain_pending_dead [of "x_io X" tcp "c_world s" tcp1 w] dr p by simp
  show ?thesis
  proof (cases "p = []")
    case True
    with False assms dr p show ?thesis
      by (cases d) (auto intro: leaves split: prod.splits)
  next
    case more: False
    with dead have "\<not> d"
      by blast
    with more False assms dr p obtain k where
      "retain_pending X sids (s\<lparr>c_world := w, c_table := StreamTable_set sid
         (ProxyTcp (tcp\<lparr>tcp_pending := p\<rparr>)) (c_table s)\<rparr>) = (k, dead, s')" "kept = sid # k"
      by (auto split: prod.splits)
    then show ?thesis
      using False by (rule stays)
  qed
qed

lemma refines_retain:
  "retain_pending X sids s = (kept, dead, s') \<Longrightarrow>
   refines config (s\<lparr>c_streams_with_pending := pre @ sids\<rparr>) (s'\<lparr>c_streams_with_pending := pre @ kept\<rparr>)"
proof (induction sids arbitrary: s kept dead s' pre)
  case Nil
  then show ?case
    by (simp add: refines_refl)
next
  case (Cons sid sids)
  let ?s = "s\<lparr>c_streams_with_pending := pre @ sid # sids\<rparr>"
  show ?case
  proof (cases "\<exists>tcp. StreamTable_get_mut sid (c_table s) = Some (ProxyTcp tcp)")
    case False
    then have "retain_pending X sids s = (kept, dead, s')"
      using Cons.prems by (auto split: option.splits ProxyStream.splits)
    moreover have "refines config ?s (s\<lparr>c_streams_with_pending := pre @ sids\<rparr>)"
      using life_step.unqueue [of "view ?s" sid "pre @ sids" config] False
      by (intro refines_step) (auto simp: view_def)
    ultimately show ?thesis
      using refines_trans Cons.IH by blast
  next
    case True
    then obtain tcp where tcp: "StreamTable_get_mut sid (c_table s) = Some (ProxyTcp tcp)" ..
    from Cons.prems tcp show ?thesis
    proof (cases rule: retain_pending_tcp)
      case (leaves w d)
      from refines_trans [OF retain_step [OF tcp refl, of False "pre @ sids" "[]" "pre @ sid # sids"]]
        Cons.IH [OF leaves, of pre] show ?thesis
        by simp
    next
      case (stays w p k)
      have same: "tcp\<lparr>tcp_pending := p\<rparr> = tcp\<lparr>tcp_pending := p, tcp_queued_for_drain := tcp_queued_for_drain tcp\<rparr>"
        by simp
      from refines_trans [OF retain_step [OF tcp same, of "pre @ sid # sids" "pre @ sid # sids"]]
        Cons.IH [OF stays(1), of "pre @ [sid]"] stays(2,3) show ?thesis
        by simp
    qed
  qed
qed

lemma refines_close_dead: "refines config s (close_dead X sids s)"
proof (induction X sids s rule: close_dead.induct)
  case (2 X sid sids s)
  then show ?case
    using refines_trans [OF refines_close [OF refines_remove]] by fastforce
qed (simp add: refines_refl)

lemma refines_drain_pending: "refines config s (drain_pending_streams X s)"
proof -
  obtain kept dead s1 where ret: "retain_pending X (c_streams_with_pending s) s = (kept, dead, s1)"
    using prod_cases3 by blast
  from refines_trans [OF refines_retain [OF this, where pre = "[]"] refines_close_dead] show ?thesis
    by (simp add: drain_pending_streams_def ret refines_refl)
qed

lemma view_upgrade [simp]:
  "view (upgrade_if_multiplexed X s) = view s" "c_table (upgrade_if_multiplexed X s) = c_table s"
  by (simp_all add: upgrade_if_multiplexed_def)

lemma refines_upgrade: "refines config s t \<Longrightarrow> refines config s (upgrade_if_multiplexed X t)"
  by (simp add: refines_def)

lemma refines_drain_control: "refines (x_config X) s (drain_control X s)"
proof (induction X s rule: drain_control.induct)
  case (1 X s)
  show ?case
  proof (cases "c_control s")
    case (Cons ev rest)
    from refines_trans [OF refines_upgrade [OF refines_control_event [OF Cons]] 1 [OF Cons]] show ?thesis
      by (subst drain_control.simps) (simp add: Cons)
  qed (subst drain_control.simps, simp add: refines_refl)
qed

lemma refines_drain_events: "refines (x_config X) s (drain_events X s)"
proof (induction X s rule: drain_events.induct)
  case (1 X s)
  show ?case
  proof (cases "c_control s")
    case (Cons ev rest)
    from refines_trans [OF refines_control_event [OF Cons] 1 [OF Cons]] show ?thesis
      by (subst drain_events.simps) (simp add: Cons)
  qed (subst drain_events.simps, simp add: refines_refl)
qed

lemma refines_control_branch:
  assumes "c_control s = ev # rest"
  shows "refines (x_config X) s (handle_control_branch X (Some ev) (s\<lparr>c_control := rest\<rparr>))"
  using refines_trans [OF refines_upgrade [OF refines_control_event [OF assms]] refines_drain_events]
  by (simp add: handle_control_branch_def)

lemma write_batch_view: "write_batch X batch s = Inr s' \<Longrightarrow> view s' = view s \<and> c_table s' = c_table s"
  by (auto simp: write_batch_def split: prod.splits sum.splits)

lemma flush_pending_view: "flush_pending X s = Inr s' \<Longrightarrow> view s' = view s \<and> c_table s' = c_table s"
  by (auto simp: flush_pending_def split: prod.splits sum.splits if_splits)

lemma refines_flush: "flush_pending X s = Inr s' \<Longrightarrow> refines config s s'"
  using flush_pending_view [of X s s'] by (simp add: refines_refl)

lemma refines_drain_phases:
  assumes "drain_phases X s = Inr s'"
  shows "refines (x_config X) s s'"
proof -
  let ?s1 = "drain_control X (drain_pending_streams X s)"
  have "view s' = view ?s1 \<and> c_table s' = c_table ?s1"
    using assms write_batch_view by (fastforce simp: drain_phases_def Let_def split: if_splits)
  then show ?thesis
    using refines_trans [OF refines_trans [OF refines_drain_pending refines_drain_control] refines_refl] by blast
qed

section \<open>Tasks\<close>

lemma send_frame_view:
  "send_frame True frame sent full s = (t', s1) \<Longrightarrow> (t' = Some sent \<or> t' = Some full) \<and> view s1 = view s \<and> c_table s1 = c_table s"
  by (auto simp: send_frame_def split: if_splits)

lemma resume_send_view:
  "resume_send True frame sent s = Some (t', s1) \<Longrightarrow> t' = Some sent \<and> view s1 = view s \<and> c_table s1 = c_table s"
  by (auto simp: resume_send_def split: if_splits)

lemma tcp_read_done_next:
  assumes "tcp_read_done X True sid reader f r s = (t', s1)"
  shows "task_next (c_cells s) (TcpReading sid reader f) t' [] \<and> view s1 = view s \<and> c_table s1 = c_table s"
proof (cases "CancelFlag_is_cancelled f (c_cells s)")
  case True
  with assms show ?thesis
    by (auto simp: tcp_read_done_def intro: task_next.intros split: sum.splits if_splits)
next
  case False
  with assms show ?thesis
    by (auto simp: tcp_read_done_def Let_def intro: task_next.intros split: sum.splits if_splits dest!: send_frame_view)
qed

lemma udp_recv_done_next:
  assumes "udp_recv_done True sid socket f r s = (t', s1)"
  shows "task_next (c_cells s) (UdpReading sid socket f) t' [] \<and> view s1 = view s \<and> c_table s1 = c_table s"
proof (cases "CancelFlag_is_cancelled f (c_cells s)")
  case True
  with assms show ?thesis
    by (auto simp: udp_recv_done_def intro: task_next.intros split: sum.splits if_splits)
next
  case False
  with assms show ?thesis
    by (auto simp: udp_recv_done_def Let_def intro: task_next.intros split: sum.splits if_splits dest!: send_frame_view)
qed

lemma task_step_next:
  assumes "task_step X True t s = Some (t', s1)"
  shows "\<exists>evs. task_next (c_cells s) t t' evs \<and> view s1 = (view s)\<lparr>lf_events := c_control s @ evs\<rparr> \<and> c_table s1 = c_table s"
proof -
  have none: ?thesis if "task_next (c_cells s) t t' [] \<and> view s1 = view s \<and> c_table s1 = c_table s"
    using that by (intro exI [of _ "[]"]) (simp add: view_def)
  show ?thesis
  proof (cases t)
    case (ConnectTask sid addr f opts)
    with assms show ?thesis
      by (intro none) (auto simp: connect_start_def intro: task_next.intros split: if_splits)
  next
    case (ConnectWait sid addr f opts)
    with assms show ?thesis
      by (intro none) (auto simp: connect_done_def connect_event_def intro: task_next.intros split: prod.splits connect_result.splits)
  next
    case (EventSend ev)
    with assms show ?thesis
      by (intro exI [of _ "[ev]"]) (auto simp: send_event_def view_def intro: task_next.intros split: if_splits)
  next
    case (TcpReader sid rd f)
    with assms show ?thesis
      by (intro none) (auto simp: tcp_reader_head_def intro: task_next.intros split: if_splits)
  next
    case (TcpReading sid rd f)
    with assms show ?thesis
      by (intro none) (auto split: prod.splits dest!: tcp_read_done_next)
  next
    case (TcpSending sid rd f frame)
    with assms show ?thesis
      by (intro none) (auto intro: task_next.intros dest!: resume_send_view)
  next
    case (UdpReader sid rd f)
    with assms show ?thesis
      by (intro none) (auto simp: udp_reader_head_def intro: task_next.intros split: if_splits)
  next
    case (UdpReading sid rd f)
    with assms show ?thesis
      by (intro none) (auto split: prod.splits dest!: udp_recv_done_next)
  next
    case (UdpSending sid rd f frame)
    with assms show ?thesis
      by (intro none) (auto intro: task_next.intros dest!: resume_send_view)
  qed
qed

lemma refines_task:
  assumes "step_task X True i s = Some s'"
  shows "refines config s s'"
proof -
  from assms obtain t' s1 where i: "i < length (c_tasks s)" and st: "task_step X True (c_tasks s ! i) s = Some (t', s1)"
    and s': "s' = s1\<lparr>c_tasks := put_task i t' (c_tasks s)\<rparr>"
    by (auto simp: step_task_def split: if_splits option.splits)
  from task_step_next [OF st] obtain evs where next_t: "task_next (c_cells s) (c_tasks s ! i) t' evs"
    and v: "view s1 = (view s)\<lparr>lf_events := c_control s @ evs\<rparr>" "c_table s1 = c_table s"
    by blast
  have "view s' = (view s1)\<lparr>lf_tasks := put_task i t' (c_tasks s)\<rparr>"
    by (simp add: s' view_def)
  then have "view s' = (view s)\<lparr>lf_tasks := take i (c_tasks s) @ (case t' of Some u \<Rightarrow> [u] | None \<Rightarrow> []) @ drop (Suc i) (c_tasks s),
      lf_events := lf_events (view s) @ evs\<rparr>"
    by (simp add: v(1) put_task_def)
  moreover have "lf_tasks (view s) = take i (c_tasks s) @ c_tasks s ! i # drop (Suc i) (c_tasks s)"
    using i by (simp add: id_take_nth_drop [symmetric])
  ultimately show ?thesis
    using life_step.task [of "view s"] next_t v(2) by (intro refines_step) (simp_all add: s')
qed

section \<open>The loop\<close>

definition running :: "'w loop \<Rightarrow> bool" where
  "running L \<longleftrightarrow> l_phase L \<in> {Inner, Drain, Select}"

lemma running_simps [simp]:
  "running (L\<lparr>l_phase := Inner\<rparr>)" "running (L\<lparr>l_phase := Drain\<rparr>)" "running (L\<lparr>l_phase := Select\<rparr>)"
  "\<not> running (L\<lparr>l_phase := Finished r\<rparr>)" "\<not> running (L\<lparr>l_phase := Halted h\<rparr>)"
  "running (L\<lparr>l_conn := s\<rparr>) = running L" "running (L\<lparr>l_reader := rh\<rparr>) = running L"
  "running (L\<lparr>l_inbound := cs\<rparr>) = running L" "running (L\<lparr>l_frames_since_yield := n\<rparr>) = running L"
  "running (L\<lparr>l_idle_deadline := d\<rparr>) = running L" "running (L\<lparr>l_ping_deadline := d\<rparr>) = running L"
  by (simp_all add: running_def)

lemma touch_idle_conn: "touch_idle X L = Some M \<Longrightarrow> l_conn M = l_conn L"
  by (auto simp: touch_idle_def split: if_splits)

lemma refines_inner_frame:
  assumes "running (inner_frame X result L)"
  shows "refines (x_config X) (l_conn L) (l_conn (inner_frame X result L))"
proof -
  from assms obtain s where inb: "handle_inbound X result (cfg_bs X) (cfg_th X) (l_conn L) = Inr (False, s)"
    by (auto simp: inner_frame_def Let_def running_def touch_idle_conn split: option.splits sum.splits prod.splits bool.splits)
  with assms have "l_conn (inner_frame X result L) = s \<or> flush_pending X s = Inr (l_conn (inner_frame X result L))"
    by (auto simp: inner_frame_def Let_def running_def touch_idle_conn split: option.splits sum.splits)
  with refines_inbound [OF inb] show ?thesis
    using refines_trans refines_flush by fastforce
qed

lemma refines_select_frame:
  assumes "running (select_frame X result L)"
  shows "refines (x_config X) (l_conn L) (l_conn (select_frame X result L))"
proof -
  from assms obtain s where inb: "handle_inbound X result (cfg_bs X) (cfg_th X) (l_conn L) = Inr (False, s)"
    by (auto simp: select_frame_def running_def touch_idle_conn split: option.splits sum.splits prod.splits bool.splits)
  with assms have "flush_pending X s = Inr (l_conn (select_frame X result L))"
    by (auto simp: select_frame_def running_def touch_idle_conn split: option.splits sum.splits)
  with refines_inbound [OF inb] show ?thesis
    using refines_trans refines_flush by fastforce
qed

lemma refines_drain_step:
  assumes "running (drain_step X L)"
  shows "refines (x_config X) (l_conn L) (l_conn (drain_step X L))"
proof -
  from assms obtain s where fl: "flush_pending X (l_conn L) = Inr s" and "drain_phases X s = Inr (l_conn (drain_step X L))"
    by (auto simp: drain_step_def running_def split: sum.splits)
  then show ?thesis
    using refines_trans [OF refines_flush [OF fl] refines_drain_phases] by blast
qed

lemma refines_select_write:
  assumes "running (select_write X (Some data) L)"
  shows "refines config (l_conn L) (l_conn (select_write X (Some data) L))"
proof -
  from assms have "write_batch X (data # c_write (l_conn L)) ((l_conn L)\<lparr>c_write := []\<rparr>) = Inr (l_conn (select_write X (Some data) L))"
    by (auto simp: select_write_def handle_write_batch_def running_def split: sum.splits option.splits)
  from write_batch_view [OF this] show ?thesis
    by (simp add: refines_refl)
qed

lemma refines_select_ping: "refines config (l_conn L) (l_conn (select_ping X L))"
  by (auto simp: select_ping_def Let_def view_def intro: refines_refl split: option.split)

lemma refines_select_step:
  assumes "select_step X L = Some L'" "running L'"
  shows "refines (x_config X) (l_conn L) (l_conn L')"
proof -
  obtain out rh cs where rd: "read_wisp_frame (x_cpu X) (l_reader L) (l_inbound L) = (out, rh, cs)"
    using prod_cases3 by blast
  let ?L = "L\<lparr>l_reader := rh, l_inbound := cs\<rparr>"
  show ?thesis
  proof (cases out)
    case (Ready result)
    with assms rd refines_select_frame [of X result ?L] show ?thesis
      by (simp add: select_step_def)
  next
    case Pending
    consider (backend) data rest where "c_write (l_conn L) = data # rest"
      | (control) ev rest where "c_write (l_conn L) = []" "c_control (l_conn L) = ev # rest"
      | (timer) "c_write (l_conn L) = []" "c_control (l_conn L) = []"
      by (cases "c_write (l_conn L)"; cases "c_control (l_conn L)") auto
    then show ?thesis
    proof cases
      case backend
      let ?M = "?L\<lparr>l_conn := (l_conn L)\<lparr>c_write := rest\<rparr>\<rparr>"
      have "L' = select_write X (Some data) ?M"
        using assms(1) rd Pending backend by (simp add: select_step_def Let_def)
      with refines_select_write [of X data ?M] assms(2) show ?thesis
        by (intro refines_view [of "l_conn ?M" "l_conn L"]) simp_all
    next
      case control
      with assms(1) rd Pending refines_control_branch [OF control(2)] show ?thesis
        by (auto simp: select_step_def Let_def)
    next
      case timer
      then have "L' = ?L\<lparr>l_phase := Finished (Inr ())\<rparr> \<or> L' = select_ping X ?L"
        using assms(1) rd Pending by (auto simp: select_step_def Let_def split: if_splits)
      with assms(2) refines_select_ping [of "x_config X" ?L X] show ?thesis
        by auto
    qed
  qed
qed

lemma refines_loop_step:
  assumes "loop_step X L = Some L'" "running L'"
  shows "refines (x_config X) (l_conn L) (l_conn L')"
proof (cases "l_phase L")
  case Inner
  obtain r rh where rd: "try_read_wisp_frame (x_cpu X) (l_reader L) = (r, rh)"
    by fastforce
  with Inner assms refines_inner_frame [of X _ "L\<lparr>l_reader := rh\<rparr>"] show ?thesis
    by (cases r) (auto simp: loop_step_def inner_step_def intro: refines_refl)
next
  case Drain
  with assms refines_drain_step show ?thesis
    by (auto simp: loop_step_def)
next
  case Select
  with assms refines_select_step show ?thesis
    by (simp add: loop_step_def)
qed (use assms in \<open>simp_all add: loop_step_def\<close>)

lemma refines_start:
  assumes "running (loop_start X cs dns deferred read_buf rh w)"
  shows "refines (x_config X) (conn_new X cs dns w) (l_conn (loop_start X cs dns deferred read_buf rh w))"
proof -
  obtain ph s where sd: "serve_deferred X deferred (conn_new X cs dns w) = (ph, s)"
    by fastforce
  with assms have ph: "ph = Inner \<or> ph = Drain \<or> ph = Select"
    by (auto simp: loop_start_def running_def)
  have "refines (x_config X) (conn_new X cs dns w) s"
  proof (cases deferred)
    case None
    with sd show ?thesis
      by (simp add: serve_deferred_def refines_refl)
  next
    case (Some buf)
    with sd ph obtain b s1 where inb: "process_inbound_frame X buf (cfg_bs X) (cfg_th X) (conn_new X cs dns w) = Inr (b, s1)"
      and fl: "flush_pending X s1 = Inr s"
      by (auto simp: serve_deferred_def split: sum.splits)
    from refines_trans [OF refines_process_inbound [OF inb] refines_flush [OF fl]] show ?thesis .
  qed
  with sd show ?thesis
    by (simp add: loop_start_def Let_def)
qed

lemma refines_conn_step:
  assumes "conn_step X L L'" "running L'"
  shows "running L \<and> refines (x_config X) (l_conn L) (l_conn L')"
  using assms
proof (cases rule: conn_step.cases)
  case main
  then have "running L"
    by (auto simp: loop_step_def running_def split: phase.splits)
  with main assms refines_loop_step show ?thesis
    by blast
next
  case (task i s)
  then have "running L"
    using assms(2) by simp
  then have "alive L = True"
    by (auto simp: alive_def running_def)
  with task \<open>running L\<close> refines_task show ?thesis
    by fastforce
qed (use assms in \<open>simp_all add: refines_refl view_def\<close>)

lemma conn_new_simps:
  "view (conn_new X cs dns w) = life_init" "table_inv (c_table (conn_new X cs dns w))"
  "st_max_streams (c_table (conn_new X cs dns w)) = cfg_max_streams (x_config X)"
  by (simp_all add: view_def conn_new_def life_init_def) (simp add: StreamTable_new_def)

lemma reachable_life:
  assumes "reachable X L" "running L"
  shows "table_inv (c_table (l_conn L))" "st_max_streams (c_table (l_conn L)) = cfg_max_streams (x_config X)"
    "life_steps (x_config X) life_init (view (l_conn L))"
proof -
  have "\<exists>cs dns w. refines (x_config X) (conn_new X cs dns w) (l_conn L)"
    using assms
  proof (induction rule: reachable.induct)
    case (start cs dns deferred read_buf rh w)
    then show ?case
      by (intro exI) (rule refines_start)
  next
    case (step L L')
    then show ?case
      using refines_conn_step refines_trans by meson
  qed
  then obtain cs dns w where "refines (x_config X) (conn_new X cs dns w) (l_conn L)"
    by blast
  then show "table_inv (c_table (l_conn L))" "st_max_streams (c_table (l_conn L)) = cfg_max_streams (x_config X)"
    "life_steps (x_config X) life_init (view (l_conn L))"
    by (simp_all add: refines_def conn_new_simps)
qed

end
