(* ===== verification/Conn_Theorems.thy ===== *)
theory Conn_Theorems
  imports Conn_Refine
begin

text \<open>
  The properties of a connection: what holds in every state that a running connection can reach, whatever
  the client, the backends, the resolver and the scheduler do, and what single handlers do on every branch.

  The witnesses run a small connection: a client whose first frame is a CONNECT, over scripted sockets and a
  resolver that knows one host.
\<close>

section \<open>A small connection\<close>

definition demo_net :: "script_world net" where
  "demo_net = \<lparr>net_io = sure_env, net_now = (\<lambda>_. 5), net_lookup_host = one_host,
     net_connect = (\<lambda>_ _ w. (Connected 3 4, w)), net_read = (\<lambda>_ w. (Inr [], w)), net_recv_from = (\<lambda>_ w. (Inr [], w)),
     net_uninit = (\<lambda>_. []), net_upgrade_buffers = (\<lambda>_ w. w), net_far_future = (\<lambda>_. 0)\<rparr>"

text \<open>The configuration blocks loopback and private destinations.\<close>

definition demo_config :: ServerConfig where
  "demo_config = ServerConfig_default\<lparr>cfg_allow_loopback := False, cfg_allow_private_ips := False\<rparr>"

definition demo_ctx :: "script_world ctx" where
  "demo_ctx = \<lparr>x_net = demo_net, x_config = demo_config, x_client = 1, x_cpu = plain_cpu,
     x_yield_limit = 32\<rparr>"

definition demo_connect :: ConnectPayload where
  "demo_connect = \<lparr>cp_stream_type = Tcp, cp_port = 80, cp_hostname = ''www.example.com''\<rparr>"

definition demo_start :: "script_world loop" where
  "demo_start = loop_start demo_ctx (ConnState_new demo_config 5 (V4 (Ipv4 1 2 3 4)))
     (DnsCache_new demo_config) (Some (wire (Connect 1 demo_connect))) [] (ReadHalf_after_handshake Server) (script_start [])"

abbreviation demo_addr :: SocketAddr where
  "demo_addr \<equiv> \<lparr>sa_ip = V4 (Ipv4 93 184 216 34), sa_port = 80\<rparr>"

lemma demo_dns:
  "\<exists>dns. dns_resolve_no_hold (\<lambda>_. 5) one_host ''www.example.com'' 80 (DnsCache_new demo_config, w) =
     Some (Inr demo_addr, dns, w)"
proof -
  have "parse_IpAddr ''www.example.com'' = None"
    by (rule parse_IpAddr_name) (simp_all add: to_digit_def)
  then show ?thesis
    by (simp add: dns_resolve_no_hold_def one_host_def DnsCache_new_def get_cached_def ipv4_first_def demo_config_def ServerConfig_default_def
        order_addrs_def family_def insert_resolved_def instant_add_def from_secs_def)
qed

lemma demo_handle_connect:
  assumes "c_dns s = DnsCache_new demo_config" "StreamTable_get_mut 1 (c_table s) = None" "table_inv (c_table s)"
    "st_max_streams (c_table s) = 0"
  shows "\<exists>s'. handle_connect demo_ctx 1 demo_connect s = Inr s' \<and> c_cells s' = c_cells s @ [False] \<and>
     (\<exists>opts. c_tasks s' = c_tasks s @ [ConnectTask 1 demo_addr (length (c_cells s)) opts]) \<and>
     StreamTable_get_mut 1 (c_table s') = Some (ProxyConnecting \<lparr>conn_early_data = [], conn_cancel = length (c_cells s)\<rparr>) \<and>
     c_control s' = c_control s \<and> c_pending_continues s' = c_pending_continues s \<and> c_world s' = c_world s"
proof -
  let ?st = "ProxyConnecting \<lparr>conn_early_data = [], conn_cancel = length (c_cells s)\<rparr>"
  obtain dns where dns: "dns_resolve_no_hold (\<lambda>_. 5) one_host ''www.example.com'' 80
      (DnsCache_new demo_config, c_world s) = Some (Inr demo_addr, dns, c_world s)"
    using demo_dns ..
  have ins: "fst (StreamTable_insert 1 ?st (c_table s))"
    using assms by (simp add: insert_ok_table)
  have config: "cfg_allow_direct_ip demo_config" "\<not> is_ip_blocked (sa_ip demo_addr) demo_config"
    by (simp_all add: demo_config_def ServerConfig_default_def is_ip_blocked_def)
  have tcp: "handle_connect demo_ctx 1 demo_connect s = handle_tcp_connect demo_ctx 1 demo_connect (StreamTable_len (c_table s) \<ge> 1) s"
    using assms(2) by (simp add: handle_connect_def demo_ctx_def demo_connect_def contains_iff is_hostname_blocked_def is_port_blocked_def
        is_hostname_blocked_pre_resolution_def starts_with_def hostname_is_private_172_def strip_prefix_def
        demo_config_def ServerConfig_default_def)
  show ?thesis
    unfolding tcp using ins assms(1) dns config
    by (simp add: handle_tcp_connect_def Let_def ConnectingStream_new_def CancelFlag_new_def demo_ctx_def demo_net_def demo_connect_def
        split_beta spawn_def get_insert)
qed

lemma demo_frame:
  "parse_wisp_frame (wire (Connect 1 demo_connect)) = Some (Connect 1 demo_connect)"
  "wire (Connect 1 demo_connect) ! 0 = PACKET_CONNECT" "WISP_HEADER_SIZE \<le> length (wire (Connect 1 demo_connect))"
proof -
  have "wire_ok (Connect 1 demo_connect)"
    by (simp add: demo_connect_def as_bytes_def byte_of_char_def)
  then show "parse_wisp_frame (wire (Connect 1 demo_connect)) = Some (Connect 1 demo_connect)"
    by (rule parse_wire)
qed simp_all

lemma demo_loop:
  fixes cs read_buf rh w
  defines "L \<equiv> loop_start demo_ctx cs (DnsCache_new demo_config) (Some (wire (Connect 1 demo_connect))) read_buf rh w"
  shows "running L" "\<exists>opts. c_tasks (l_conn L) = [ConnectTask 1 demo_addr 0 opts]" "l_phase L = Inner"
    "StreamTable_get_mut 1 (c_table (l_conn L)) = Some (ProxyConnecting \<lparr>conn_early_data = [], conn_cancel = 0\<rparr>)"
    "c_cells (l_conn L) = [False]" "c_control (l_conn L) = []"
proof -
  let ?s = "conn_new demo_ctx cs (DnsCache_new demo_config) w" and ?p = "wire (Connect 1 demo_connect)"
  have s: "c_dns ?s = DnsCache_new demo_config" "StreamTable_get_mut 1 (c_table ?s) = None"
    "table_inv (c_table ?s)" "st_max_streams (c_table ?s) = 0" "c_cells ?s = []" "c_control ?s = []" "c_tasks ?s = []"
    "c_pending_continues ?s = []"
    using conn_new_simps(3) [of demo_ctx] by (simp_all add: conn_new_def demo_ctx_def demo_config_def ServerConfig_default_def)
  from demo_handle_connect [OF s(1-4)] obtain s' where s': "handle_connect demo_ctx 1 demo_connect ?s = Inr s'"
    "\<exists>opts. c_tasks s' = [ConnectTask 1 demo_addr 0 opts]" "c_cells s' = [False]" "c_control s' = []" "c_pending_continues s' = []"
    "StreamTable_get_mut 1 (c_table s') = Some (ProxyConnecting \<lparr>conn_early_data = [], conn_cancel = 0\<rparr>)"
    unfolding s by auto
  have "cfg_max_frame_size (x_config demo_ctx) = 0"
    by (simp add: demo_ctx_def demo_config_def ServerConfig_default_def)
  with demo_frame have "process_inbound_frame demo_ctx ?p (cfg_bs demo_ctx) (cfg_th demo_ctx) ?s = Inr (False, s')"
    using s'(1) by (simp add: process_inbound_frame_def Let_def del: wire.simps)
  then have "l_phase L = Inner \<and> l_conn L = s'"
    using s'(5) by (simp add: L_def loop_start_def serve_deferred_def flush_pending_def Let_def del: wire.simps)
  then show "running L" "\<exists>opts. c_tasks (l_conn L) = [ConnectTask 1 demo_addr 0 opts]" "l_phase L = Inner"
    "StreamTable_get_mut 1 (c_table (l_conn L)) = Some (ProxyConnecting \<lparr>conn_early_data = [], conn_cancel = 0\<rparr>)"
    "c_cells (l_conn L) = [False]" "c_control (l_conn L) = []"
    using s' by (simp_all add: running_def)
qed

lemma demo_state:
  "reachable demo_ctx demo_start" "running demo_start"
  "\<exists>opts. c_tasks (l_conn demo_start) = [ConnectTask 1 demo_addr 0 opts]"
  "StreamTable_get_mut 1 (c_table (l_conn demo_start)) = Some (ProxyConnecting \<lparr>conn_early_data = [], conn_cancel = 0\<rparr>)"
  "c_cells (l_conn demo_start) = [False]" "c_control (l_conn demo_start) = []"
  unfolding demo_start_def by (rule reachable.start demo_loop)+

section \<open>Reachable states\<close>

text \<open>C1. The connection implements the abstract life of its streams.  The state in which the loop starts, after the
  deferred frame, has a well-formed table and is reached by steps of the abstract machine from no streams; and
  every step after which the connection still runs, of the loop, of a spawned task or of the outside, keeps
  the table well formed, keeps its limit, and is a sequence of steps of the machine.\<close>

theorem connection_refines_life:
  "(running (loop_start X cs dns deferred read_buf rh w) \<longrightarrow>
      table_inv (c_table (l_conn (loop_start X cs dns deferred read_buf rh w))) \<and>
      life_steps (x_config X) life_init (view (l_conn (loop_start X cs dns deferred read_buf rh w)))) \<and>
   (conn_step X L L' \<and> running L' \<and> table_inv (c_table (l_conn L)) \<longrightarrow>
      running L \<and> table_inv (c_table (l_conn L')) \<and>
      st_max_streams (c_table (l_conn L')) = st_max_streams (c_table (l_conn L)) \<and>
      life_steps (x_config X) (view (l_conn L)) (view (l_conn L')))"
proof (intro conjI impI)
  assume "running (loop_start X cs dns deferred read_buf rh w)"
  from refines_start [OF this]
  show "table_inv (c_table (l_conn (loop_start X cs dns deferred read_buf rh w)))"
    "life_steps (x_config X) life_init (view (l_conn (loop_start X cs dns deferred read_buf rh w)))"
    by (simp_all add: refines_def conn_new_simps)
next
  assume "conn_step X L L' \<and> running L' \<and> table_inv (c_table (l_conn L))"
  with refines_conn_step [of X L L']
  show "running L" "table_inv (c_table (l_conn L'))"
    "st_max_streams (c_table (l_conn L')) = st_max_streams (c_table (l_conn L))"
    "life_steps (x_config X) (view (l_conn L)) (view (l_conn L'))"
    by (simp_all add: refines_def)
qed

theorem connection_refines_life_witness:
  "table_inv (c_table (l_conn demo_start)) \<and> life_steps demo_config life_init (view (l_conn demo_start)) \<and>
   (\<exists>L'. conn_step demo_ctx demo_start L' \<and> (\<exists>opts. c_tasks (l_conn L') = [ConnectWait 1 demo_addr 0 opts]) \<and>
      life_steps demo_config (view (l_conn demo_start)) (view (l_conn L')))"
proof -
  obtain opts where tasks: "c_tasks (l_conn demo_start) = [ConnectTask 1 demo_addr 0 opts]"
    using demo_state(3) ..
  let ?s = "(l_conn demo_start)\<lparr>c_tasks := [ConnectWait 1 demo_addr 0 opts]\<rparr>"
  have "alive demo_start = True"
    using demo_state(2) by (auto simp: alive_def running_def)
  then have "step_task demo_ctx (alive demo_start) 0 (l_conn demo_start) = Some ?s"
    using tasks demo_state(5) by (simp add: step_task_def put_task_def connect_start_def CancelFlag_is_cancelled_def)
  then have step: "conn_step demo_ctx demo_start (demo_start\<lparr>l_conn := ?s\<rparr>)"
    by (rule conn_step.task)
  have config: "x_config demo_ctx = demo_config"
    by (simp add: demo_ctx_def)
  note start = connection_refines_life [THEN conjunct1, rule_format, OF demo_state(2) [unfolded demo_start_def],
      folded demo_start_def, unfolded config]
  have "life_steps demo_config (view (l_conn demo_start)) (view ?s)"
    using connection_refines_life [THEN conjunct2, rule_format, of demo_ctx demo_start "demo_start\<lparr>l_conn := ?s\<rparr>"]
      step start demo_state(2) by (simp add: config)
  with start step show ?thesis
    by (intro conjI exI [of _ "demo_start\<lparr>l_conn := ?s\<rparr>"]) auto
qed

text \<open>C6. What every stream of a running connection satisfies: its identifier is not the control stream; there are never
  more streams than the configuration allows; a TCP stream with data still to be written to the backend is
  in the list that the loop drains, and its count of packets since the last CONTINUE is below the threshold;
  and a stream that is still connecting holds at most 128 packets.\<close>

theorem stream_invariant:
  assumes "reachable X L" "running L" "StreamTable_get_mut sid (c_table (l_conn L)) = Some st"
  shows "sid \<noteq> STREAM_ID_CONTROL \<and>
     (cfg_max_streams (x_config X) = 0 \<or> StreamTable_len (c_table (l_conn L)) \<le> cfg_max_streams (x_config X)) \<and>
     (case st of
        ProxyTcp tcp \<Rightarrow>
          (tcp_pending tcp = [] \<or> tcp_queued_for_drain tcp \<and> sid \<in> set (c_streams_with_pending (l_conn L))) \<and>
          tcp_packets_since_continue tcp < continue_threshold (x_config X)
      | ProxyConnecting c \<Rightarrow> length (conn_early_data c) \<le> 128
      | ProxyUdp u \<Rightarrow> True)"
proof -
  note life = reachable_life [OF assms(1,2)]
  from pending.always [OF life(3)] assms(3)
  have "sid \<noteq> 0 \<and> stream_ok (cfg_th X) sid (c_streams_with_pending (l_conn L)) st"
    by (simp add: pending_ok_def)
  then show ?thesis
    using table.bounded [OF life(1)] by (cases st) (auto simp: tcp_ok_def life(2))
qed

theorem stream_invariant_witness:
  "(1 :: u32) \<noteq> STREAM_ID_CONTROL \<and>
   (cfg_max_streams demo_config = 0 \<or> StreamTable_len (c_table (l_conn demo_start)) \<le> cfg_max_streams demo_config) \<and>
   StreamTable_get_mut 1 (c_table (l_conn demo_start)) = Some (ProxyConnecting \<lparr>conn_early_data = [], conn_cancel = 0\<rparr>)"
  using stream_invariant [OF demo_state(1,2,4)] demo_state(4) by (simp add: demo_ctx_def)

lemma reachable_allowed:
  assumes "reachable X L" "running L"
    and "ConnectTask sid addr f opts \<in> set (c_tasks (l_conn L)) \<or> ConnectWait sid addr f opts \<in> set (c_tasks (l_conn L)) \<or>
      StreamTable_get_mut sid (c_table (l_conn L)) = Some (ProxyUdp u) \<and> addr = udp_dest_addr u"
  shows "allowed (x_config X) addr"
proof -
  have "egress_ok (x_config X) (view (l_conn L))"
    by (rule egress.always [OF reachable_life(3) [OF assms(1,2)]])
  with assms(3) show ?thesis
    by (force simp: egress_ok_def task_ok_def)
qed

text \<open>C2. The egress policy is never bypassed: whenever a task of a running connection is about to connect to an
  address or is connecting to it, and whenever a UDP stream sends to an address, the address is not blocked by
  the configuration's address policy, its port is not blocked by the port filter, and the port is not zero.\<close>

theorem connection_egress_policy:
  assumes "reachable X L" "running L"
    and "ConnectTask sid addr f opts \<in> set (c_tasks (l_conn L)) \<or> ConnectWait sid addr f opts \<in> set (c_tasks (l_conn L)) \<or>
      StreamTable_get_mut sid (c_table (l_conn L)) = Some (ProxyUdp u) \<and> addr = udp_dest_addr u"
  shows "\<not> is_ip_blocked (sa_ip addr) (x_config X) \<and> \<not> is_port_blocked (x_config X) (sa_port addr) \<and> sa_port addr \<noteq> 0"
  using reachable_allowed [OF assms] by (simp add: allowed_def)

theorem connection_egress_policy_witness:
  "(\<exists>opts. ConnectTask 1 demo_addr 0 opts \<in> set (c_tasks (l_conn demo_start))) \<and>
   \<not> is_ip_blocked (V4 (Ipv4 93 184 216 34)) demo_config \<and> \<not> is_port_blocked demo_config 80"
proof -
  obtain opts where "ConnectTask 1 demo_addr 0 opts \<in> set (c_tasks (l_conn demo_start))"
    using demo_state(3) by auto
  with connection_egress_policy [OF demo_state(1,2), of 1 demo_addr 0 opts] show ?thesis
    by (auto simp: demo_ctx_def)
qed

text \<open>C7. Cancellation: a spawned task that reads from a backend or connects to one is cancelled, or the stream it
  serves is in the table with the same flag and in the right state, still connecting for a connect task and
  open for a reader; and no two streams share a flag.  So a removed stream leaves no task that would go on
  serving it, and a reused identifier is not served by the task of its predecessor.\<close>

theorem tasks_serve_live_streams:
  assumes "reachable X L" "running L" "t \<in> set (c_tasks (l_conn L))" "serves t = Some (sid, f, connecting)"
  shows "(if CancelFlag_is_cancelled f (c_cells (l_conn L)) then True
      else \<exists>st. StreamTable_get_mut sid (c_table (l_conn L)) = Some st \<and>
        ProxyStream_cancel st = f \<and> is_connecting st = connecting) \<and>
    (\<forall>i j st st'. StreamTable_get_mut i (c_table (l_conn L)) = Some st \<and> StreamTable_get_mut j (c_table (l_conn L)) = Some st' \<and>
       ProxyStream_cancel st = ProxyStream_cancel st' \<longrightarrow> i = j)"
proof -
  have ok: "flags_ok (view (l_conn L))"
    by (rule flags.always [OF reachable_life(3) [OF assms(1,2)]])
  from flags_okD(4) [OF ok, of t sid f connecting] assms(3,4)
  have "CancelFlag_is_cancelled f (c_cells (l_conn L)) \<or> flag_of (view (l_conn L)) sid = Some (f, connecting)"
    by simp
  moreover have "i = j" if "StreamTable_get_mut i (c_table (l_conn L)) = Some st" "StreamTable_get_mut j (c_table (l_conn L)) = Some st'"
    "ProxyStream_cancel st = ProxyStream_cancel st'" for i j st st'
    using flags_okD(2) [OF ok, of i "ProxyStream_cancel st" _ j] that by (simp add: flag_of_def)
  ultimately show ?thesis
    by (auto simp: flag_of_def)
qed

theorem tasks_serve_live_streams_witness:
  "\<exists>opts st. ConnectTask 1 demo_addr 0 opts \<in> set (c_tasks (l_conn demo_start)) \<and>
     StreamTable_get_mut 1 (c_table (l_conn demo_start)) = Some st \<and> ProxyStream_cancel st = 0 \<and> is_connecting st"
proof -
  obtain opts where t: "ConnectTask 1 demo_addr 0 opts \<in> set (c_tasks (l_conn demo_start))"
    using demo_state(3) by auto
  with tasks_serve_live_streams [OF demo_state(1,2) t, of 1 0 True] demo_state(5) show ?thesis
    by (auto simp: CancelFlag_is_cancelled_def)
qed

text \<open>C11. No CONNECT is forgotten: as long as a stream of a running connection is connecting, its flag is not
  cancelled, and its connect task is at work, or the reply about it is being sent by a task, or
  it waits in the control channel for the loop.\<close>

theorem connecting_stream_is_served:
  assumes "reachable X L" "running L" "StreamTable_get_mut sid (c_table (l_conn L)) = Some (ProxyConnecting c)"
  shows "\<not> CancelFlag_is_cancelled (conn_cancel c) (c_cells (l_conn L)) \<and>
    ((\<exists>t \<in> set (c_tasks (l_conn L)). serves t = Some (sid, conn_cancel c, True)) \<or>
     (\<exists>ev. connect_reply ev = Some sid \<and> (EventSend ev \<in> set (c_tasks (l_conn L)) \<or> ev \<in> set (c_control (l_conn L)))))"
proof -
  have "connects_ok (view (l_conn L))"
    by (rule connects.always [OF reachable_life(3) [OF assms(1,2)]])
  moreover have "flag_of (view (l_conn L)) sid = Some (conn_cancel c, True)"
    using assms(3) by (simp add: flag_of_def)
  ultimately have live: "\<not> CancelFlag_is_cancelled (conn_cancel c) (c_cells (l_conn L))"
    and out: "outstanding sid (conn_cancel c) (view (l_conn L))"
    unfolding connects_ok_def view_simps by blast+
  have "serves t = Some (sid, conn_cancel c, True) \<or> (\<exists>ev. t = EventSend ev \<and> connect_reply ev = Some sid)"
    if "works_on sid (conn_cancel c) t" for t
    using that by (cases t) auto
  with live out show ?thesis
    by (fastforce simp: outstanding_def)
qed

theorem connecting_stream_is_served_witness:
  "(\<exists>t \<in> set (c_tasks (l_conn demo_start)). serves t = Some (1, 0, True)) \<and> c_control (l_conn demo_start) = []"
  using connecting_stream_is_served [OF demo_state(1,2,4)] demo_state(3,6) by auto

end
