(* ===== verification/Connection.thy ===== *)
theory Connection
  imports Conn_Theorems
begin

text \<open>
  \<^verbatim>\<open>handle_connection\<close> of \<^verbatim>\<open>src/server/connection.rs\<close> from end to end: the HTTP upgrade, the real client address, the
  Wisp handshake, the change from hyper's stream to the bare socket, and the start of the loop.

  The lemmas follow the bytes of the client through the handshake: what the handshake has consumed is a
  sequence of whole frames, and what it has read beyond them is handed to the loop.
\<close>

section \<open>From the accepted socket to the loop\<close>

text \<open>
  What one accepted socket brings: the crates \<^verbatim>\<open>http\<close>, \<^verbatim>\<open>bcrypt\<close> and \<^verbatim>\<open>ipnet\<close>, the result of \<^verbatim>\<open>set_nodelay\<close>, the requests
  that hyper reads and what its answers do to the world, the outcome of the upgrade future, the reads that
  hyper's stream answers after it, \<^verbatim>\<open>Upgraded::downcast\<close> (the bytes that hyper holds and the reads left to the
  socket; \<^const>\<open>None\<close> when it is another type of stream), the \<^verbatim>\<open>SO_ZEROCOPY\<close> and \<^verbatim>\<open>TCP_QUICKACK\<close> options and the number
  of cores.
\<close>

record ('w, 'n) link =
  k_http :: http
  k_bcrypt :: bcrypt
  k_contains :: "'n \<Rightarrow> IpAddr \<Rightarrow> bool"
  k_nodelay :: "unit io_result"
  k_requests :: "Request list"
  k_responded :: "Response list \<Rightarrow> 'w \<Rightarrow> 'w"
  k_upgraded :: "WebSocketError + unit"
  k_arrived :: chunks
  k_downcast :: "chunks \<Rightarrow> (bytes \<times> chunks) option"
  k_zerocopy :: "'w \<Rightarrow> 'w"
  k_quickack :: "'w \<Rightarrow> 'w"
  k_core_ids :: "nat option"

text \<open>It has returned an error, waits for the client, is stuck in a write for ever, or has reached the loop.\<close>

datatype 'w outcome = Returned ConnectionError | Waiting | Stuck | Serving "'w loop"

text \<open>Steps 3 to 5, with the deferred frame; \<open>dns_cache\<close> is the content of the shared cache at that moment.\<close>

definition serve_wisp ::
  "('w, 'n) link \<Rightarrow> 'w ctx \<Rightarrow> ConnState \<Rightarrow> DnsCache \<Rightarrow> bytes option \<Rightarrow> 'w ws \<Rightarrow> 'w outcome" where
  "serve_wisp K X cs dns_cache deferred_frame ws =
     (case k_downcast K (ws_inbound ws) of
        None \<Rightarrow> Returned (Protocol ''TcpStream downcast failed'')
      | Some (read_buf, rest) \<Rightarrow>
          let w = (if cfg_prod_mode (x_config X) then k_zerocopy K (ws_world ws) else ws_world ws)
          in Serving ((loop_start X cs dns_cache deferred_frame read_buf (ws_read_half ws) w)\<lparr>l_inbound := rest\<rparr>))"

definition handle_connection ::
  "('w, 'n) link \<Rightarrow> 'w ctx \<Rightarrow> SocketAddr \<Rightarrow> DnsCache \<Rightarrow> 'n list \<Rightarrow> 'w \<Rightarrow> Response list \<times> 'w outcome" where
  "handle_connection K X peer_addr dns_cache trusted_proxies w =
     (let config = x_config X;
          cs = ConnState_new config (net_now (x_net X) w) (sa_ip peer_addr)
      in case handle_ws_upgrade (k_http K) config (k_nodelay K) (k_requests K) (k_upgraded K) of
           (responses, Inl e) \<Rightarrow> (responses, Returned (Upgrade_Error e))
         | (responses, Inr upgrade_result) \<Rightarrow>
             let cs = cs\<lparr>cs_client_ip := client_ip_of (k_contains K) config trusted_proxies (sa_ip peer_addr)
                           (ur_headers upgrade_result)\<rparr>;
                 ws = \<lparr>ws_read_half = ur_read upgrade_result, ws_write_half = ur_write upgrade_result,
                       ws_inbound = k_arrived K, ws_world = k_responded K responses w\<rparr>
             in (responses,
                 case handshake (x_io X) (x_cpu X) (k_bcrypt K) (x_client X) config (ur_is_v2 upgrade_result) ws of
                   None \<Rightarrow> Stuck
                 | Some (Pending, ws) \<Rightarrow> Waiting
                 | Some (Ready (Inl e), ws) \<Rightarrow> Returned e
                 | Some (Ready (Inr deferred_frame), ws) \<Rightarrow> serve_wisp K X cs dns_cache deferred_frame ws))"

section \<open>Whole frames\<close>

text \<open>The buffered bytes start with exactly these frames, and the second reader holds the bytes after them.\<close>

fun frames_then :: "ReadHalf \<Rightarrow> Frame list \<Rightarrow> ReadHalf \<Rightarrow> bool" where
  "frames_then rh [] rh' \<longleftrightarrow> rh' = rh"
| "frames_then rh (f # fs) rh' \<longleftrightarrow>
     (case try_parse_frame_buffered rh of
        (Some (Inr g), rh1) \<Rightarrow> g = f \<and> frames_then rh1 fs rh'
      | _ \<Rightarrow> False)"

definition fed :: "ReadHalf \<Rightarrow> bytes \<Rightarrow> ReadHalf" where
  "fed rh bs = rh\<lparr>rh_buffer := rh_buffer rh @ bs\<rparr>"

lemma fed_simps [simp]: "fed (fed rh bs) cs = fed rh (bs @ cs)" "fed rh [] = rh"
  "rh_buffer (fed rh bs) = rh_buffer rh @ bs"
  by (simp_all add: fed_def)

lemma try_parse_fed:
  assumes "try_parse_frame_buffered rh = (Some (Inr f), rh')"
  shows "try_parse_frame_buffered (fed rh bs) = (Some (Inr f), fed rh' bs)"
proof -
  define W where "W = rh_buffer rh"
  have rh: "rh = rh\<lparr>rh_buffer := W\<rparr>"
    by (simp add: W_def)
  have len: "2 \<le> length W" "header_size (W ! 1) + peek_payload_len W \<le> length W"
    using assms unfolding try_parse_steps W_def [symmetric] Let_def
    by (auto simp: not_less split: if_splits sum.splits option.splits)
  then have nth: "(W @ bs) ! 0 = W ! 0" "(W @ bs) ! 1 = W ! 1"
    by (auto simp: nth_append)
  have peek: "peek_payload_len (W @ bs) = peek_payload_len W" "peek_mask (W @ bs) = peek_mask W"
    using peek_append [of W bs] len(2) by simp_all
  have eq: "fed rh bs = rh\<lparr>rh_buffer := W @ bs\<rparr>"
    by (simp add: fed_def W_def)
  show ?thesis
    using assms len unfolding eq try_parse_steps_at nth peek
    unfolding try_parse_steps W_def [symmetric] Let_def
    by (auto simp: fed_def not_less split: if_splits sum.splits option.splits)
qed

lemma frames_then_fed: "frames_then rh fs rh' \<Longrightarrow> frames_then (fed rh bs) fs (fed rh' bs)"
  by (induction fs arbitrary: rh) (auto simp: try_parse_fed split: prod.splits option.splits sum.splits)

lemma frames_then_append:
  "frames_then rh (fs @ gs) rh' \<longleftrightarrow> (\<exists>rh1. frames_then rh fs rh1 \<and> frames_then rh1 gs rh')"
  by (induction fs arbitrary: rh) (auto split: prod.splits option.splits sum.splits)

section \<open>What the handshake consumes\<close>

text \<open>Between two states of a reader the chunks \<open>used\<close> were taken from the stream, and the frames \<open>fs\<close> out of the buffer.\<close>

definition reads :: "ReadHalf \<Rightarrow> chunks \<Rightarrow> Frame list \<Rightarrow> ReadHalf \<Rightarrow> chunks \<Rightarrow> bool" where
  "reads rh cs fs rh' cs' \<longleftrightarrow> (\<exists>used. cs = used @ cs' \<and> live used \<and> frames_then (fed rh (delivered used)) fs rh')"

lemma live_append [simp]: "live (cs @ ds) \<longleftrightarrow> live cs \<and> live ds"
  by (auto simp: live_def)

lemma delivered_append [simp]: "delivered (cs @ ds) = delivered cs @ delivered ds"
  by (simp add: delivered_def)

lemma reads_none [intro, simp]: "reads rh cs [] rh cs"
  by (simp add: reads_def)

lemma reads_append: "reads rh cs fs rh1 cs1 \<Longrightarrow> reads rh1 cs1 gs rh2 cs2 \<Longrightarrow> reads rh cs (fs @ gs) rh2 cs2"
  unfolding reads_def
proof (elim exE conjE)
  fix used used'
  assume *: "cs = used @ cs1" "live used" "frames_then (fed rh (delivered used)) fs rh1"
    "cs1 = used' @ cs2" "live used'" "frames_then (fed rh1 (delivered used')) gs rh2"
  then have "frames_then (fed rh (delivered (used @ used'))) (fs @ gs) rh2"
    using frames_then_fed [OF *(3), of "delivered used'"] by (auto simp: frames_then_append)
  with * show "\<exists>used. cs = used @ cs2 \<and> live used \<and> frames_then (fed rh (delivered used)) (fs @ gs) rh2"
    by (intro exI [of _ "used @ used'"]) simp
qed

text \<open>The parser looks at no chunk beyond those it takes.\<close>

lemma read_until_enough: "n \<le> length buf \<Longrightarrow> read_until n buf cs = (Ready (Inr ()), buf, cs)"
  by (cases cs) auto

lemma read_until_local:
  "read_until n buf cs = (Ready (Inr ()), buf', cs') \<Longrightarrow>
   \<exists>used. cs = used @ cs' \<and> live used \<and> (\<forall>ds. read_until n buf (used @ ds) = (Ready (Inr ()), buf', ds))"
proof (induction n buf cs rule: read_until.induct)
  case (2 n buf c cs)
  show ?case
  proof (cases "length buf < n")
    case True
    with 2(2) obtain bs where bs: "c = Inr bs" "bs \<noteq> []" "read_until n (buf @ bs) cs = (Ready (Inr ()), buf', cs')"
      by (auto split: sum.splits if_splits)
    with 2(1) True obtain used where "cs = used @ cs'" "live used"
        "\<forall>ds. read_until n (buf @ bs) (used @ ds) = (Ready (Inr ()), buf', ds)"
      by blast
    with bs True show ?thesis
      by (intro exI [of _ "c # used"]) simp
  next
    case False
    with 2(2) show ?thesis
      by (intro exI [of _ "[]"]) (simp add: read_until_enough)
  qed
qed (auto simp: read_until_enough split: if_splits intro: exI [of _ "[]"])

lemma parse_frame_header_local:
  assumes "parse_frame_header rh cs = (Ready (Inr f), rh', cs')"
  shows "\<exists>used. cs = used @ cs' \<and> live used \<and> parse_frame_header rh used = (Ready (Inr f), rh', [])"
proof -
  obtain b1 c1 where r1: "read_until 2 (rh_buffer rh) cs = (Ready (Inr ()), b1, c1)"
    using assms by (fastforce simp: parse_frame_header_def split: prod.splits poll.splits sum.splits)
  obtain p2 b2 c2 where r2: "read_until (header_size (b1 ! 1)) b1 c1 = (p2, b2, c2)"
    using prod_cases3 by blast
  obtain p3 b3 c3 where r3: "read_until (header_size (b1 ! 1) + peek_payload_len b2) b2 c2 = (p3, b3, c3)"
    using prod_cases3 by blast
  from assms have ok: "p2 = Ready (Inr ())" "p3 = Ready (Inr ())" "cs' = c3"
    unfolding parse_steps r1 prod.case poll.case sum.case
    by (auto simp: r2 r3 simp del: One_nat_def split: sum.splits poll.splits option.splits)
  obtain u1 where u1: "cs = u1 @ c1" "live u1" "\<And>ds. read_until 2 (rh_buffer rh) (u1 @ ds) = (Ready (Inr ()), b1, ds)"
    using read_until_local [OF r1] by blast
  obtain u2 where u2: "c1 = u2 @ c2" "live u2"
      "\<And>ds. read_until (header_size (b1 ! 1)) b1 (u2 @ ds) = (Ready (Inr ()), b2, ds)"
    using read_until_local [OF r2 [unfolded ok]] by blast
  obtain u3 where u3: "c2 = u3 @ c3" "live u3"
      "read_until (header_size (b1 ! 1) + peek_payload_len b2) b2 u3 = (Ready (Inr ()), b3, [])"
    using read_until_local [OF r3 [unfolded ok]] by (metis append_Nil2)
  have "parse_frame_header rh (u1 @ u2 @ u3) = (Ready (Inr f), rh', [])"
    using assms unfolding parse_steps r1 u1(3) prod.case poll.case sum.case r2 u2(3) r3 u3(3) ok
    by (auto split: sum.splits option.splits)
  with u1 u2 u3 ok(3) show ?thesis
    by (intro exI [of _ "u1 @ u2 @ u3"]) simp
qed

lemma parse_frame_header_reads:
  assumes "parse_frame_header rh cs = (Ready (Inr f), rh', cs')"
  shows "reads rh cs [f] rh' cs'"
proof -
  obtain used where used: "cs = used @ cs'" "live used" "parse_frame_header rh used = (Ready (Inr f), rh', [])"
    using parse_frame_header_local [OF assms] by blast
  with parse_frame_header_eq [OF used(2), of rh] have
    "try_parse_frame_buffered (fed rh (delivered used)) = (Some (Inr f), rh')"
    by (auto simp: fed_def split: prod.splits option.splits)
  with used show ?thesis
    by (auto simp: reads_def)
qed

lemma frames_then_fields: "frames_then rh fs rh' \<Longrightarrow> \<exists>buf. rh' = rh\<lparr>rh_buffer := buf\<rparr>"
proof (induction fs arbitrary: rh)
  case Nil
  then show ?case
    by (intro exI [of _ "rh_buffer rh"]) simp
next
  case (Cons f fs)
  then obtain rh1 where "try_parse_frame_buffered rh = (Some (Inr f), rh1)" and fs: "frames_then rh1 fs rh'"
    by (auto split: prod.splits option.splits sum.splits)
  then obtain buf where "rh1 = rh\<lparr>rh_buffer := buf\<rparr>"
    unfolding try_parse_steps Let_def by (auto split: if_splits sum.splits option.splits)
  with Cons.IH [OF fs] show ?case
    by auto
qed

lemma reads_fields: "reads rh cs fs rh' cs' \<Longrightarrow> \<exists>buf. rh' = rh\<lparr>rh_buffer := buf\<rparr>"
  unfolding reads_def fed_def by (fastforce dest: frames_then_fields)

text \<open>The frame as the code sees it: unmasked.\<close>

definition opened :: "cpu \<Rightarrow> ReadHalf \<Rightarrow> Frame \<Rightarrow> Frame" where
  "opened cpu rh f = (if rh_role rh = Server \<and> rh_auto_apply_mask rh then Frame_unmask cpu f else f)"

lemma opened_opcode [simp]: "fr_opcode (opened cpu rh f) = fr_opcode f"
  by (simp add: opened_def Frame_unmask_def split: option.split)

lemma read_frame_inner_reads:
  assumes "read_frame_inner cpu rh cs = (Ready (Inr fo, ob), rh', cs')"
  obtains f where "reads rh cs [f] rh' cs'"
    "case fo of None \<Rightarrow> fr_opcode f = OpPing | Some g \<Rightarrow> g = opened cpu rh' f"
proof -
  obtain p rh1 cs1 where p: "parse_frame_header rh cs = (p, rh1, cs1)"
    using prod_cases3 by blast
  with assms obtain f where f: "p = Ready (Inr f)" "rh' = rh1" "cs' = cs1"
    by (cases p) (auto simp: read_frame_inner_def Let_def split: sum.splits)
  moreover have "case fo of None \<Rightarrow> fr_opcode (opened cpu rh' f) = OpPing | Some g \<Rightarrow> g = opened cpu rh' f"
    using assms p f unfolding read_frame_inner_def opened_def
    by (auto simp: Let_def split: if_splits)
  ultimately show ?thesis
    using that [of f] p parse_frame_header_reads by (auto split: option.splits)
qed

lemma WebSocket_read_frame_reads:
  assumes "WebSocket_read_frame E cpu s ws = Some (Ready (Inr g), ws')"
  shows "\<exists>fs f. reads (ws_read_half ws) (ws_inbound ws) (fs @ [f]) (ws_read_half ws') (ws_inbound ws') \<and>
     (\<forall>h \<in> set fs. fr_opcode h \<noteq> OpBinary) \<and> g = opened cpu (ws_read_half ws') f"
  using assms
proof (induction ws rule: measure_induct_rule [where f = ws_unread])
  case (less ws)
  then obtain fo ob ws2 where
    inner: "read_frame_inner cpu (ws_read_half ws) (ws_inbound ws) = (Ready (Inr fo, ob), ws_read_half ws2, ws_inbound ws2)"
    and cont: "case fo of None \<Rightarrow> WebSocket_read_frame E cpu s ws2 = Some (Ready (Inr g), ws') | Some f \<Rightarrow> g = f \<and> ws' = ws2"
    using WebSocket_read_frame_step by blast
  obtain f where f: "reads (ws_read_half ws) (ws_inbound ws) [f] (ws_read_half ws2) (ws_inbound ws2)"
      "case fo of None \<Rightarrow> fr_opcode f = OpPing | Some g \<Rightarrow> g = opened cpu (ws_read_half ws2) f"
    using read_frame_inner_reads [OF inner] by blast
  show ?case
  proof (cases fo)
    case None
    with cont less.IH [of ws2] read_frame_inner_unread [OF inner] obtain fs h where
      "reads (ws_read_half ws2) (ws_inbound ws2) (fs @ [h]) (ws_read_half ws') (ws_inbound ws')"
      "\<forall>h \<in> set fs. fr_opcode h \<noteq> OpBinary" "g = opened cpu (ws_read_half ws') h"
      by auto
    with f None reads_append [OF f(1)] show ?thesis
      by (intro exI [of _ "f # fs"] exI [of _ h]) fastforce
  next
    case (Some h)
    with f cont show ?thesis
      by (intro exI [of _ "[]"] exI [of _ f]) simp
  qed
qed

lemma read_ws_binary_handshake_step:
  assumes "read_ws_binary_handshake E cpu s ws = Some (Ready (Inr p), ws')"
  obtains frame ws1 ws2 where "WebSocket_read_frame E cpu s ws = Some (Ready (Inr frame), ws1)"
    "if fr_opcode frame = OpBinary then p = fr_payload frame \<and> ws' = ws1
     else ws_read_half ws2 = ws_read_half ws1 \<and> ws_inbound ws2 = ws_inbound ws1 \<and>
       read_ws_binary_handshake E cpu s ws2 = Some (Ready (Inr p), ws')"
proof -
  from assms obtain frame ws1 where rd: "WebSocket_read_frame E cpu s ws = Some (Ready (Inr frame), ws1)"
    by (subst (asm) read_ws_binary_handshake.simps) (auto split: option.splits poll.splits sum.splits)
  with assms have "if fr_opcode frame = OpBinary then p = fr_payload frame \<and> ws' = ws1
     else \<exists>ws2. ws_read_half ws2 = ws_read_half ws1 \<and> ws_inbound ws2 = ws_inbound ws1 \<and>
       read_ws_binary_handshake E cpu s ws2 = Some (Ready (Inr p), ws')"
    by (subst (asm) read_ws_binary_handshake.simps)
      (auto split: option.splits sum.splits OpCode.splits dest: WebSocket_write_frame_reads)
  with rd that show ?thesis
    by (metis (full_types))
qed

lemma read_ws_binary_handshake_reads:
  assumes "read_ws_binary_handshake E cpu s ws = Some (Ready (Inr p), ws')"
  shows "\<exists>fs f. reads (ws_read_half ws) (ws_inbound ws) (fs @ [f]) (ws_read_half ws') (ws_inbound ws') \<and>
     (\<forall>h \<in> set fs. fr_opcode h \<noteq> OpBinary) \<and> fr_opcode f = OpBinary \<and> p = fr_payload (opened cpu (ws_read_half ws') f)"
  using assms
proof (induction ws rule: measure_induct_rule [where f = ws_unread])
  case (less ws)
  then obtain frame ws1 ws2 where rd: "WebSocket_read_frame E cpu s ws = Some (Ready (Inr frame), ws1)"
    and cont: "if fr_opcode frame = OpBinary then p = fr_payload frame \<and> ws' = ws1
     else ws_read_half ws2 = ws_read_half ws1 \<and> ws_inbound ws2 = ws_inbound ws1 \<and>
       read_ws_binary_handshake E cpu s ws2 = Some (Ready (Inr p), ws')"
    using read_ws_binary_handshake_step by blast
  obtain fs f where f: "reads (ws_read_half ws) (ws_inbound ws) (fs @ [f]) (ws_read_half ws1) (ws_inbound ws1)"
     "\<forall>h \<in> set fs. fr_opcode h \<noteq> OpBinary" "frame = opened cpu (ws_read_half ws1) f"
    using WebSocket_read_frame_reads [OF rd] by blast
  show ?case
  proof (cases "fr_opcode f = OpBinary")
    case True
    with f cont show ?thesis
      by auto
  next
    case False
    with f cont have "\<exists>gs g. reads (ws_read_half ws1) (ws_inbound ws1) (gs @ [g]) (ws_read_half ws') (ws_inbound ws') \<and>
      (\<forall>h \<in> set gs. fr_opcode h \<noteq> OpBinary) \<and> fr_opcode g = OpBinary \<and> p = fr_payload (opened cpu (ws_read_half ws') g)"
      using less.IH [of ws2] WebSocket_read_frame_unread [OF rd] by simp
    then obtain gs g where g: "reads (ws_read_half ws1) (ws_inbound ws1) (gs @ [g]) (ws_read_half ws') (ws_inbound ws')"
      "\<forall>h \<in> set gs. fr_opcode h \<noteq> OpBinary" "fr_opcode g = OpBinary" "p = fr_payload (opened cpu (ws_read_half ws') g)"
      by blast
    with f False reads_append [OF f(1) g(1)] show ?thesis
      by (intro exI [of _ "fs @ f # gs"] exI [of _ g]) auto
  qed
qed

text \<open>
  What the frames of the handshake were: none without v2; else the last one is the first binary message, it
  was not refused, and unless it is an INFO it is deferred to the loop.
\<close>

definition hello :: "cpu \<Rightarrow> bcrypt \<Rightarrow> ServerConfig \<Rightarrow> bool \<Rightarrow> Frame list \<Rightarrow> bytes option \<Rightarrow> bool" where
  "hello cpu bcrypt config is_v2 fs deferred \<longleftrightarrow>
     (if is_v2 then
        fs \<noteq> [] \<and> (\<forall>f \<in> set (butlast fs). fr_opcode f \<noteq> OpBinary) \<and> fr_opcode (last fs) = OpBinary \<and>
        (let p = fr_payload (Frame_unmask cpu (last fs))
         in verdict bcrypt config (parse_wisp_frame p) = None \<and> deferred = (if is_valid_info p then None else Some p))
      else fs = [] \<and> deferred = None \<and> \<not> is_auth_required config)"

lemma send_then_Inr:
  assumes "send_then E cpu s frame r ws = Some (Ready (Inr x), ws')"
  shows "r = Inr x \<and> ws_read_half ws' = ws_read_half ws \<and> ws_inbound ws' = ws_inbound ws"
  using assms by (auto simp: send_then_def dest: WebSocket_write_frame_reads split: option.splits sum.splits)

lemma handshake_reads:
  assumes "handshake E cpu bcrypt s config is_v2 ws = Some (Ready (Inr deferred), ws')"
    and "rh_role (ws_read_half ws) = Server" "rh_auto_apply_mask (ws_read_half ws)"
  shows "\<exists>fs. reads ((ws_read_half ws)\<lparr>rh_writev_threshold := 0\<rparr>) (ws_inbound ws) fs (ws_read_half ws') (ws_inbound ws') \<and>
     hello cpu bcrypt config is_v2 fs deferred \<and> (is_v2 \<or> ws_inbound ws' = ws_inbound ws)"
proof (cases is_v2)
  case False
  with assms(1) send_then_Inr have "\<not> is_auth_required config \<and> deferred = None \<and>
      ws_read_half ws' = (ws_read_half ws)\<lparr>rh_writev_threshold := 0\<rparr> \<and> ws_inbound ws' = ws_inbound ws"
    unfolding handshake_def Let_def by (fastforce split: if_splits)
  with False show ?thesis
    by (intro exI [of _ "[]"]) (simp add: hello_def)
next
  case True
  let ?rh = "(ws_read_half ws)\<lparr>rh_writev_threshold := 0\<rparr>"
  from True assms(1) obtain ws1 p ws2 u where
    info: "WebSocket_write_frame E cpu s (Frame_binary (build_server_info_frame [])) (writev_always ws) = Some (Inr u, ws1)"
    and rd: "read_ws_binary_handshake E cpu s ws1 = Some (Ready (Inr p), ws2)"
    and ff: "first_frame E cpu bcrypt s config p ws2 = Some (Ready (Inr deferred), ws')"
    by (auto simp: handshake_def Let_def split: option.splits sum.splits poll.splits)
  have start: "ws_read_half ws1 = ?rh" "ws_inbound ws1 = ws_inbound ws"
    using WebSocket_write_frame_reads [OF info] by simp_all
  obtain fs f where fs: "reads ?rh (ws_inbound ws) (fs @ [f]) (ws_read_half ws2) (ws_inbound ws2)"
      "\<forall>h \<in> set fs. fr_opcode h \<noteq> OpBinary" "fr_opcode f = OpBinary" "p = fr_payload (opened cpu (ws_read_half ws2) f)"
    using read_ws_binary_handshake_reads [OF rd] unfolding start by blast
  have p: "p = fr_payload (Frame_unmask cpu f)"
    using reads_fields [OF fs(1)] fs(4) assms(2,3) by (auto simp: opened_def)
  have "verdict bcrypt config (parse_wisp_frame p) = None \<and> deferred = (if is_valid_info p then None else Some p) \<and>
      ws_read_half ws' = ws_read_half ws2 \<and> ws_inbound ws' = ws_inbound ws2"
    using ff unfolding first_frame_eq by (auto dest: send_then_Inr split: option.splits)
  with True fs p show ?thesis
    by (intro exI [of _ "fs @ [f]"]) (simp add: hello_def Let_def)
qed

text \<open>With authentication, the first binary message carries verified credentials.\<close>

lemma hello_authorised:
  assumes "hello cpu bcrypt config is_v2 fs deferred" "is_auth_required config"
  shows "is_v2 \<and> deferred = None \<and>
     (\<exists>minor exts ext. parse_wisp_frame (fr_payload (Frame_unmask cpu (last fs))) = Some (Info 0 2 minor exts) \<and>
        find (\<lambda>e. ext_id e = 0x02) exts = Some ext \<and> verify_auth bcrypt (ext_payload ext) config)"
proof -
  let ?p = "fr_payload (Frame_unmask cpu (last fs))"
  from assms have v2: is_v2 and none: "verdict bcrypt config (parse_wisp_frame ?p) = None"
    and d: "deferred = (if is_valid_info ?p then None else Some ?p)"
    by (simp_all add: hello_def Let_def split: if_splits)
  then have valid: "is_valid_info ?p"
    using verdict_other assms(2) by fastforce
  with none assms(2) have "?p ! 5 = 2" "authorised bcrypt config (parse_client_info_extensions ?p)"
    by (auto simp: verdict_info split: if_splits)
  with valid_info_parse [OF valid] v2 d valid show ?thesis
    by (auto simp: authorised_def split: option.splits)
qed

section \<open>A connection that reaches the loop\<close>

text \<open>The reader during the handshake.\<close>

definition handshake_reader :: ReadHalf where
  "handshake_reader = (ReadHalf_after_handshake Server)\<lparr>rh_auto_close := False, rh_writev_threshold := 0\<rparr>"

lemma handshake_reader_simps [simp]: "rh_buffer handshake_reader = []" "rh_role handshake_reader = Server"
  by (simp_all add: handshake_reader_def ReadHalf_after_handshake_def)

lemma frames_then_empty: "frames_then rh fs rh' \<Longrightarrow> rh_buffer rh = [] \<Longrightarrow> fs = [] \<and> rh' = rh"
  by (cases fs) (auto simp: try_parse_steps)

lemma handle_connection_Serving:
  assumes "handle_connection K X peer_addr dns trusted_proxies w = (responses, Serving L)"
  obtains rq rqs cs w' fs deferred rh used unread read_buf rest where "k_requests K = rq # rqs" "acceptable rq"
    "k_arrived K = used @ unread" "frames_then (fed handshake_reader (delivered used)) fs rh"
    "header_get ''sec-websocket-protocol'' (rq_headers rq) = None \<longrightarrow> used = []"
    "hello (x_cpu X) (k_bcrypt K) (x_config X) (header_get ''sec-websocket-protocol'' (rq_headers rq) \<noteq> None) fs deferred"
    "k_downcast K unread = Some (read_buf, rest)"
    "L = (loop_start X cs dns deferred read_buf rh w')\<lparr>l_inbound := rest\<rparr>"
    "cs_client_ip cs = client_ip_of (k_contains K) (x_config X) trusted_proxies (sa_ip peer_addr)
       (capture_headers (k_http K) (if cfg_real_ip_enabled (x_config X) then Some (cfg_real_ip_headers (x_config X)) else None)
         (rq_headers rq))"
proof -
  obtain ur where up: "handle_ws_upgrade (k_http K) (x_config X) (k_nodelay K) (k_requests K) (k_upgraded K) = (responses, Inr ur)"
    using assms by (auto simp: handle_connection_def Let_def split: prod.splits sum.splits)
  obtain rq rqs where rq: "k_requests K = rq # rqs" "acceptable rq"
    and ur: "ur = \<lparr>ur_read = set_auto_close False (ReadHalf_after_handshake Server),
        ur_write = set_writev True (WriteHalf_after_handshake Server),
        ur_is_v2 = (header_get ''sec-websocket-protocol'' (rq_headers rq) \<noteq> None),
        ur_headers = capture_headers (k_http K)
          (if cfg_real_ip_enabled (x_config X) then Some (cfg_real_ip_headers (x_config X)) else None) (rq_headers rq)\<rparr>"
    using handle_ws_upgrade_Inr [OF up] by metis
  define ws0 where "ws0 = \<lparr>ws_read_half = ur_read ur, ws_write_half = ur_write ur, ws_inbound = k_arrived K,
    ws_world = k_responded K responses w\<rparr>"
  let ?cs = "(ConnState_new (x_config X) (net_now (x_net X) w) (sa_ip peer_addr))\<lparr>cs_client_ip :=
    client_ip_of (k_contains K) (x_config X) trusted_proxies (sa_ip peer_addr) (ur_headers ur)\<rparr>"
  obtain deferred ws where hs: "handshake (x_io X) (x_cpu X) (k_bcrypt K) (x_client X) (x_config X) (ur_is_v2 ur) ws0 =
      Some (Ready (Inr deferred), ws)" and srv: "serve_wisp K X ?cs dns deferred ws = Serving L"
    using assms up unfolding handle_connection_def Let_def ws0_def
    by (auto split: option.splits poll.splits sum.splits)
  obtain read_buf rest w' where srv': "k_downcast K (ws_inbound ws) = Some (read_buf, rest)"
      "L = (loop_start X ?cs dns deferred read_buf (ws_read_half ws) w')\<lparr>l_inbound := rest\<rparr>"
    using srv by (auto simp: serve_wisp_def Let_def split: option.splits)
  have ws0: "(ws_read_half ws0)\<lparr>rh_writev_threshold := 0\<rparr> = handshake_reader" "ws_inbound ws0 = k_arrived K"
    "rh_role (ws_read_half ws0) = Server" "rh_auto_apply_mask (ws_read_half ws0)"
    by (simp_all add: ws0_def ur handshake_reader_def ReadHalf_after_handshake_def)
  obtain fs where rd: "reads handshake_reader (k_arrived K) fs (ws_read_half ws) (ws_inbound ws)"
      and hello: "hello (x_cpu X) (k_bcrypt K) (x_config X) (ur_is_v2 ur) fs deferred"
      and v1: "ur_is_v2 ur \<or> ws_inbound ws = k_arrived K"
    using handshake_reads [OF hs ws0(3,4)] unfolding ws0(1,2) by blast
  obtain used where used: "k_arrived K = used @ ws_inbound ws" "frames_then (fed handshake_reader (delivered used)) fs (ws_read_half ws)"
    using rd by (auto simp: reads_def)
  with v1 have "header_get ''sec-websocket-protocol'' (rq_headers rq) = None \<longrightarrow> used = []"
    by (auto simp: ur)
  from that [OF rq used this _ srv'] hello show ?thesis
    by (simp add: ur)
qed

lemma loop_start_inbound [simp]: "l_inbound (loop_start X cs dns deferred read_buf rh w) = []"
  by (simp add: loop_start_def split: prod.split)

lemma reachable_arrived: "reachable X L \<Longrightarrow> reachable X (L\<lparr>l_inbound := l_inbound L @ cs\<rparr>)"
proof (induction cs rule: rev_induct)
  case (snoc c cs)
  from reachable.step [OF snoc.IH [OF snoc.prems] conn_step.arrive, of c] show ?case
    by simp
qed simp

lemma handle_connection_reachable:
  assumes "handle_connection K X peer_addr dns trusted_proxies w = (responses, Serving L)"
  shows "reachable X L"
  using assms
proof (rule handle_connection_Serving, goal_cases)
  case (1 rq rqs cs w' fs deferred rh used unread read_buf rest)
  with reachable_arrived [OF reachable.start [of X cs dns deferred read_buf rh w'], of rest] show ?case
    by simp
qed

text \<open>
  The documented contract of \<^verbatim>\<open>Upgraded::downcast\<close>: \<^verbatim>\<open>read_buf\<close> has the bytes that were read from the socket and not yet
  handed out, so they come before those the socket still delivers.
\<close>

definition downcast_ok :: "(chunks \<Rightarrow> (bytes \<times> chunks) option) \<Rightarrow> bool" where
  "downcast_ok downcast \<longleftrightarrow>
     (\<forall>cs read_buf rest. downcast cs = Some (read_buf, rest) \<longrightarrow> read_buf @ delivered rest = delivered cs)"

section \<open>Small connections\<close>

text \<open>
  A client whose request is the given one and whose bytes then arrive in the given chunks, the first of which
  hyper has already read.
\<close>

definition demo_link :: "Request \<Rightarrow> chunks \<Rightarrow> (script_world, unit) link" where
  "demo_link rq arrived =
     \<lparr>k_http = sample_http, k_bcrypt = (\<lambda>_ _. None), k_contains = (\<lambda>_ _. False), k_nodelay = Inr (), k_requests = [rq],
      k_responded = (\<lambda>_ w. w), k_upgraded = Inr (), k_arrived = arrived,
      k_downcast = (\<lambda>cs. Some (case cs of Inr bs # rest \<Rightarrow> if cs = arrived then (bs, rest) else ([], cs) | _ \<Rightarrow> ([], cs))),
      k_zerocopy = (\<lambda>w. w), k_quickack = (\<lambda>w. w), k_core_ids = None\<rparr>"

lemma demo_downcast: "downcast_ok (k_downcast (demo_link rq arrived))"
  by (auto simp: downcast_ok_def demo_link_def split: list.splits sum.splits if_splits)

definition link_ctx :: "ServerConfig \<Rightarrow> script_world ctx" where
  "link_ctx config = demo_ctx\<lparr>x_config := config\<rparr>"

definition demo_handle :: "ServerConfig \<Rightarrow> Request \<Rightarrow> chunks \<Rightarrow> Response list \<times> script_world outcome" where
  "demo_handle config rq arrived =
     handle_connection (demo_link rq arrived) (link_ctx config) \<lparr>sa_ip = V4 (Ipv4 1 2 3 4), sa_port = 9\<rparr>
       (DnsCache_new config) [] (script_start [])"

lemma demo_upgrade:
  assumes "acceptable rq"
  shows "\<exists>responses ur. handle_ws_upgrade sample_http config (Inr ()) [rq] (Inr ()) = (responses, Inr ur)"
proof -
  obtain rs up where s: "service sample_http (if cfg_real_ip_enabled config then Some (cfg_real_ip_headers config) else None) True rq = (rs, up)"
    by fastforce
  with service_acceptable(5) [OF assms s] show ?thesis
    by (simp add: handle_ws_upgrade_def serve_connection_def)
qed

lemma demo_serving:
  assumes "acceptable rq"
    and "\<And>ws. ws_read_half ws = set_auto_close False (ReadHalf_after_handshake Server) \<Longrightarrow>
      ws_write_half ws = set_writev True (WriteHalf_after_handshake Server) \<Longrightarrow> ws_inbound ws = arrived \<Longrightarrow>
      \<exists>ws'. handshake sure_env plain_cpu (\<lambda>_ _. None) 1 config
        (header_get ''sec-websocket-protocol'' (rq_headers rq) \<noteq> None) ws = Some (Ready (Inr d), ws')"
  shows "\<exists>responses cs read_buf rh w rest. demo_handle config rq arrived =
    (responses, Serving ((loop_start (link_ctx config) cs (DnsCache_new config) d read_buf rh w)\<lparr>l_inbound := rest\<rparr>))"
proof -
  obtain responses ur where up: "handle_ws_upgrade sample_http config (Inr ()) [rq] (Inr ()) = (responses, Inr ur)"
    using demo_upgrade [OF assms(1)] by blast
  define ws0 where "ws0 = \<lparr>ws_read_half = ur_read ur, ws_write_half = ur_write ur, ws_inbound = arrived, ws_world = script_start []\<rparr>"
  have ur: "ur_read ur = set_auto_close False (ReadHalf_after_handshake Server)"
      "ur_write ur = set_writev True (WriteHalf_after_handshake Server)"
      "ur_is_v2 ur = (header_get ''sec-websocket-protocol'' (rq_headers rq) \<noteq> None)"
    by (rule handle_ws_upgrade_Inr [OF up], simp)+
  then obtain ws' where hs: "handshake sure_env plain_cpu (\<lambda>_ _. None) 1 config (ur_is_v2 ur) ws0 = Some (Ready (Inr d), ws')"
    using assms(2) [of ws0] by (auto simp: ws0_def)
  have ctx: "x_config (link_ctx config) = config" "x_io (link_ctx config) = sure_env" "x_cpu (link_ctx config) = plain_cpu"
      "x_client (link_ctx config) = 1"
    by (simp_all add: link_ctx_def demo_ctx_def demo_net_def)
  show ?thesis
    unfolding demo_handle_def handle_connection_def Let_def ctx using up hs
    by (simp add: demo_link_def ws0_def serve_wisp_def split: prod.split) blast
qed

text \<open>The first binary message of a v2 client arrives in two pieces.\<close>

definition in_pieces :: "bytes \<Rightarrow> chunks" where
  "in_pieces p = [Inr (take 1 (client_binary p)), Inr (drop 1 (client_binary p))]"

lemma in_pieces: "live (in_pieces p)" "delivered (in_pieces p) = client_binary p"
proof -
  show "live (in_pieces p)"
    by (simp add: in_pieces_def client_binary_def ws_head_def)
  show "delivered (in_pieces p) = client_binary p"
    unfolding in_pieces_def by (simp del: One_nat_def)
qed

lemma demo_serving_v2:
  assumes "verdict (\<lambda>_ _. None) config (parse_wisp_frame p) = None" "length p \<le> 125"
  shows "\<exists>responses cs read_buf rh w rest. demo_handle config sample_request (in_pieces p) =
    (responses, Serving ((loop_start (link_ctx config) cs (DnsCache_new config)
      (if is_valid_info p then None else Some p) read_buf rh w)\<lparr>l_inbound := rest\<rparr>))"
proof (rule demo_serving [OF sample_acceptable(1)], goal_cases)
  case (1 ws)
  have v2: "header_get ''sec-websocket-protocol'' (rq_headers sample_request) \<noteq> None \<longleftrightarrow> True"
    using sample_acceptable by blast
  show ?case
    unfolding v2 by (rule accepted_handshake [where key = "[0, 0, 0, 0]"])
      (use 1 assms in \<open>simp_all add: in_pieces client_binary_def [symmetric] ReadHalf_after_handshake_def WriteHalf_after_handshake_def\<close>)
qed

section \<open>Properties\<close>

text \<open>C3. When authentication is required no connection is served without it.  If a connection reaches the loop, its
  first request was an acceptable upgrade that asked for a subprotocol, and the bytes the client has sent start with
  whole frames of which the first binary one is, unmasked, an INFO on the control stream, of the server's
  major version, whose first password extension carries credentials that verify; and the loop starts with no
  stream, no task and nothing queued.\<close>

theorem connection_auth_gate:
  assumes "handle_connection K X peer_addr dns trusted_proxies w = (responses, Serving L)"
    and "is_auth_required (x_config X)"
  shows "\<exists>rq rqs used unread fs f rest minor exts ext cs w'.
     k_requests K = rq # rqs \<and> acceptable rq \<and> header_get ''sec-websocket-protocol'' (rq_headers rq) \<noteq> None \<and>
     k_arrived K = used @ unread \<and> frames_then (fed handshake_reader (delivered used)) (fs @ [f]) rest \<and>
     (\<forall>g \<in> set fs. fr_opcode g \<noteq> OpBinary) \<and> fr_opcode f = OpBinary \<and>
     parse_wisp_frame (fr_payload (Frame_unmask (x_cpu X) f)) = Some (Info 0 2 minor exts) \<and>
     find (\<lambda>e. ext_id e = 0x02) exts = Some ext \<and> verify_auth (k_bcrypt K) (ext_payload ext) (x_config X) \<and>
     l_phase L = Inner \<and> l_conn L = conn_new X cs dns w'"
proof -
  from assms(1) obtain rq rqs cs w' fs deferred rh used unread read_buf rest where rq: "k_requests K = rq # rqs" "acceptable rq"
    and used: "k_arrived K = used @ unread" "frames_then (fed handshake_reader (delivered used)) fs rh"
    and hello: "hello (x_cpu X) (k_bcrypt K) (x_config X) (header_get ''sec-websocket-protocol'' (rq_headers rq) \<noteq> None) fs deferred"
    and L: "L = (loop_start X cs dns deferred read_buf rh w')\<lparr>l_inbound := rest\<rparr>"
    by (rule handle_connection_Serving)
  have auth: "header_get ''sec-websocket-protocol'' (rq_headers rq) \<noteq> None" "deferred = None"
    using hello_authorised [OF hello assms(2)] by blast+
  with hello have fs: "fs = butlast fs @ [last fs]" "\<forall>g \<in> set (butlast fs). fr_opcode g \<noteq> OpBinary" "fr_opcode (last fs) = OpBinary"
    by (simp_all add: hello_def Let_def)
  have "l_phase L = Inner" "l_conn L = conn_new X cs dns w'"
    by (simp_all add: L auth(2) loop_start_def serve_deferred_def)
  with rq used fs auth(1) hello_authorised [OF hello assms(2)] show ?thesis
    by metis
qed

theorem connection_auth_gate_witness:
  "\<exists>responses L (exts :: ExtensionEntry list) ext.
     demo_handle guarded_config sample_request (in_pieces info_frame) = (responses, Serving L) \<and>
     find (\<lambda>e. ext_id e = 0x02) exts = Some ext \<and> verify_auth (\<lambda>_ _. None) (ext_payload ext) guarded_config \<and>
     c_tasks (l_conn L) = []"
proof -
  have "length info_frame \<le> 125"
    by (simp add: info_frame_def)
  then obtain responses L where run: "demo_handle guarded_config sample_request (in_pieces info_frame) = (responses, Serving L)"
    using demo_serving_v2 [OF info_accepted(1)] by blast
  have "is_auth_required (x_config (link_ctx guarded_config))"
    by (simp add: is_auth_required_def guarded_config_def link_ctx_def)
  from connection_auth_gate [OF run [unfolded demo_handle_def] this] obtain exts :: "ExtensionEntry list" and ext cs w' where
    "find (\<lambda>e. ext_id e = 0x02) exts = Some ext" "verify_auth (\<lambda>_ _. None) (ext_payload ext) guarded_config"
    "l_conn L = conn_new (link_ctx guarded_config) cs (DnsCache_new guarded_config) w'"
    unfolding demo_link_def link_ctx_def by auto
  with run show ?thesis
    by (metis conn.select_convs(8) conn_new_def)
qed

text \<open>C18. What becomes of the client's bytes between the upgrade and the loop.  If a connection reaches the loop, the bytes
  the client has sent are the frames of the handshake (none without v2, else the frames up to the first
  binary one), then the bytes that the reader had buffered beyond them, then those that hyper still held, then those
  that still arrive.  The loop starts with all of the latter, none lost or repeated, but with hyper's bytes in
  front of the reader's: so they are in the order of the client if one of the two is empty, as the reader's
  always is without v2, and out of order else.  The first binary frame, unless it is an INFO, is what the
  loop serves first; and the loop starts in one of the states of which the other properties speak, for the
  real address of the client.\<close>

theorem connection_handover:
  assumes "handle_connection K X peer_addr dns trusted_proxies w = (responses, Serving L)"
    and "downcast_ok (k_downcast K)"
  shows "\<exists>rq rqs used unread fs rest held deferred cs w'.
     k_requests K = rq # rqs \<and> k_arrived K = used @ unread \<and>
     frames_then (fed handshake_reader (delivered used)) fs rest \<and>
     hello (x_cpu X) (k_bcrypt K) (x_config X) (header_get ''sec-websocket-protocol'' (rq_headers rq) \<noteq> None) fs deferred \<and>
     delivered unread = held @ delivered (l_inbound L) \<and> rh_buffer (l_reader L) = held @ rh_buffer rest \<and>
     (header_get ''sec-websocket-protocol'' (rq_headers rq) = None \<longrightarrow> rh_buffer rest = []) \<and>
     (rh_buffer rest @ delivered unread = rh_buffer (l_reader L) @ delivered (l_inbound L) \<longleftrightarrow>
        rh_buffer rest @ held = held @ rh_buffer rest) \<and>
     (l_phase L, l_conn L) = serve_deferred X deferred (conn_new X cs dns w') \<and>
     cs_client_ip cs = client_ip_of (k_contains K) (x_config X) trusted_proxies (sa_ip peer_addr)
       (capture_headers (k_http K) (if cfg_real_ip_enabled (x_config X) then Some (cfg_real_ip_headers (x_config X)) else None)
         (rq_headers rq)) \<and>
     reachable X L"
proof -
  from assms(1) obtain rq rqs cs w' fs deferred rh used unread read_buf rest where
    rq: "k_requests K = rq # rqs" "acceptable rq"
    and used: "k_arrived K = used @ unread" "frames_then (fed handshake_reader (delivered used)) fs rh"
    and v1: "header_get ''sec-websocket-protocol'' (rq_headers rq) = None \<longrightarrow> used = []"
    and hello: "hello (x_cpu X) (k_bcrypt K) (x_config X) (header_get ''sec-websocket-protocol'' (rq_headers rq) \<noteq> None) fs deferred"
    and dc: "k_downcast K unread = Some (read_buf, rest)"
    and L: "L = (loop_start X cs dns deferred read_buf rh w')\<lparr>l_inbound := rest\<rparr>"
    and ip: "cs_client_ip cs = client_ip_of (k_contains K) (x_config X) trusted_proxies (sa_ip peer_addr)
       (capture_headers (k_http K) (if cfg_real_ip_enabled (x_config X) then Some (cfg_real_ip_headers (x_config X)) else None)
         (rq_headers rq))"
    by (rule handle_connection_Serving)
  have buf: "rh_buffer (l_reader L) = read_buf @ rh_buffer rh" "l_inbound L = rest"
    by (simp_all add: L loop_start_def loop_reader_def take_read_half_def prepend_bytes_def Let_def split: prod.split)
  have split: "delivered unread = read_buf @ delivered rest"
    using assms(2) dc by (simp add: downcast_ok_def)
  have "header_get ''sec-websocket-protocol'' (rq_headers rq) = None \<longrightarrow> rh_buffer rh = []"
    using v1 frames_then_empty [OF used(2)] by auto
  moreover have "rh_buffer rh @ delivered unread = rh_buffer (l_reader L) @ delivered (l_inbound L) \<longleftrightarrow>
      rh_buffer rh @ read_buf = read_buf @ rh_buffer rh"
    unfolding buf split by (simp flip: append_assoc)
  moreover have "(l_phase L, l_conn L) = serve_deferred X deferred (conn_new X cs dns w')"
    by (simp add: L loop_start_def split: prod.split)
  moreover have "reachable X L"
    using assms(1) by (rule handle_connection_reachable)
  ultimately show ?thesis
    using rq(1) used hello ip buf(1) split unfolding buf(2)
    by (intro exI [of _ rq] exI [of _ rqs] exI [of _ used] exI [of _ unread] exI [of _ fs] exI [of _ rh] exI [of _ read_buf]
        exI [of _ deferred] exI [of _ cs] exI [of _ w'] conjI) assumption+
qed

text \<open>A client without a subprotocol, of whose bytes hyper has read some.\<close>

definition plain_request :: Request where
  "plain_request = sample_request\<lparr>rq_headers := butlast (rq_headers sample_request)\<rparr>"

lemma plain_acceptable: "acceptable plain_request" "header_get ''sec-websocket-protocol'' (rq_headers plain_request) = None"
  by code_simp+

theorem connection_handover_witness:
  "\<exists>responses L. demo_handle ServerConfig_default plain_request [Inr [1, 2], Inr [3]] = (responses, Serving L) \<and>
     rh_buffer (l_reader L) @ delivered (l_inbound L) = [1, 2, 3] \<and> reachable (link_ctx ServerConfig_default) L"
proof -
  have "\<exists>responses cs read_buf rh w rest. demo_handle ServerConfig_default plain_request [Inr [1, 2], Inr [3]] =
      (responses, Serving ((loop_start (link_ctx ServerConfig_default) cs (DnsCache_new ServerConfig_default) None read_buf rh w)
        \<lparr>l_inbound := rest\<rparr>))"
  proof (rule demo_serving [OF plain_acceptable(1)], goal_cases)
    case (1 ws)
    have "\<not> is_auth_required ServerConfig_default"
      by (simp add: is_auth_required_def ServerConfig_default_def)
    moreover obtain ws' where "WebSocket_write_frame sure_env plain_cpu 1
        (Frame_binary (build_initial_continue_frame (cfg_buffer_size ServerConfig_default))) (writev_always ws) = Some (Inr (), ws')"
      using sure_write [of _ "writev_always ws"] 1 by (force simp: Frame_binary_def WriteHalf_after_handshake_def)
    ultimately show ?case
      by (simp add: plain_acceptable handshake_def Let_def send_then_def del: writev_always_def)
  qed
  then obtain responses L where run: "demo_handle ServerConfig_default plain_request [Inr [1, 2], Inr [3]] = (responses, Serving L)"
    by blast
  have ctx: "x_config (link_ctx ServerConfig_default) = ServerConfig_default" "x_cpu (link_ctx ServerConfig_default) = plain_cpu"
    by (simp_all add: link_ctx_def demo_ctx_def)
  from connection_handover [OF run [unfolded demo_handle_def] demo_downcast] obtain used unread fs rest held where
    arrived: "used @ unread = [Inr [1, 2], Inr [3]]" and frames: "frames_then (fed handshake_reader (delivered used)) fs rest"
    and rest: "rh_buffer rest = []" "delivered unread = held @ delivered (l_inbound L)" "rh_buffer (l_reader L) = held @ rh_buffer rest"
    and hello: "fs = []" and reach: "reachable (link_ctx ServerConfig_default) L"
    unfolding ctx by (auto simp: demo_link_def plain_acceptable hello_def)
  have "delivered used = []"
    using frames rest(1) hello by (auto dest: arg_cong [where f = rh_buffer])
  moreover have "delivered used @ delivered unread = [1, 2, 3]"
    using arrived by (metis append.simps delivered_append delivered_simps)
  ultimately show ?thesis
    using run rest reach by auto
qed

end
