(* ===== verification/Server.thy ===== *)
theory Server
  imports Accept Connection
begin

text \<open>
  The accept loop of a worker joined with its connections, \<open>accept_loop\<close> of \<^verbatim>\<open>src/server/mod.rs\<close>: what a worker
  sets up before it accepts, and the task it spawns for an accepted socket.
\<close>

text \<open>What the connections of one worker share, and its start.\<close>

record 'n shared =
  sh_config :: ServerConfig
  sh_dns_cache :: DnsCache
  sh_trusted_proxies :: "'n list"

definition accept_start ::
  "(string \<Rightarrow> 'n option) \<Rightarrow> (IpAddr \<Rightarrow> nat \<Rightarrow> 'n option) \<Rightarrow> ServerConfig \<Rightarrow> 'n shared \<times> worker" where
  "accept_start parse_net net_new config =
     (\<lparr>sh_config = config, sh_dns_cache = DnsCache_new config,
       sh_trusted_proxies = parse_trusted_proxies parse_net net_new (cfg_real_ip_trusted_proxies config)\<rparr>, worker_new)"

text \<open>The context of a connection: the machine, with the shared configuration and the limit of frames per turn.\<close>

definition conn_ctx :: "('w, 'n) link \<Rightarrow> 'n shared \<Rightarrow> 'w ctx \<Rightarrow> 'w ctx" where
  "conn_ctx K sh X = X\<lparr>x_config := sh_config sh, x_yield_limit := yield_limit (k_core_ids K)\<rparr>"

text \<open>One accepted socket: \<^const>\<open>None\<close> when it is dropped, else how far its task comes.\<close>

definition accept_client ::
  "('w, 'n) link \<Rightarrow> 'w ctx \<Rightarrow> 'n shared \<Rightarrow> SocketAddr \<Rightarrow> Instant \<Rightarrow> worker \<Rightarrow> 'w \<Rightarrow>
   (Response list \<times> 'w outcome) option \<times> worker" where
  "accept_client K X sh peer_addr now wk w =
     (case accept_conn (sh_config sh) (sa_ip peer_addr) now wk of
        (False, wk') \<Rightarrow> (None, wk')
      | (True, wk') \<Rightarrow>
          (Some (handle_connection K (conn_ctx K sh X) peer_addr (sh_dns_cache sh) (sh_trusted_proxies sh) (k_quickack K w)), wk'))"

lemma accept_client_reachable:
  assumes "accept_client K X sh peer_addr now wk w = (Some (responses, Serving L0), wk')"
    and "(conn_step (conn_ctx K sh X))\<^sup>*\<^sup>* L0 L"
  shows "reachable (conn_ctx K sh X) L"
proof -
  from assms(1) have "handle_connection K (conn_ctx K sh X) peer_addr (sh_dns_cache sh) (sh_trusted_proxies sh)
      (k_quickack K w) = (responses, Serving L0)"
    by (auto simp: accept_client_def split: prod.splits bool.splits)
  then have "reachable (conn_ctx K sh X) L0"
    by (rule handle_connection_reachable)
  with assms(2) show ?thesis
    by (induction rule: rtranclp_induct) (auto intro: reachable.step)
qed

end
