(* ===== verification/Conn_Answers.thy ===== *)
theory Conn_Answers
  imports Conn_Theorems
begin

text \<open>
  What the handlers of a connection answer: every outcome of a CONNECT, the credits that DATA packets earn, the
  fairness of the loop, and a connection attempt that outlives the stream it was made for.
\<close>

section \<open>CONNECT\<close>

text \<open>
  What a CONNECT is to be answered with, by the policy: a CLOSE to the client, a failure event for the loop, an attempt
  to connect to an address, a UDP relay to one, or the panic of a resolution that finds the clock overflowing.
\<close>

datatype answer = Refuse CloseReason | Fail CloseReason | Attempt SocketAddr | Relay sock SocketAddr | Crash

text \<open>What resolution makes of a host: an address that the policy allows, or the reason why there is none.\<close>

definition destination ::
  "'w ctx \<Rightarrow> ConnectPayload \<Rightarrow> DnsCache \<times> 'w \<Rightarrow> ((CloseReason + SocketAddr) \<times> DnsCache \<times> 'w) option" where
  "destination X connect dw =
     map_option (\<lambda>(r, dw').
       (case r of
          Inl _ \<Rightarrow> Inl Unreachable
        | Inr addr \<Rightarrow> if is_ip_blocked (sa_ip addr) (x_config X) then Inl Blocked else Inr addr, dw'))
       (dns_resolve_no_hold (net_now (x_net X)) (net_lookup_host (x_net X)) (cp_hostname connect) (cp_port connect) dw)"

definition full :: "StreamTable \<Rightarrow> bool" where
  "full st \<longleftrightarrow> st_max_streams st \<noteq> 0 \<and> st_max_streams st \<le> StreamTable_len st"

definition connect_answer :: "'w ctx \<Rightarrow> u32 \<Rightarrow> ConnectPayload \<Rightarrow> 'w conn \<Rightarrow> answer \<times> DnsCache \<times> 'w" where
  "connect_answer X sid connect s =
     (if sid = STREAM_ID_CONTROL \<or> StreamTable_get_mut sid (c_table s) \<noteq> None \<or> cp_port connect = 0
      then (Refuse InvalidInfo, c_dns s, c_world s)
      else if is_hostname_blocked (x_config X) (cp_hostname connect) \<or> is_port_blocked (x_config X) (cp_port connect) \<or>
          is_hostname_blocked_pre_resolution (cp_hostname connect) (x_config X)
      then (Refuse Blocked, c_dns s, c_world s)
      else case cp_stream_type connect of
        Tcp \<Rightarrow>
          if full (c_table s) then (Refuse Throttled, c_dns s, c_world s)
          else (case destination X connect (c_dns s, c_world s) of
                  None \<Rightarrow> (Crash, c_dns s, c_world s)
                | Some (Inl reason, dw) \<Rightarrow> (Fail reason, dw)
                | Some (Inr addr, dw) \<Rightarrow> (Attempt addr, dw))
      | Udp \<Rightarrow>
          (case ev_udp_bind (x_io X) (c_world s) of
             (Inl _, w) \<Rightarrow> (Refuse NetworkError, c_dns s, w)
           | (Inr sock, w) \<Rightarrow>
               (case destination X connect (c_dns s, w) of
                  None \<Rightarrow> (Crash, c_dns s, w)
                | Some (Inl reason, dw) \<Rightarrow> (Refuse reason, dw)
                | Some (Inr addr, dw) \<Rightarrow> (if full (c_table s) then Refuse Throttled else Relay sock addr, dw))))"

text \<open>The table with one more stream.\<close>

definition opened_as :: "u32 \<Rightarrow> ProxyStream \<Rightarrow> StreamTable \<Rightarrow> StreamTable \<Rightarrow> bool" where
  "opened_as sid st t t' \<longleftrightarrow> st_max_streams t' = st_max_streams t \<and> StreamTable_len t' = StreamTable_len t + 1 \<and>
     (\<forall>k. StreamTable_get_mut k t' = (if k = sid then Some st else StreamTable_get_mut k t))"

text \<open>
  The effect of each answer on the connection; whatever is not mentioned stays as it is.  A failure event for which
  the connection's own control channel has no room blocks the handler for ever, with the stream in the table
  and nothing that will tell the loop about it.
\<close>

fun answered :: "'w ctx \<Rightarrow> u32 \<Rightarrow> 'w conn \<Rightarrow> answer \<times> DnsCache \<times> 'w \<Rightarrow> (halt, 'w) halting + 'w conn \<Rightarrow> bool" where
  "answered X sid s (Refuse reason, dns, w) r \<longleftrightarrow>
     (\<exists>cells. (cells = c_cells s \<or> cells = c_cells s @ [False]) \<and>
        r = Inr (send_close X sid reason (s\<lparr>c_cells := cells, c_dns := dns, c_world := w\<rparr>)))"
| "answered X sid s (Fail reason, dns, w) r \<longleftrightarrow>
     (\<exists>t. opened_as sid (ProxyConnecting \<lparr>conn_early_data = [], conn_cancel = length (c_cells s)\<rparr>) (c_table s) t \<and>
        (let s' = s\<lparr>c_cells := c_cells s @ [False], c_table := t, c_dns := dns, c_world := w\<rparr>
         in r = (if length (c_control s) < CONTROL_CAPACITY
                 then Inr (s'\<lparr>c_control := c_control s @ [TcpConnectFailed sid reason]\<rparr>) else Inl (Blocked_Forever, s'))))"
| "answered X sid s (Attempt addr, dns, w) r \<longleftrightarrow>
     (\<exists>t. opened_as sid (ProxyConnecting \<lparr>conn_early_data = [], conn_cancel = length (c_cells s)\<rparr>) (c_table s) t \<and>
        r = Inr (s\<lparr>c_cells := c_cells s @ [False], c_table := t, c_dns := dns, c_world := w,
                   c_tasks := c_tasks s @ [ConnectTask sid addr (length (c_cells s))
                     \<lparr>co_tcp_nodelay = cfg_tcp_nodelay (x_config X), co_buffers_upgraded = (StreamTable_len (c_table s) \<noteq> 0),
                      co_tcp_keepalive_secs = cfg_tcp_keepalive_secs (x_config X)\<rparr>]\<rparr>))"
| "answered X sid s (Relay sock addr, dns, w) r \<longleftrightarrow>
     (\<exists>t. opened_as sid (ProxyUdp (UdpProxyStream_new sock addr (length (c_cells s)))) (c_table s) t \<and>
        r = Inr (s\<lparr>c_cells := c_cells s @ [False], c_table := t, c_dns := dns, c_world := w,
                   c_tasks := c_tasks s @ [UdpReader sid sock (length (c_cells s))]\<rparr>))"
| "answered X sid s (Crash, dns, w) r \<longleftrightarrow> (\<exists>s'. r = Inl (Panicked, s'))"

lemma insert_free:
  assumes "StreamTable_get_mut sid st = None"
  shows "fst (StreamTable_insert sid v st) \<longleftrightarrow> \<not> full st" "full st \<Longrightarrow> snd (StreamTable_insert sid v st) = st"
    "\<not> full st \<Longrightarrow> opened_as sid v st (snd (StreamTable_insert sid v st))"
proof -
  show ok: "fst (StreamTable_insert sid v st) \<longleftrightarrow> \<not> full st"
    using assms by (auto simp: StreamTable_insert_def StreamTable_get_mut_def StreamTable_len_def full_def Let_def resize_none_nth split: if_splits)
  show "full st \<Longrightarrow> snd (StreamTable_insert sid v st) = st"
    by (simp add: StreamTable_insert_def full_def StreamTable_len_def)
  assume "\<not> full st"
  with ok have "fst (StreamTable_insert sid v st)"
    by simp
  then show "opened_as sid v st (snd (StreamTable_insert sid v st))"
    by (auto simp: opened_as_def get_insert) (auto simp: StreamTable_insert_def StreamTable_len_def Let_def split: if_splits)
qed

lemma refuse_at_once: "answered X sid s (Refuse reason, c_dns s, c_world s) (Inr (send_close X sid reason s))"
  by (auto intro: exI [of _ "c_cells s"])

lemma tcp_connect_answered:
  assumes "StreamTable_get_mut sid (c_table s) = None" "cfg_allow_direct_ip (x_config X) \<or> \<not> is_raw_ip (cp_hostname connect)"
    and m: "m \<longleftrightarrow> StreamTable_len (c_table s) \<noteq> 0"
  shows "answered X sid s
    (if full (c_table s) then (Refuse Throttled, c_dns s, c_world s)
     else (case destination X connect (c_dns s, c_world s) of
             None \<Rightarrow> (Crash, c_dns s, c_world s)
           | Some (Inl reason, dw) \<Rightarrow> (Fail reason, dw)
           | Some (Inr addr, dw) \<Rightarrow> (Attempt addr, dw)))
    (handle_tcp_connect X sid connect m s)"
proof -
  let ?st = "ProxyConnecting \<lparr>conn_early_data = [], conn_cancel = length (c_cells s)\<rparr>"
  let ?t = "snd (StreamTable_insert sid ?st (c_table s))"
  let ?s1 = "s\<lparr>c_cells := c_cells s @ [False], c_table := ?t\<rparr>"
  have new: "ConnectingStream_new (c_cells s) = (\<lparr>conn_early_data = [], conn_cancel = length (c_cells s)\<rparr>, c_cells s @ [False])"
    by (simp add: ConnectingStream_new_def CancelFlag_new_def)
  note unfolded = handle_tcp_connect_def [of X sid connect m s,
      unfolded Let_def new prod.case ConnectingStream.simps split_beta]
  note ins = insert_free [OF assms(1), of ?st]
  show ?thesis
  proof (cases "full (c_table s)")
    case True
    with ins(1,2) show ?thesis
      by (auto simp: unfolded intro!: exI [of _ "c_cells s @ [False]"] arg_cong [where f = "send_close X sid Throttled"])
  next
    case False
    note opened = ins(3) [OF False]
    obtain res where res: "dns_resolve_no_hold (net_now (x_net X)) (net_lookup_host (x_net X)) (cp_hostname connect)
        (cp_port connect) (c_dns s, c_world s) = res"
      by blast
    have failed: "answered X sid s (Fail reason, dns, w) (self_send (TcpConnectFailed sid reason) (?s1\<lparr>c_dns := dns, c_world := w\<rparr>))"
      for reason dns w
      using opened by (auto simp: self_send_def Let_def intro!: exI [of _ ?t])
    show ?thesis
    proof (cases res)
      case None
      with False ins(1) res show ?thesis
        by (simp add: unfolded destination_def)
    next
      case (Some q)
      obtain r dns w where q: "q = (r, dns, w)"
        by (cases q)
      show ?thesis
      proof (cases r)
        case (Inl e)
        with False ins(1) res Some q failed [of Unreachable dns w] show ?thesis
          by (simp add: unfolded destination_def del: answered.simps)
      next
        case (Inr addr)
        with False ins(1) res Some q assms(2) opened failed [of Blocked dns w] show ?thesis
          unfolding unfolded by (auto simp: destination_def spawn_def m simp del: answered.simps(2))
      qed
    qed
  qed
qed

lemma udp_connect_answered:
  assumes "StreamTable_get_mut sid (c_table s) = None"
  shows "answered X sid s
    (case ev_udp_bind (x_io X) (c_world s) of
       (Inl _, w) \<Rightarrow> (Refuse NetworkError, c_dns s, w)
     | (Inr sock, w) \<Rightarrow>
         (case destination X connect (c_dns s, w) of
            None \<Rightarrow> (Crash, c_dns s, w)
          | Some (Inl reason, dw) \<Rightarrow> (Refuse reason, dw)
          | Some (Inr addr, dw) \<Rightarrow> (if full (c_table s) then Refuse Throttled else Relay sock addr, dw)))
    (handle_udp_connect X sid connect s)"
proof -
  have refused: "answered X sid s (Refuse reason, dns, w) (Inr (send_close X sid reason (s\<lparr>c_dns := dns, c_world := w\<rparr>)))" for reason dns w
    by (auto intro!: exI [of _ "c_cells s"] arg_cong [where f = "send_close X sid reason"])
  have refused': "answered X sid s (Refuse reason, c_dns s, w) (Inr (send_close X sid reason (s\<lparr>c_world := w\<rparr>)))" for reason w
    using refused [of reason "c_dns s" w] by simp
  obtain b w where bind: "ev_udp_bind (x_io X) (c_world s) = (b, w)"
    by fastforce
  show ?thesis
  proof (cases b)
    case (Inl e)
    with bind refused' show ?thesis
      by (simp add: handle_udp_connect_def del: answered.simps)
  next
    case (Inr sock)
    obtain res where res: "dns_resolve_no_hold (net_now (x_net X)) (net_lookup_host (x_net X)) (cp_hostname connect)
        (cp_port connect) (c_dns s, w) = res"
      by blast
    show ?thesis
    proof (cases res)
      case None
      with bind Inr res show ?thesis
        by (simp add: handle_udp_connect_def destination_def)
    next
      case (Some q)
      obtain r dns v where q: "q = (r, dns, v)"
        by (cases q)
      show ?thesis
      proof (cases r)
        case (Inl e)
        with bind \<open>b = Inr sock\<close> res Some q refused show ?thesis
          by (simp add: handle_udp_connect_def destination_def del: answered.simps)
      next
        case (Inr addr)
        note ins = insert_free [OF assms, of "ProxyUdp (UdpProxyStream_new sock addr (length (c_cells s)))"]
        show ?thesis
        proof (cases "is_ip_blocked (sa_ip addr) (x_config X)")
          case True
          with bind \<open>b = Inr sock\<close> res Some q Inr refused show ?thesis
            by (simp add: handle_udp_connect_def destination_def del: answered.simps)
        next
          case False
          with bind \<open>b = Inr sock\<close> res Some q Inr ins show ?thesis
            by (cases "full (c_table s)")
              (auto simp: handle_udp_connect_def destination_def Let_def CancelFlag_new_def split_beta spawn_def
                intro!: exI [of _ "c_cells s @ [False]"] arg_cong [where f = "send_close X sid Throttled"])
        qed
      qed
    qed
  qed
qed

text \<open>C14. Every CONNECT gets the answer that the policy demands, and has no other effect.  For the control stream or a used
  identifier or with port zero it is a CLOSE with reason ``invalid''; where a filter or the check before
  resolution forbids it, a CLOSE with reason ``blocked''; with a full table a CLOSE with reason ``throttled''.
  A TCP CONNECT else opens a connecting stream with a fresh flag, and either one task that connects to
  the resolved address, or one failure event with reason ``unreachable'' if resolution fails and ``blocked'' if the
  address is forbidden; if the connection's own control channel has no room for that event the handler never
  returns, with the stream left connecting and nothing to end it.  A UDP CONNECT gets a CLOSE with
  reason ``network error'', ``unreachable'', ``blocked'' or ``throttled'' if the socket, resolution, the policy
  or the table fails it, in this order, and else opens a relay with one reader.  The handler panics exactly if
  resolution does.\<close>

theorem connect_is_answered:
  "answered X sid s (connect_answer X sid connect s) (handle_connect X sid connect s)"
proof -
  have raw: "cfg_allow_direct_ip (x_config X) \<or> \<not> is_raw_ip (cp_hostname connect)"
    if "\<not> is_hostname_blocked_pre_resolution (cp_hostname connect) (x_config X)"
    using that by (auto simp: is_hostname_blocked_pre_resolution_def)
  have tcp: "answered X sid s
      (if full (c_table s) then (Refuse Throttled, c_dns s, c_world s)
       else (case destination X connect (c_dns s, c_world s) of
               None \<Rightarrow> (Crash, c_dns s, c_world s)
             | Some (Inl reason, dw) \<Rightarrow> (Fail reason, dw)
             | Some (Inr addr, dw) \<Rightarrow> (Attempt addr, dw)))
      (handle_tcp_connect X sid connect (StreamTable_len (c_table s) \<ge> 1) s)"
    if "StreamTable_get_mut sid (c_table s) = None" "\<not> is_hostname_blocked_pre_resolution (cp_hostname connect) (x_config X)"
    by (rule tcp_connect_answered [OF that(1) raw [OF that(2)]]) auto
  show ?thesis
    using udp_connect_answered [of sid s X connect] tcp refuse_at_once [of X sid s]
    unfolding handle_connect_def connect_answer_def contains_iff
    by (cases "cp_stream_type connect") (auto simp del: answered.simps One_nat_def)
qed

section \<open>Credits\<close>

text \<open>Packets for one stream, one after the other, until one finds the backend dead.\<close>

fun data_run :: "'w ctx \<Rightarrow> u32 \<Rightarrow> bytes list \<Rightarrow> 'w conn \<Rightarrow> u32 option \<times> 'w conn" where
  "data_run X sid [] s = (None, s)"
| "data_run X sid (p # ps) s =
     (case handle_data_zerocopy X (cfg_bs X) (cfg_th X) sid p s of
        (Some dead_id, s1) \<Rightarrow> (Some dead_id, s1)
      | (None, s1) \<Rightarrow> data_run X sid ps s1)"

lemma data_step_credit:
  assumes "StreamTable_get_mut sid (c_table s) = Some (ProxyTcp tcp)"
    "handle_data_zerocopy X (cfg_bs X) (cfg_th X) sid p s = (None, s')"
  shows "\<exists>tcp'. StreamTable_get_mut sid (c_table s') = Some (ProxyTcp tcp') \<and>
     (if cfg_th X \<le> tcp_packets_since_continue tcp + 1
      then tcp_packets_since_continue tcp' = 0 \<and> c_pending_continues s' = c_pending_continues s @ [(sid, cfg_bs X)]
      else tcp_packets_since_continue tcp' = tcp_packets_since_continue tcp + 1 \<and> c_pending_continues s' = c_pending_continues s)"
proof -
  obtain dead tcp1 w where wr: "tcp_try_write (x_io X) tcp p (c_world s) = (dead, tcp1, w)"
    using prod_cases3 by blast
  obtain q where q: "tcp1 = tcp\<lparr>tcp_pending := q\<rparr>"
    using tcp_try_write_kept [OF wr] by blast
  show ?thesis
    using assms wr q by (auto simp: handle_data_zerocopy_def Let_def record_packet_eq reset_counter_def get_set split: if_splits prod.splits)
qed

lemma credit_count:
  fixes c th :: u32
  assumes "c < th"
  shows "th \<le> c + 1 \<longleftrightarrow> unat c + 1 = unat th" "\<not> th \<le> c + 1 \<Longrightarrow> unat (c + 1) = unat c + 1 \<and> c + 1 < th"
proof -
  have "unat c < unat th"
    using assms by (simp add: word_less_nat_alt)
  moreover have "unat th < 4294967296"
    using unsigned_less [of th] by simp
  ultimately have "unat c + 1 < 4294967296"
    by linarith
  then have "unat (c + 1) = unat c + 1"
    by (simp add: unat_word_ariths)
  with \<open>unat c < unat th\<close> show "th \<le> c + 1 \<longleftrightarrow> unat c + 1 = unat th"
    "\<not> th \<le> c + 1 \<Longrightarrow> unat (c + 1) = unat c + 1 \<and> c + 1 < th"
    by (auto simp: word_le_nat_alt word_less_nat_alt)
qed

text \<open>C12. The credits of a TCP stream: \<open>n\<close> packets that the server takes in a row, counted on from the last CONTINUE,
  earn exactly one CONTINUE with the full buffer size for every threshold of packets, in order and after the
  pending ones, and leave the remainder as the new count.  The threshold is positive and, unless the buffer
  size is zero, at most the buffer size, so a client that sends no more than its credit always gets the
  next CONTINUE before it has to stop.\<close>

theorem continue_credits:
  assumes "StreamTable_get_mut sid (c_table s) = Some (ProxyTcp tcp)" "tcp_packets_since_continue tcp < cfg_th X"
    "data_run X sid ps s = (None, s')"
  shows "(\<exists>tcp'. StreamTable_get_mut sid (c_table s') = Some (ProxyTcp tcp') \<and>
      unat (tcp_packets_since_continue tcp') = (unat (tcp_packets_since_continue tcp) + length ps) mod unat (cfg_th X)) \<and>
    c_pending_continues s' = c_pending_continues s @
      replicate ((unat (tcp_packets_since_continue tcp) + length ps) div unat (cfg_th X)) (sid, cfg_bs X) \<and>
    0 < unat (cfg_th X) \<and> unat (cfg_th X) \<le> max 1 (unat (cfg_bs X))"
proof -
  have th: "0 < unat (cfg_th X)" "unat (cfg_th X) \<le> max 1 (unat (cfg_bs X))"
    unfolding continue_threshold_nat by auto
  from assms have "(\<exists>tcp'. StreamTable_get_mut sid (c_table s') = Some (ProxyTcp tcp') \<and>
      unat (tcp_packets_since_continue tcp') = (unat (tcp_packets_since_continue tcp) + length ps) mod unat (cfg_th X)) \<and>
    c_pending_continues s' = c_pending_continues s @
      replicate ((unat (tcp_packets_since_continue tcp) + length ps) div unat (cfg_th X)) (sid, cfg_bs X)"
  proof (induction ps arbitrary: s tcp)
    case Nil
    then show ?case
      by (simp add: word_less_nat_alt)
  next
    case (Cons p ps)
    let ?c = "tcp_packets_since_continue tcp"
    obtain s1 where s1: "handle_data_zerocopy X (cfg_bs X) (cfg_th X) sid p s = (None, s1)" "data_run X sid ps s1 = (None, s')"
      using Cons.prems(3) by (auto split: prod.splits option.splits)
    obtain tcp1 where tcp1: "StreamTable_get_mut sid (c_table s1) = Some (ProxyTcp tcp1)"
      and due: "if cfg_th X \<le> ?c + 1
        then tcp_packets_since_continue tcp1 = 0 \<and> c_pending_continues s1 = c_pending_continues s @ [(sid, cfg_bs X)]
        else tcp_packets_since_continue tcp1 = ?c + 1 \<and> c_pending_continues s1 = c_pending_continues s"
      using data_step_credit [OF Cons.prems(1) s1(1)] by blast
    show ?case
    proof (cases "cfg_th X \<le> ?c + 1")
      case True
      then have all: "unat ?c + length (p # ps) = length ps + unat (cfg_th X)"
        using credit_count(1) [OF Cons.prems(2)] by simp
      have "tcp_packets_since_continue tcp1 < cfg_th X"
        using True due th(1) by (simp add: word_less_nat_alt)
      moreover have "(length ps + unat (cfg_th X)) div unat (cfg_th X) = Suc (length ps div unat (cfg_th X))"
        using div_add_self2 [OF gr_implies_not0 [OF th(1)]] by simp
      ultimately show ?thesis
        unfolding all using Cons.IH [OF tcp1 _ s1(2)] True due by simp
    next
      case False
      with Cons.IH [OF tcp1 _ s1(2)] due credit_count(2) [OF Cons.prems(2) False] show ?thesis
        by simp
    qed
  qed
  with th show ?thesis
    by blast
qed

text \<open>A connection with one open stream, and one in which a closed and reused stream is connecting again.\<close>

definition demo_conn :: "ProxyStream \<Rightarrow> cells \<Rightarrow> task list \<Rightarrow> script_world conn" where
  "demo_conn st h ts = (conn_new demo_ctx (ConnState_new demo_config 5 (V4 (Ipv4 1 2 3 4)))
     (DnsCache_new demo_config) (script_start [Inr 2]))
       \<lparr>c_table := snd (StreamTable_insert 1 st (StreamTable_new 0)), c_cells := h, c_tasks := ts\<rparr>"

lemma demo_conn_simps [simp]:
  "StreamTable_get_mut 1 (c_table (demo_conn st h ts)) = Some st" "table_inv (c_table (demo_conn st h ts))"
  "c_cells (demo_conn st h ts) = h" "c_tasks (demo_conn st h ts) = ts" "c_control (demo_conn st h ts) = []"
  "c_world (demo_conn st h ts) = script_start [Inr 2]" "c_pending_continues (demo_conn st h ts) = []"
  using insert_ok_table [OF table_inv_new(1), of 1 st 0]
  by (simp_all add: demo_conn_def conn_new_def get_insert table_inv_insert) (simp add: StreamTable_new_def)

abbreviation demo_tcp :: TcpProxyStream where
  "demo_tcp \<equiv> TcpProxyStream_with_pending 4 [] 0"

theorem continue_credits_witness:
  "\<exists>s' tcp'. data_run demo_ctx 1 [[7, 8]] (demo_conn (ProxyTcp demo_tcp) [False] []) = (None, s') \<and>
     StreamTable_get_mut 1 (c_table s') = Some (ProxyTcp tcp') \<and> unat (tcp_packets_since_continue tcp') = 1 mod 58981 \<and>
     c_pending_continues s' = []"
proof -
  let ?s = "demo_conn (ProxyTcp demo_tcp) [False] []"
  have th: "unat (cfg_th demo_ctx) = 58981"
    by (simp add: continue_threshold_nat demo_ctx_def demo_config_def ServerConfig_default_def)
  have tcp: "StreamTable_get_mut 1 (c_table ?s) = Some (ProxyTcp demo_tcp)" "tcp_packets_since_continue demo_tcp < cfg_th demo_ctx"
    by (simp_all add: word_less_nat_alt th TcpProxyStream_with_pending_def)
  have "\<exists>t. tcp_try_write (x_io demo_ctx) demo_tcp [7, 8] (c_world ?s) = (False, demo_tcp, t)"
    by (simp add: tcp_try_write_def try_write_now_def demo_ctx_def demo_net_def sure_env_def script_env_def script_write_def script_start_def
        TcpProxyStream_with_pending_def)
  then obtain s' where s': "data_run demo_ctx 1 [[7, 8]] ?s = (None, s')"
    by (auto simp: handle_data_zerocopy_def tcp Let_def split_beta)
  from continue_credits [OF tcp s'] th have "c_pending_continues s' = []"
    "\<exists>tcp'. StreamTable_get_mut 1 (c_table s') = Some (ProxyTcp tcp') \<and> unat (tcp_packets_since_continue tcp') = 1 mod 58981"
    by (simp_all add: TcpProxyStream_with_pending_def)
  with s' show ?thesis
    by blast
qed

section \<open>Fairness\<close>

lemma inner_step_stays:
  assumes "l_phase (inner_step X L) = Inner"
  shows "l_frames_since_yield (inner_step X L) = l_frames_since_yield L + 1 \<and> l_frames_since_yield L + 1 < x_yield_limit X"
proof -
  obtain r rh where rd: "try_read_wisp_frame (x_cpu X) (l_reader L) = (r, rh)"
    by fastforce
  have touch: "touch_idle X K = Some M \<Longrightarrow> l_frames_since_yield M = l_frames_since_yield K" for K M :: "'a loop"
    by (auto simp: touch_idle_def split: if_splits)
  show ?thesis
    using assms rd
    by (auto simp: inner_step_def inner_frame_def Let_def not_le dest!: touch split: option.splits sum.splits prod.splits bool.splits if_splits)
qed

lemma inner_steps_count:
  "(\<And>k. k \<le> m \<Longrightarrow> l_phase ((inner_step X ^^ k) L) = Inner) \<Longrightarrow> 0 < m \<Longrightarrow>
   l_frames_since_yield ((inner_step X ^^ m) L) < x_yield_limit X \<and>
   m \<le> unat (l_frames_since_yield ((inner_step X ^^ m) L)) + 1"
proof (induction m)
  case (Suc m)
  let ?K = "(inner_step X ^^ m) L"
  have "l_phase (inner_step X ?K) = Inner"
    using Suc.prems(1) [of "Suc m"] by simp
  note stays = inner_step_stays [OF this]
  show ?case
  proof (cases "m = 0")
    case False
    then have IH: "l_frames_since_yield ?K < x_yield_limit X" "m \<le> unat (l_frames_since_yield ?K) + 1"
      using Suc by auto
    from stays have "unat (l_frames_since_yield ?K + 1) = unat (l_frames_since_yield ?K) + 1"
      using credit_count(2) [OF IH(1)] by (simp add: not_le)
    with stays IH(2) show ?thesis
      by simp
  qed (use stays in simp)
qed simp

text \<open>
  How a frame of the inner loop ends the connection: the clock overflows, the handler of the frame halts, the client
  ended it (or sent what is no frame), or the CONTINUEs cannot be flushed.
\<close>

definition ended_by_frame :: "'w ctx \<Rightarrow> 'w loop \<Rightarrow> phase \<Rightarrow> bool" where
  "ended_by_frame X K ph \<longleftrightarrow>
     (\<exists>r rh. try_read_wisp_frame (x_cpu X) (l_reader K) = (Some r, rh) \<and>
        (case touch_idle X (K\<lparr>l_reader := rh\<rparr>) of
           None \<Rightarrow> ph = Halted Panicked
         | Some M \<Rightarrow>
             (case handle_inbound X r (cfg_bs X) (cfg_th X) (l_conn M) of
                Inl (h, _) \<Rightarrow> ph = Halted h
              | Inr (True, _) \<Rightarrow> ph = Finished (Inr ())
              | Inr (False, s) \<Rightarrow> \<exists>e s'. flush_pending X s = Inl (e, s') \<and> ph = Finished (Inl e))))"

lemma inner_step_leaves:
  assumes "l_phase K = Inner" "l_phase (inner_step X K) \<noteq> Inner"
  shows "l_phase (inner_step X K) = Drain \<and>
      (fst (try_read_wisp_frame (x_cpu X) (l_reader K)) = None \<or> l_frames_since_yield (inner_step X K) = 0) \<or>
    ended_by_frame X K (l_phase (inner_step X K))"
proof -
  obtain r rh where rd: "try_read_wisp_frame (x_cpu X) (l_reader K) = (r, rh)"
    by fastforce
  show ?thesis
  proof (cases r)
    case None
    with rd show ?thesis
      by (simp add: inner_step_def)
  next
    case (Some q)
    then have step: "inner_step X K = inner_frame X q (K\<lparr>l_reader := rh\<rparr>)"
      using rd by (simp add: inner_step_def)
    show ?thesis
    proof (cases "touch_idle X (K\<lparr>l_reader := rh\<rparr>)")
      case None
      with rd Some show ?thesis
        by (simp add: step inner_frame_def ended_by_frame_def)
    next
      case (Some M)
      have phase: "l_phase M = Inner"
        using Some assms(1) by (auto simp: touch_idle_def split: if_splits)
      obtain out where out: "handle_inbound X q (cfg_bs X) (cfg_th X) (l_conn M) = out"
        by blast
      consider h s where "out = Inl (h, s)" | s where "out = Inr (True, s)" | s where "out = Inr (False, s)"
        by (metis (full_types) old.prod.exhaust old.sum.exhaust)
      then show ?thesis
        by cases (use assms(2) rd \<open>r = Some q\<close> Some out phase in
          \<open>auto simp: step inner_frame_def ended_by_frame_def Let_def split: if_splits sum.splits\<close>)
    qed
  qed
qed

text \<open>C39. The tight inner loop cannot starve the rest.  Whatever frames are buffered, it handles at most as many as the
  yield limit before it leaves.  It leaves for the drain phases, because no frame is buffered any more or because the
  limit is reached and the count starts again at zero; unless the last frame ended the connection: by a clock
  overflow, by a handler that halts, because the client ended it, or because the CONTINUEs could not be flushed.\<close>

theorem inner_loop_yields:
  assumes "l_phase L = Inner"
  shows "\<exists>n \<le> unat (x_yield_limit X). (\<forall>m \<le> n. l_phase ((inner_step X ^^ m) L) = Inner) \<and>
    (let K = (inner_step X ^^ n) L; K' = inner_step X K
     in l_phase K' = Drain \<and> (fst (try_read_wisp_frame (x_cpu X) (l_reader K)) = None \<or> l_frames_since_yield K' = 0) \<or>
        ended_by_frame X K (l_phase K'))"
proof -
  let ?P = "\<lambda>n. l_phase ((inner_step X ^^ n) L) \<noteq> Inner"
  have "\<exists>n \<le> unat (x_yield_limit X) + 1. ?P n"
  proof (rule ccontr)
    assume "\<not> ?thesis"
    then show False
      using inner_steps_count [of "unat (x_yield_limit X) + 1" X L] by (auto simp: word_less_nat_alt)
  qed
  then obtain n0 where n0: "n0 \<le> unat (x_yield_limit X) + 1" "?P n0"
    by blast
  obtain k where k: "?P k" "\<And>m. m < k \<Longrightarrow> \<not> ?P m"
    using n0(2) exists_least_iff [of ?P] by blast
  with assms obtain n where n: "k = Suc n"
    by (cases k) auto
  with k n0 have "n \<le> unat (x_yield_limit X)"
    by (metis Suc_eq_plus1 Suc_le_mono le_trans not_le)
  moreover have "l_phase (inner_step X ((inner_step X ^^ n) L)) \<noteq> Inner"
    using k(1) n by simp
  ultimately show ?thesis
    using k(2) n inner_step_leaves [of "(inner_step X ^^ n) L" X] unfolding Let_def by (metis le_imp_less_Suc lessI)
qed

theorem inner_loop_yields_witness:
  "\<exists>n \<le> 32. l_phase ((inner_step demo_ctx ^^ n) demo_start) = Inner \<and>
     (l_phase (inner_step demo_ctx ((inner_step demo_ctx ^^ n) demo_start)) = Drain \<or>
      ended_by_frame demo_ctx ((inner_step demo_ctx ^^ n) demo_start) (l_phase (inner_step demo_ctx ((inner_step demo_ctx ^^ n) demo_start))))"
proof -
  have "l_phase demo_start = Inner"
    unfolding demo_start_def by (rule demo_loop)
  from inner_loop_yields [OF this, of demo_ctx] show ?thesis
    by (auto simp: demo_ctx_def Let_def)
qed

section \<open>A connection attempt that outlives its stream\<close>

text \<open>C40. A reused identifier can get the connection of its predecessor.  Let the connect task of a stream that has been
  closed still be waiting, its flag cancelled, and let the client have reused the identifier, so that a new
  stream with another flag is connecting.  When the old attempt succeeds, two steps of its task and the next
  drain of the control events make the new stream an open TCP stream on the socket of the old attempt.\<close>

theorem stale_connection_adopted:
  assumes "table_inv (c_table s)" "StreamTable_get_mut sid (c_table s) = Some (ProxyConnecting c)" "conn_early_data c = []"
    "c_control s = []" "c_tasks s = ConnectWait sid addr f opts # ts"
    "CancelFlag_is_cancelled f (c_cells s)" "f \<noteq> conn_cancel c"
    "net_connect (x_net X) addr opts (c_world s) = (Connected reader writer, w)"
  shows "\<exists>s1 s2. step_task X True 0 s = Some s1 \<and> step_task X True 0 s1 = Some s2 \<and>
    (\<exists>tcp. StreamTable_get_mut sid (c_table (drain_control X s2)) = Some (ProxyTcp tcp) \<and> tcp_writer tcp = writer)"
proof -
  let ?ev = "TcpConnected sid reader writer f"
  let ?s1 = "s\<lparr>c_world := w, c_tasks := EventSend ?ev # ts\<rparr>" and ?s2 = "s\<lparr>c_world := w, c_control := [?ev], c_tasks := ts\<rparr>"
  have steps: "step_task X True 0 s = Some ?s1" "step_task X True 0 ?s1 = Some ?s2"
    using assms(4,5,8) by (simp_all add: step_task_def put_task_def connect_done_def connect_event_def send_event_def)
  have "StreamTable_get_mut sid (c_table (handle_control_event X ?ev (?s2\<lparr>c_control := []\<rparr>))) =
      Some (ProxyTcp (TcpProxyStream_with_pending writer [] (length (c_cells s))))"
    using assms(2,3) reinsert(1) [OF assms(1), of sid "ProxyTcp (TcpProxyStream_with_pending writer [] (length (c_cells s)))", THEN fun_cong, of sid]
    by (simp add: handle_control_event_def Let_def CancelFlag_new_def remove_stream_eq spawn_def send_client_def)
  then have "StreamTable_get_mut sid (c_table (drain_control X ?s2)) =
      Some (ProxyTcp (TcpProxyStream_with_pending writer [] (length (c_cells s))))"
    by (subst drain_control.simps) (simp, subst drain_control.simps, simp)
  with steps show ?thesis
    by (auto simp: TcpProxyStream_with_pending_def)
qed

definition demo_opts :: ConnectOpts where
  "demo_opts = \<lparr>co_tcp_nodelay = True, co_buffers_upgraded = False, co_tcp_keepalive_secs = 0\<rparr>"

theorem stale_connection_adopted_witness:
  "\<exists>s1 s2. step_task demo_ctx True 0 (demo_conn (ProxyConnecting \<lparr>conn_early_data = [], conn_cancel = 1\<rparr>) [True, False]
      [ConnectWait 1 demo_addr 0 demo_opts, ConnectTask 1 demo_addr 1 demo_opts]) = Some s1 \<and>
    step_task demo_ctx True 0 s1 = Some s2 \<and>
    (\<exists>tcp. StreamTable_get_mut 1 (c_table (drain_control demo_ctx s2)) = Some (ProxyTcp tcp) \<and> tcp_writer tcp = 4)"
  by (rule stale_connection_adopted [where f = 0 and c = "\<lparr>conn_early_data = [], conn_cancel = 1\<rparr>" and w = "script_start [Inr 2]"])
    (simp_all add: demo_ctx_def demo_net_def CancelFlag_is_cancelled_def)

end
