(* ===== verification/Workers.thy ===== *)
theory Workers
  imports Backend_Write Config
begin

text \<open>
  The workers of the server, \<open>run_thread_per_core\<close> and \<open>create_reuseport_listener\<close> of \<^verbatim>\<open>src/server/mod.rs\<close>: the tuning of
  the process in production mode, the start of one thread per worker, the listener of each, and what the main
  thread does afterwards.

  The system calls are the record \<open>'w os\<close>.  The threads run concurrently, so the world in which each of them
  begins is an argument, \<open>begins\<close>.  A worker that has its listener runs its accept loop (theory \<open>Accept\<close>) for ever.
  What the properties need of the system is the predicate \<open>os_ok\<close>: a successful call on a socket does what its
  name says.  The lemmas show what every listening worker has set up, and which failures end the process.
\<close>

section \<open>System calls\<close>

datatype sock_option = ReusePort | ReuseAddress | Nodelay | Nonblocking | TcpFastopen nat

datatype resource = RLIMIT_MEMLOCK | RLIMIT_NOFILE

record rlimit =
  rlim_cur :: u64
  rlim_max :: u64

record 'w os =
  os_getrlimit :: "resource \<Rightarrow> 'w \<Rightarrow> rlimit option \<times> 'w"
  os_setrlimit :: "resource \<Rightarrow> rlimit \<Rightarrow> 'w \<Rightarrow> 'w"
  os_mlockall :: "'w \<Rightarrow> 'w"
  os_set_timerslack :: "u64 \<Rightarrow> 'w \<Rightarrow> 'w"
  os_get_core_ids :: "'w \<Rightarrow> nat list option \<times> 'w"
  os_fs_write :: "string \<Rightarrow> string \<Rightarrow> 'w \<Rightarrow> unit io_result \<times> 'w"
  os_spawn :: "string \<Rightarrow> 'w \<Rightarrow> unit io_result \<times> 'w"
  os_set_for_current :: "nat \<Rightarrow> 'w \<Rightarrow> 'w"
  os_sched_fifo :: "nat \<Rightarrow> 'w \<Rightarrow> bool \<times> 'w"
  os_setpriority :: "int \<Rightarrow> 'w \<Rightarrow> 'w"
  os_build_runtime :: "'w \<Rightarrow> unit io_result \<times> 'w"
  os_socket :: "bool \<Rightarrow> 'w \<Rightarrow> sock io_result \<times> 'w"
  os_set_option :: "sock \<Rightarrow> sock_option \<Rightarrow> 'w \<Rightarrow> unit io_result \<times> 'w"
  os_bind :: "sock \<Rightarrow> SocketAddr \<Rightarrow> 'w \<Rightarrow> unit io_result \<times> 'w"
  os_listen :: "sock \<Rightarrow> nat \<Rightarrow> 'w \<Rightarrow> unit io_result \<times> 'w"
  os_from_std :: "sock \<Rightarrow> 'w \<Rightarrow> unit io_result \<times> 'w"

text \<open>The operator \<^verbatim>\<open>?\<close>.\<close>

definition try_io :: "'a io_result \<times> 'w \<Rightarrow> ('a \<Rightarrow> 'w \<Rightarrow> 'b io_result \<times> 'w) \<Rightarrow> 'b io_result \<times> 'w" where
  "try_io r f = (case r of (Inl e, w) \<Rightarrow> (Inl e, w) | (Inr x, w) \<Rightarrow> f x w)"

text \<open>The decimal text of a number, for the names of threads and files.\<close>

fun show_usize :: "usize \<Rightarrow> string" where
  "show_usize n = (if n < 10 then [digit_char n] else show_usize (n div 10) @ [digit_char (n mod 10)])"

section \<open>The listener of a worker\<close>

text \<open>The socket is closed when it is dropped on an error, which no later call can see.\<close>

definition create_reuseport_listener :: "'w os \<Rightarrow> SocketAddr \<Rightarrow> 'w \<Rightarrow> sock io_result \<times> 'w" where
  "create_reuseport_listener os addr w =
     (let ipv4 = (case sa_ip addr of V4 _ \<Rightarrow> True | V6 _ \<Rightarrow> False) in
      try_io (os_socket os ipv4 w) (\<lambda>socket w.
      try_io (os_set_option os socket ReusePort w) (\<lambda>_ w.
      try_io (os_set_option os socket ReuseAddress w) (\<lambda>_ w.
      try_io (os_set_option os socket Nodelay w) (\<lambda>_ w.
      try_io (os_set_option os socket Nonblocking w) (\<lambda>_ w.
      try_io (os_bind os socket addr w) (\<lambda>_ w.
      try_io (os_listen os socket 8192 w) (\<lambda>_ w.
        case os_set_option os socket (TcpFastopen 256) w of (_, w) \<Rightarrow>
        try_io (os_from_std os socket w) (\<lambda>_ w. (Inr socket, w))))))))))"

section \<open>Workers\<close>

definition raise_limits :: "'w os \<Rightarrow> 'w \<Rightarrow> 'w" where
  "raise_limits os w =
     (let rlim = \<lparr>rlim_cur = 0, rlim_max = 0\<rparr>;
          (r, w) = os_getrlimit os RLIMIT_MEMLOCK w;
          rlim = (case r of Some l \<Rightarrow> l | None \<Rightarrow> rlim);
          rlim = rlim\<lparr>rlim_cur := rlim_max rlim\<rparr>;
          w = os_setrlimit os RLIMIT_MEMLOCK rlim w;
          (r, w) = os_getrlimit os RLIMIT_NOFILE w;
          rlim = (case r of Some l \<Rightarrow> l | None \<Rightarrow> rlim);
          rlim = rlim\<lparr>rlim_cur := min (rlim_max rlim) 1048576\<rparr>
      in os_setrlimit os RLIMIT_NOFILE rlim w)"

fun set_governors :: "'w os \<Rightarrow> nat list \<Rightarrow> 'w \<Rightarrow> 'w" where
  "set_governors os [] w = w"
| "set_governors os (i # is) w =
     set_governors os is (snd (os_fs_write os
       (''/sys/devices/system/cpu/cpu'' @ show_usize i @ ''/cpufreq/scaling_governor'') ''performance'' w))"

definition prod_tuning :: "'w os \<Rightarrow> usize \<Rightarrow> 'w \<Rightarrow> 'w" where
  "prod_tuning os num_workers w =
     (let w = raise_limits os w;
          w = os_mlockall os w;
          w = os_set_timerslack os 1 w;
          (ids, w) = os_get_core_ids os w
      in set_governors os [0..<min (length (case ids of Some l \<Rightarrow> l | None \<Rightarrow> [])) num_workers] w)"

text \<open>The body of a worker thread, up to its accept loop: its listener, or the panic that ends it.\<close>

definition worker_thread ::
  "'w os \<Rightarrow> SocketAddr \<Rightarrow> ServerConfig \<Rightarrow> nat option \<Rightarrow> 'w \<Rightarrow> (string + sock) \<times> 'w" where
  "worker_thread os addr config core_id w =
     (let w = (case core_id of Some core \<Rightarrow> os_set_for_current os core w | None \<Rightarrow> w);
          w = (if cfg_prod_mode config
               then (case os_sched_fifo os 50 w of (ok, w) \<Rightarrow> if ok then w else os_setpriority os (- 20) w)
               else w)
      in case os_build_runtime os w of
           (Inl e, w) \<Rightarrow> (Inl ''failed to build tokio runtime'', w)
         | (Inr _, w) \<Rightarrow>
             (case create_reuseport_listener os addr w of
                (Inl e, w) \<Rightarrow> (Inl ''failed to create listener'', w)
              | (Inr listener, w) \<Rightarrow> (Inr listener, w)))"

fun spawn_workers :: "'w os \<Rightarrow> nat list \<Rightarrow> 'w \<Rightarrow> bool \<times> 'w" where
  "spawn_workers os [] w = (True, w)"
| "spawn_workers os (worker_id # ids) w =
     (case os_spawn os (''wisp-worker-'' @ show_usize worker_id) w of
        (Inl e, w) \<Rightarrow> (False, w)
      | (Inr _, w) \<Rightarrow> spawn_workers os ids w)"

text \<open>\<^verbatim>\<open>core_ids.get(worker_id).copied()\<close>\<close>

definition core_of :: "nat list option \<Rightarrow> nat \<Rightarrow> nat option" where
  "core_of ids worker_id =
     (let core_ids = (case ids of Some l \<Rightarrow> l | None \<Rightarrow> [])
      in if worker_id < length core_ids then Some (core_ids ! worker_id) else None)"

text \<open>
  The main thread joins the workers in order; a worker that accepts connections is waited for without end.  With
  the panic strategy of the release profile of \<^verbatim>\<open>Cargo.toml\<close>, \<open>Abort\<close>, a panic of any thread ends the process at once.
\<close>

datatype panic_strategy = Unwind | Abort

datatype main_state = MainReturns | MainWaits | MainPanics string | Aborted

fun join_workers :: "((string + sock) \<times> 'w) list \<Rightarrow> main_state" where
  "join_workers [] = MainReturns"
| "join_workers ((Inl panic, w) # rest) = MainPanics ''worker thread panicked''"
| "join_workers ((Inr listener, w) # rest) = MainWaits"

definition wait_workers :: "panic_strategy \<Rightarrow> ((string + sock) \<times> 'w) list \<Rightarrow> main_state" where
  "wait_workers strategy threads =
     (if strategy = Abort \<and> (\<exists>t \<in> set threads. isl (fst t)) then Aborted else join_workers threads)"

definition run_thread_per_core ::
  "panic_strategy \<Rightarrow> 'w os \<Rightarrow> SocketAddr \<Rightarrow> usize \<Rightarrow> ServerConfig \<Rightarrow> (nat \<Rightarrow> 'w) \<Rightarrow> 'w \<Rightarrow> main_state \<times> ((string + sock) \<times> 'w) list" where
  "run_thread_per_core strategy os addr num_workers config begins w =
     (let w = (if cfg_prod_mode config then prod_tuning os num_workers w else w);
          (ids, w) = os_get_core_ids os w;
          (spawned, w) = spawn_workers os [0..<num_workers] w
      in if spawned then
           let threads = map (\<lambda>i. worker_thread os addr config (core_of ids i) (begins i)) [0..<num_workers]
           in (wait_workers strategy threads, threads)
         else (MainPanics ''failed to spawn worker thread'', []))"

section \<open>What the system promises\<close>

text \<open>The state of a socket, with the options that were in force when it was bound.\<close>

record sock_state =
  ss_options :: "sock_option list"
  ss_bound :: "(SocketAddr \<times> sock_option list) option"
  ss_backlog :: "nat option"

definition os_ok :: "'w os \<Rightarrow> ('w \<Rightarrow> sock \<Rightarrow> sock_state) \<Rightarrow> bool" where
  "os_ok os st \<longleftrightarrow>
     (\<forall>s opt w w'. os_set_option os s opt w = (Inr (), w') \<longrightarrow>
        st w' s = (st w s)\<lparr>ss_options := opt # ss_options (st w s)\<rparr>) \<and>
     (\<forall>s opt w e w'. os_set_option os s opt w = (Inl e, w') \<longrightarrow> st w' s = st w s) \<and>
     (\<forall>s addr w w'. os_bind os s addr w = (Inr (), w') \<longrightarrow>
        st w' s = (st w s)\<lparr>ss_bound := Some (addr, ss_options (st w s))\<rparr>) \<and>
     (\<forall>s n w w'. os_listen os s n w = (Inr (), w') \<longrightarrow> st w' s = (st w s)\<lparr>ss_backlog := Some n\<rparr>) \<and>
     (\<forall>s w w'. os_from_std os s w = (Inr (), w') \<longrightarrow> st w' s = st w s)"

definition listening :: "SocketAddr \<Rightarrow> sock_state \<Rightarrow> bool" where
  "listening addr ss \<longleftrightarrow>
     (\<exists>opts. ss_bound ss = Some (addr, opts) \<and> {ReusePort, ReuseAddress, Nodelay, Nonblocking} \<subseteq> set opts) \<and>
     ss_backlog ss = Some 8192"

lemma try_io_Inr:
  "try_io r f = (Inr y, w') \<longleftrightarrow> (\<exists>x w. r = (Inr x, w) \<and> f x w = (Inr y, w'))"
  by (auto simp: try_io_def split: prod.splits sum.splits)

lemma os_okD:
  assumes "os_ok os st"
  shows "os_set_option os s opt w = (Inr (), w') \<Longrightarrow> st w' s = (st w s)\<lparr>ss_options := opt # ss_options (st w s)\<rparr>"
    "os_set_option os s opt w = (Inl e, w') \<Longrightarrow> st w' s = st w s"
    "os_bind os s addr w = (Inr (), w') \<Longrightarrow> st w' s = (st w s)\<lparr>ss_bound := Some (addr, ss_options (st w s))\<rparr>"
    "os_listen os s n w = (Inr (), w') \<Longrightarrow> st w' s = (st w s)\<lparr>ss_backlog := Some n\<rparr>"
    "os_from_std os s w = (Inr (), w') \<Longrightarrow> st w' s = st w s"
  using assms unfolding os_ok_def by blast+

lemma os_ok_any_option:
  "os_ok os st \<Longrightarrow> os_set_option os s opt w = (r, w') \<Longrightarrow>
   ss_bound (st w' s) = ss_bound (st w s) \<and> ss_backlog (st w' s) = ss_backlog (st w s)"
  using os_okD(1,2) [of os st s opt w] by (cases r) auto

lemma create_listener_listening:
  assumes "os_ok os st" "create_reuseport_listener os addr w = (Inr l, w')"
  shows "listening addr (st w' l)"
proof -
  obtain w1 w2 w3 w4 w5 w6 w7 w8 r where calls:
    "os_set_option os l ReusePort w1 = (Inr (), w2)" "os_set_option os l ReuseAddress w2 = (Inr (), w3)"
    "os_set_option os l Nodelay w3 = (Inr (), w4)" "os_set_option os l Nonblocking w4 = (Inr (), w5)"
    "os_bind os l addr w5 = (Inr (), w6)" "os_listen os l 8192 w6 = (Inr (), w7)"
    "os_set_option os l (TcpFastopen 256) w7 = (r, w8)" "os_from_std os l w8 = (Inr (), w')"
    using assms(2) by (auto simp: create_reuseport_listener_def Let_def try_io_Inr case_prod_beta) (metis prod.collapse)
  note opts = os_okD(1) [OF assms(1)]
  show ?thesis
    using os_ok_any_option [OF assms(1) calls(7)] os_okD(3-5) [OF assms(1)]
      opts [OF calls(1)] opts [OF calls(2)] opts [OF calls(3)] opts [OF calls(4)] calls(5,6,8)
    by (auto simp: listening_def)
qed

lemma worker_thread_listening:
  "os_ok os st \<Longrightarrow> worker_thread os addr config core w = (Inr l, w') \<Longrightarrow> listening addr (st w' l)"
  by (auto simp: worker_thread_def Let_def intro: create_listener_listening split: prod.splits sum.splits)

section \<open>Properties\<close>

text \<open>C37. Once every thread has been spawned, each worker that accepts connections does so on a socket bound to the
  configured address, with SO_REUSEPORT and the other mandatory options set before the bind, and with the
  backlog of 8192.  When panics abort, as in release builds, the process runs only with all its workers; when they unwind, the
  failure of the first worker ends the process, and that of any other goes unnoticed while the first one runs.\<close>

theorem workers_started:
  assumes "os_ok os st" "0 < num_workers"
    and "run_thread_per_core strategy os addr num_workers config begins w = (m, threads)"
    and "m \<noteq> MainPanics ''failed to spawn worker thread''"
  shows "length threads = num_workers \<and>
    (\<forall>i < num_workers. \<forall>l w'. threads ! i = (Inr l, w') \<longrightarrow> listening addr (st w' l)) \<and>
    m = (case strategy of
           Abort \<Rightarrow> if \<exists>i < num_workers. isl (fst (threads ! i)) then Aborted else MainWaits
         | Unwind \<Rightarrow> if isl (fst (threads ! 0)) then MainPanics ''worker thread panicked'' else MainWaits)"
proof -
  from assms(3,4) obtain ids where threads:
    "threads = map (\<lambda>i. worker_thread os addr config (core_of ids i) (begins i)) [0..<num_workers]" and m: "m = wait_workers strategy threads"
    by (auto simp: run_thread_per_core_def Let_def split: prod.splits if_splits)
  then have len: "length threads = num_workers"
    by simp
  with assms(2) have "join_workers threads = (if isl (fst (threads ! 0)) then MainPanics ''worker thread panicked'' else MainWaits)"
    by (cases threads rule: join_workers.cases) auto
  moreover have "(\<exists>t \<in> set threads. isl (fst t)) \<longleftrightarrow> (\<exists>i < num_workers. isl (fst (threads ! i)))"
    unfolding len [symmetric] by (metis in_set_conv_nth)
  moreover have "\<forall>i < num_workers. \<forall>l w'. threads ! i = (Inr l, w') \<longrightarrow> listening addr (st w' l)"
    using worker_thread_listening [OF assms(1)] by (auto simp: threads)
  ultimately show ?thesis
    using len assms(2) unfolding m wait_workers_def by (auto split: panic_strategy.split)
qed

text \<open>A system where every call succeeds but, for the thread that begins in \<open>demo_begins 1\<close>, the bind.\<close>

record demo_world =
  dw_socks :: "sock \<Rightarrow> sock_state"
  dw_taken :: bool

definition demo_os :: "demo_world os" where
  "demo_os = \<lparr>os_getrlimit = (\<lambda>_ w. (None, w)), os_setrlimit = (\<lambda>_ _ w. w), os_mlockall = id, os_set_timerslack = (\<lambda>_ w. w),
     os_get_core_ids = (\<lambda>w. (Some [0, 1], w)), os_fs_write = (\<lambda>_ _ w. (Inr (), w)), os_spawn = (\<lambda>_ w. (Inr (), w)),
     os_set_for_current = (\<lambda>_ w. w), os_sched_fifo = (\<lambda>_ w. (False, w)), os_setpriority = (\<lambda>_ w. w),
     os_build_runtime = (\<lambda>w. (Inr (), w)), os_socket = (\<lambda>_ w. (Inr 3, w)),
     os_set_option = (\<lambda>s opt w. (Inr (), w\<lparr>dw_socks := (dw_socks w)
        (s := (dw_socks w s)\<lparr>ss_options := opt # ss_options (dw_socks w s)\<rparr>)\<rparr>)),
     os_bind = (\<lambda>s addr w. if dw_taken w then (Inl (OtherKind 98), w) else
        (Inr (), w\<lparr>dw_socks := (dw_socks w)(s := (dw_socks w s)\<lparr>ss_bound := Some (addr, ss_options (dw_socks w s))\<rparr>)\<rparr>)),
     os_listen = (\<lambda>s n w. (Inr (), w\<lparr>dw_socks := (dw_socks w)(s := (dw_socks w s)\<lparr>ss_backlog := Some n\<rparr>)\<rparr>)),
     os_from_std = (\<lambda>s w. (Inr (), w))\<rparr>"

lemma demo_os_ok: "os_ok demo_os dw_socks"
  by (auto simp: os_ok_def demo_os_def split: if_splits)

definition demo_begins :: "nat \<Rightarrow> demo_world" where
  "demo_begins i = \<lparr>dw_socks = (\<lambda>_. \<lparr>ss_options = [], ss_bound = None, ss_backlog = None\<rparr>), dw_taken = (i = 1)\<rparr>"

definition demo_bind :: SocketAddr where
  "demo_bind = \<lparr>sa_ip = V4 (Ipv4 127 0 0 1), sa_port = 6001\<rparr>"

lemma demo_run:
  "\<exists>threads. run_thread_per_core Unwind demo_os demo_bind 2 ServerConfig_default demo_begins (demo_begins 0) = (MainWaits, threads) \<and>
     fst (threads ! 0) = Inr 3 \<and> fst (threads ! 1) = Inl ''failed to create listener''"
  by (simp add: run_thread_per_core_def wait_workers_def worker_thread_def create_reuseport_listener_def try_io_def core_of_def
      demo_os_def demo_bind_def demo_begins_def ServerConfig_default_def numeral_2_eq_2)

theorem workers_started_witness:
  "\<exists>threads w'. run_thread_per_core Unwind demo_os demo_bind 2 ServerConfig_default demo_begins (demo_begins 0) = (MainWaits, threads) \<and>
     threads ! 0 = (Inr 3, w') \<and> listening demo_bind (dw_socks w' 3) \<and> fst (threads ! 1) = Inl ''failed to create listener''"
proof -
  obtain threads where run:
    "run_thread_per_core Unwind demo_os demo_bind 2 ServerConfig_default demo_begins (demo_begins 0) = (MainWaits, threads)"
    "fst (threads ! 0) = Inr 3" "fst (threads ! 1) = Inl ''failed to create listener''"
    using demo_run by blast
  obtain w' where w': "threads ! 0 = (Inr 3, w')"
    using run(2) by (cases "threads ! 0") auto
  from workers_started [OF demo_os_ok _ run(1)] have "listening demo_bind (dw_socks w' 3)"
    using w' by fastforce
  with run w' show ?thesis
    by blast
qed

end
