(* ===== verification/Startup.thy ===== *)
theory Startup
  imports Config Net_Addr
begin

text \<open>
  The start of the server, \<open>main\<close> and \<open>num_physical_cores\<close> of \<^verbatim>\<open>src/main.rs\<close>: from the command line and the
  configuration file to the configuration, the bind address and the number of workers.

  The parsed arguments are the record \<open>Args\<close> and the raw ones the list \<open>argv\<close>, which the code searches for explicit
  options.  The configuration file is read up to three times, through \<open>load_json_config\<close>, and may change in
  between.  The directory \<^verbatim>\<open>/sys/devices/system/cpu\<close> is a list of entries with the contents of the two files that are
  read.  The result of \<open>main\<close> is what it passes to \<^verbatim>\<open>run_thread_per_core\<close> (theory
  \<open>Workers\<close>), with the log level; starting the tracing subscriber and the log lines are left out.
\<close>

section \<open>Arguments\<close>

record Args =
  args_bind :: SocketAddr
  args_workers :: usize
  args_buffer_size :: u32
  args_no_tcp_nodelay :: bool
  args_block_loopback :: bool
  args_block_direct_ip :: bool
  args_block_private_ips :: bool
  args_max_streams :: usize
  args_max_frame_size :: usize
  args_password :: "string option"
  args_prod :: bool
  args_config :: "string option"
  args_log_level :: "string option"
  args_log_format :: "string option"
  args_max_connections :: "usize option"
  args_idle_timeout_secs :: "u64 option"
  args_max_connections_per_ip :: "usize option"
  args_connection_window_secs :: "u64 option"
  args_ws_ping_interval_secs :: "u64 option"
  args_ws_pong_timeout_secs :: "u64 option"
  args_tcp_keepalive_secs :: "u64 option"

text \<open>\<^verbatim>\<open>std::env::args().any(|a| a.starts_with(..) || ..)\<close>\<close>

definition given :: "string list \<Rightarrow> string list \<Rightarrow> bool" where
  "given argv prefixes \<longleftrightarrow> (\<exists>a \<in> set argv. \<exists>p \<in> set prefixes. starts_with a p)"

section \<open>Overrides\<close>

text \<open>\<^verbatim>\<open>if flag { config.x = .. }\<close>\<close>

definition on_flag :: "bool \<Rightarrow> ('c \<Rightarrow> 'c) \<Rightarrow> 'c \<Rightarrow> 'c" where
  "on_flag flag upd c = (if flag then upd c else c)"

definition apply_overrides :: "Args \<Rightarrow> string list \<Rightarrow> ServerConfig \<Rightarrow> ServerConfig" where
  "apply_overrides args argv config =
     (let c = on_flag (args_config args = None \<or> given argv [''--buffer-size'', ''--buffer_size''])
                (\<lambda>c. c\<lparr>cfg_buffer_size := args_buffer_size args\<rparr>) config;
          c = c\<lparr>cfg_tcp_nodelay := (if args_no_tcp_nodelay args then False else cfg_tcp_nodelay c)\<rparr>;
          c = on_flag (args_block_loopback args) (\<lambda>c. c\<lparr>cfg_allow_loopback := False\<rparr>) c;
          c = on_flag (args_block_direct_ip args) (\<lambda>c. c\<lparr>cfg_allow_direct_ip := False\<rparr>) c;
          c = on_flag (args_block_private_ips args) (\<lambda>c. c\<lparr>cfg_allow_private_ips := False\<rparr>) c;
          c = on_flag (args_config args = None \<or> given argv [''--max-streams'', ''--max_streams''])
                (\<lambda>c. c\<lparr>cfg_max_streams := args_max_streams args\<rparr>) c;
          c = on_flag (args_config args = None \<or> given argv [''--max-frame-size'', ''--max_frame_size''])
                (\<lambda>c. c\<lparr>cfg_max_frame_size := args_max_frame_size args\<rparr>) c;
          c = override (args_password args) (\<lambda>pw c. c\<lparr>cfg_auth_password := Some pw\<rparr>) c;
          c = on_flag (args_prod args) (\<lambda>c. apply_prod_defaults (c\<lparr>cfg_prod_mode := True\<rparr>)) c;
          c = override (args_log_level args) (\<lambda>v c. c\<lparr>cfg_log_level := v\<rparr>) c;
          c = override (args_log_format args) (\<lambda>v c. c\<lparr>cfg_log_format := v\<rparr>) c;
          c = override (args_max_connections args) (\<lambda>v c. c\<lparr>cfg_max_connections := v\<rparr>) c;
          c = override (args_idle_timeout_secs args) (\<lambda>v c. c\<lparr>cfg_idle_timeout_secs := v\<rparr>) c;
          c = override (args_max_connections_per_ip args) (\<lambda>v c. c\<lparr>cfg_max_connections_per_ip := v\<rparr>) c;
          c = override (args_connection_window_secs args) (\<lambda>v c. c\<lparr>cfg_connection_window_secs := v\<rparr>) c;
          c = override (args_ws_ping_interval_secs args) (\<lambda>v c. c\<lparr>cfg_ws_ping_interval_secs := v\<rparr>) c;
          c = override (args_ws_pong_timeout_secs args) (\<lambda>v c. c\<lparr>cfg_ws_pong_timeout_secs := v\<rparr>) c
      in override (args_tcp_keepalive_secs args) (\<lambda>v c. c\<lparr>cfg_tcp_keepalive_secs := v\<rparr>) c)"

section \<open>Cores\<close>

text \<open>An entry of the directory with the contents of its \<^verbatim>\<open>topology\<close> files.\<close>

record sys_entry =
  sys_name :: string
  sys_package :: "string option"
  sys_core_id :: "string option"

definition is_digit :: "char \<Rightarrow> bool" where
  "is_digit c \<longleftrightarrow> to_digit 10 c \<noteq> None"

definition physical_core :: "nat list \<Rightarrow> sys_entry \<Rightarrow> (nat \<times> nat) option" where
  "physical_core schedulable e =
     (let name = sys_name e in
      if starts_with name ''cpu'' \<and> list_all is_digit (drop 3 name) then
        if (case parse_unsigned (2 ^ 64 - 1) (drop 3 name) of Some n \<Rightarrow> n \<notin> set schedulable | None \<Rightarrow> False) then None
        else
          let pkg = (case sys_package e of
                       Some s \<Rightarrow> (case parse_unsigned (2 ^ 32 - 1) (trim s) of Some n \<Rightarrow> n | None \<Rightarrow> 0)
                     | None \<Rightarrow> 0);
              core = (case sys_core_id e of Some s \<Rightarrow> parse_unsigned (2 ^ 32 - 1) (trim s) | None \<Rightarrow> None)
          in map_option (\<lambda>core_id. (pkg, core_id)) core
      else None)"

definition num_physical_cores :: "nat list \<Rightarrow> sys_entry list option \<Rightarrow> usize" where
  "num_physical_cores schedulable sys =
     (if schedulable = [] then 1
      else
        let cores = (case sys of Some entries \<Rightarrow> remdups (List.map_filter (physical_core schedulable) entries) | None \<Rightarrow> [])
        in if cores \<noteq> [] then length cores else length schedulable)"

section \<open>The main function\<close>

datatype StartError = ConfigFile string | BufferSizeZero | InvalidBind string

record Start =
  start_config :: ServerConfig
  start_log_level :: string
  start_bind :: SocketAddr
  start_workers :: usize

definition base_config :: "Args \<Rightarrow> 'w file_system \<Rightarrow> 'w \<Rightarrow> (StartError + ServerConfig) \<times> 'w" where
  "base_config args fs w =
     (case args_config args of
        Some path \<Rightarrow>
          (case load_json_config fs path w of
             (Inr json, w') \<Rightarrow> (Inr (merge_json_config json), w')
           | (Inl e, w') \<Rightarrow> (Inl (ConfigFile e), w'))
      | None \<Rightarrow> (Inr ServerConfig_default, w))"

definition log_level :: "Args \<Rightarrow> ServerConfig \<Rightarrow> string" where
  "log_level args config =
     (case args_log_level args of
        Some l \<Rightarrow> l
      | None \<Rightarrow> if args_config args \<noteq> None then cfg_log_level config else ''info'')"

definition bind_addr :: "Args \<Rightarrow> string list \<Rightarrow> 'w file_system \<Rightarrow> 'w \<Rightarrow> (StartError + SocketAddr) \<times> 'w" where
  "bind_addr args argv fs w =
     (case args_config args of
        None \<Rightarrow> (Inr (args_bind args), w)
      | Some path \<Rightarrow>
          if ''-b'' \<in> set argv \<or> given argv [''--bind''] then (Inr (args_bind args), w)
          else
            (case load_json_config fs path w of
               (Inr json, w') \<Rightarrow>
                 (case js_bind json of
                    Some bind_str \<Rightarrow>
                      (case parse_SocketAddr bind_str of
                         Some addr \<Rightarrow> (Inr addr, w')
                       | None \<Rightarrow> (Inl (InvalidBind bind_str), w'))
                  | None \<Rightarrow> (Inr (args_bind args), w'))
             | (Inl _, w') \<Rightarrow> (Inr (args_bind args), w')))"

definition workers :: "Args \<Rightarrow> string list \<Rightarrow> usize \<Rightarrow> 'w file_system \<Rightarrow> 'w \<Rightarrow> usize \<times> 'w" where
  "workers args argv cores fs w =
     (case args_config args of
        None \<Rightarrow> (if args_workers args = 0 then cores else args_workers args, w)
      | Some path \<Rightarrow>
          if ''-w'' \<in> set argv \<or> given argv [''--workers'']
          then (if args_workers args = 0 then cores else args_workers args, w)
          else
            (case load_json_config fs path w of
               (Inr json, w') \<Rightarrow>
                 (let n = (case js_workers json of Some n \<Rightarrow> n | None \<Rightarrow> 0) in (if n = 0 then cores else n, w'))
             | (Inl _, w') \<Rightarrow> (if args_workers args = 0 then cores else args_workers args, w')))"

definition main :: "Args \<Rightarrow> string list \<Rightarrow> nat list \<Rightarrow> sys_entry list option \<Rightarrow> 'w file_system \<Rightarrow> 'w \<Rightarrow> (StartError + Start) \<times> 'w" where
  "main args argv schedulable sys fs w =
     (case base_config args fs w of
        (Inl e, w1) \<Rightarrow> (Inl e, w1)
      | (Inr base, w1) \<Rightarrow>
          let config = apply_overrides args argv base
          in if cfg_buffer_size config = 0 then (Inl BufferSizeZero, w1)
             else
               (case bind_addr args argv fs w1 of
                  (Inl e, w2) \<Rightarrow> (Inl e, w2)
                | (Inr addr, w2) \<Rightarrow>
                    (case workers args argv (num_physical_cores schedulable sys) fs w2 of
                       (n, w3) \<Rightarrow> (Inr \<lparr>start_config = config, start_log_level = log_level args config,
                                         start_bind = addr, start_workers = n\<rparr>, w3))))"

section \<open>Properties\<close>

lemma num_physical_cores_pos: "0 < num_physical_cores schedulable sys"
  by (simp add: num_physical_cores_def Let_def)

lemma workers_pos: "0 < cores \<Longrightarrow> workers args argv cores fs w = (n, w') \<Longrightarrow> 0 < n"
  by (auto simp: workers_def Let_def split: option.splits if_splits sum.splits prod.splits)

text \<open>What a successful start has done.\<close>

lemma main_ok:
  assumes "main args argv schedulable sys fs w = (Inr st, w')"
  obtains base w1 w2 where "base_config args fs w = (Inr base, w1)" "start_config st = apply_overrides args argv base"
    "cfg_buffer_size (start_config st) \<noteq> 0" "bind_addr args argv fs w1 = (Inr (start_bind st), w2)"
    "workers args argv (num_physical_cores schedulable sys) fs w2 = (start_workers st, w')"
    "start_log_level st = log_level args (start_config st)"
  using assms by (auto simp: main_def Let_def split: prod.splits sum.splits if_splits)

definition chosen :: "'a option \<Rightarrow> 'a \<Rightarrow> 'a" where
  "chosen v d = (case v of Some x \<Rightarrow> x | None \<Rightarrow> d)"

lemma chosen_simps [simp]: "chosen None d = d" "chosen (Some v) d = v"
  by (simp_all add: chosen_def)

text \<open>The production defaults of the limits and timers, for the settings that are still zero.\<close>

definition prod_default :: "bool \<Rightarrow> 'a :: zero \<Rightarrow> 'a \<Rightarrow> 'a" where
  "prod_default p v d = (if p \<and> v = 0 then d else v)"

lemma prod_defaults:
  "cfg_max_connections (apply_prod_defaults c) = prod_default True (cfg_max_connections c) 8192"
  "cfg_idle_timeout_secs (apply_prod_defaults c) = prod_default True (cfg_idle_timeout_secs c) 300"
  "cfg_max_connections_per_ip (apply_prod_defaults c) = prod_default True (cfg_max_connections_per_ip c) 64"
  "cfg_ws_ping_interval_secs (apply_prod_defaults c) = prod_default True (cfg_ws_ping_interval_secs c) 30"
  "cfg_tcp_keepalive_secs (apply_prod_defaults c) = prod_default True (cfg_tcp_keepalive_secs c) 60"
  "cfg_connection_window_secs (apply_prod_defaults c) = cfg_connection_window_secs c"
  "cfg_ws_pong_timeout_secs (apply_prod_defaults c) = cfg_ws_pong_timeout_secs c"
  by (simp_all add: apply_prod_defaults_def prod_default_def Let_def)

text \<open>A field through the optional and the conditional updates.\<close>

lemma field_kept:
  "(\<And>x d. F (f x d) = F d) \<Longrightarrow> F (override v f c) = F c" "(\<And>d. F (g d) = F d) \<Longrightarrow> F (on_flag b g c) = F c"
  by (simp_all add: override_def on_flag_def split: option.split)

lemma field_set:
  "(\<And>x d. F (f x d) = x) \<Longrightarrow> F (override v f c) = chosen v (F c)"
  "(\<And>d. F (g d) = h (F d)) \<Longrightarrow> F (on_flag b g c) = (if b then h (F c) else F c)"
  by (simp_all add: override_def on_flag_def chosen_def split: option.split)

lemma overrides_limits:
  "cfg_max_connections (apply_overrides args argv c) =
     chosen (args_max_connections args) (prod_default (args_prod args) (cfg_max_connections c) 8192)"
  "cfg_idle_timeout_secs (apply_overrides args argv c) =
     chosen (args_idle_timeout_secs args) (prod_default (args_prod args) (cfg_idle_timeout_secs c) 300)"
  "cfg_max_connections_per_ip (apply_overrides args argv c) =
     chosen (args_max_connections_per_ip args) (prod_default (args_prod args) (cfg_max_connections_per_ip c) 64)"
  "cfg_ws_ping_interval_secs (apply_overrides args argv c) =
     chosen (args_ws_ping_interval_secs args) (prod_default (args_prod args) (cfg_ws_ping_interval_secs c) 30)"
  "cfg_tcp_keepalive_secs (apply_overrides args argv c) =
     chosen (args_tcp_keepalive_secs args) (prod_default (args_prod args) (cfg_tcp_keepalive_secs c) 60)"
  "cfg_connection_window_secs (apply_overrides args argv c) = chosen (args_connection_window_secs args) (cfg_connection_window_secs c)"
  "cfg_ws_pong_timeout_secs (apply_overrides args argv c) = chosen (args_ws_pong_timeout_secs args) (cfg_ws_pong_timeout_secs c)"
  unfolding apply_overrides_def Let_def
  subgoal by (simp add: field_kept [of cfg_max_connections] field_set(1) [of cfg_max_connections] on_flag_def [of "args_prod args"] prod_defaults prod_default_def)
  subgoal by (simp add: field_kept [of cfg_idle_timeout_secs] field_set(1) [of cfg_idle_timeout_secs] on_flag_def [of "args_prod args"] prod_defaults prod_default_def)
  subgoal by (simp add: field_kept [of cfg_max_connections_per_ip] field_set(1) [of cfg_max_connections_per_ip] on_flag_def [of "args_prod args"] prod_defaults prod_default_def)
  subgoal by (simp add: field_kept [of cfg_ws_ping_interval_secs] field_set(1) [of cfg_ws_ping_interval_secs] on_flag_def [of "args_prod args"] prod_defaults prod_default_def)
  subgoal by (simp add: field_kept [of cfg_tcp_keepalive_secs] field_set(1) [of cfg_tcp_keepalive_secs] on_flag_def [of "args_prod args"] prod_defaults prod_default_def)
  subgoal by (simp add: field_kept [of cfg_connection_window_secs] field_set(1) [of cfg_connection_window_secs] on_flag_def [of "args_prod args"] prod_defaults prod_default_def)
  subgoal by (simp add: field_kept [of cfg_ws_pong_timeout_secs] field_set(1) [of cfg_ws_pong_timeout_secs] on_flag_def [of "args_prod args"] prod_defaults prod_default_def)
  done

lemma prod_defaults_kept [simp]:
  "cfg_allow_loopback (apply_prod_defaults c) = cfg_allow_loopback c"
  "cfg_allow_direct_ip (apply_prod_defaults c) = cfg_allow_direct_ip c"
  "cfg_allow_private_ips (apply_prod_defaults c) = cfg_allow_private_ips c"
  "cfg_buffer_size (apply_prod_defaults c) = cfg_buffer_size c"
  "cfg_max_streams (apply_prod_defaults c) = cfg_max_streams c"
  "cfg_max_frame_size (apply_prod_defaults c) = cfg_max_frame_size c"
  "cfg_auth_users (apply_prod_defaults c) = cfg_auth_users c"
  "cfg_auth_required (apply_prod_defaults c) = cfg_auth_required c"
  "cfg_blacklist_hostnames (apply_prod_defaults c) = cfg_blacklist_hostnames c"
  "cfg_blacklist_ports (apply_prod_defaults c) = cfg_blacklist_ports c"
  "cfg_whitelist_hostnames (apply_prod_defaults c) = cfg_whitelist_hostnames c"
  "cfg_whitelist_ports (apply_prod_defaults c) = cfg_whitelist_ports c"
  "cfg_dns_servers (apply_prod_defaults c) = cfg_dns_servers c"
  "cfg_dns_ttl (apply_prod_defaults c) = cfg_dns_ttl c"
  "cfg_dns_result_order (apply_prod_defaults c) = cfg_dns_result_order c"
  "cfg_real_ip_enabled (apply_prod_defaults c) = cfg_real_ip_enabled c"
  "cfg_real_ip_trusted_proxies (apply_prod_defaults c) = cfg_real_ip_trusted_proxies c"
  "cfg_real_ip_headers (apply_prod_defaults c) = cfg_real_ip_headers c"
  "cfg_auth_password (apply_prod_defaults c) = cfg_auth_password c"
  "cfg_tcp_nodelay (apply_prod_defaults c) = cfg_tcp_nodelay c"
  "cfg_prod_mode (apply_prod_defaults c) = cfg_prod_mode c"
  by (simp_all add: apply_prod_defaults_def Let_def)

lemma overrides_policy:
  "cfg_allow_loopback (apply_overrides args argv c) \<longleftrightarrow> cfg_allow_loopback c \<and> \<not> args_block_loopback args"
  "cfg_allow_direct_ip (apply_overrides args argv c) \<longleftrightarrow> cfg_allow_direct_ip c \<and> \<not> args_block_direct_ip args"
  "cfg_allow_private_ips (apply_overrides args argv c) \<longleftrightarrow> cfg_allow_private_ips c \<and> \<not> args_block_private_ips args"
  unfolding apply_overrides_def Let_def
  subgoal by (simp add: field_kept [of cfg_allow_loopback] on_flag_def [of "args_block_loopback args"])
  subgoal by (simp add: field_kept [of cfg_allow_direct_ip] on_flag_def [of "args_block_direct_ip args"])
  subgoal by (simp add: field_kept [of cfg_allow_private_ips] on_flag_def [of "args_block_private_ips args"])
  done

lemma overrides_modes:
  "cfg_tcp_nodelay (apply_overrides args argv c) \<longleftrightarrow> cfg_tcp_nodelay c \<and> \<not> args_no_tcp_nodelay args"
  "cfg_prod_mode (apply_overrides args argv c) \<longleftrightarrow> cfg_prod_mode c \<or> args_prod args"
  unfolding apply_overrides_def Let_def
  subgoal by (simp add: field_kept [of cfg_tcp_nodelay])
  subgoal by (simp add: field_kept [of cfg_prod_mode] on_flag_def [of "args_prod args"])
  done

lemma overrides_sizes:
  "cfg_buffer_size (apply_overrides args argv c) =
     (if args_config args = None \<or> given argv [''--buffer-size'', ''--buffer_size''] then args_buffer_size args else cfg_buffer_size c)"
  "cfg_max_streams (apply_overrides args argv c) =
     (if args_config args = None \<or> given argv [''--max-streams'', ''--max_streams''] then args_max_streams args else cfg_max_streams c)"
  "cfg_max_frame_size (apply_overrides args argv c) =
     (if args_config args = None \<or> given argv [''--max-frame-size'', ''--max_frame_size''] then args_max_frame_size args else cfg_max_frame_size c)"
  unfolding apply_overrides_def Let_def
  subgoal by (simp add: field_kept [of cfg_buffer_size] field_set(2) [of cfg_buffer_size _ "\<lambda>_. args_buffer_size args"])
  subgoal by (simp add: field_kept [of cfg_max_streams] field_set(2) [of cfg_max_streams _ "\<lambda>_. args_max_streams args"])
  subgoal by (simp add: field_kept [of cfg_max_frame_size] field_set(2) [of cfg_max_frame_size _ "\<lambda>_. args_max_frame_size args"])
  done

lemma overrides_kept:
  "cfg_auth_users (apply_overrides args argv c) = cfg_auth_users c"
  "cfg_auth_required (apply_overrides args argv c) = cfg_auth_required c"
  "cfg_blacklist_hostnames (apply_overrides args argv c) = cfg_blacklist_hostnames c"
  "cfg_blacklist_ports (apply_overrides args argv c) = cfg_blacklist_ports c"
  "cfg_whitelist_hostnames (apply_overrides args argv c) = cfg_whitelist_hostnames c"
  "cfg_whitelist_ports (apply_overrides args argv c) = cfg_whitelist_ports c"
  "cfg_dns_servers (apply_overrides args argv c) = cfg_dns_servers c"
  "cfg_dns_ttl (apply_overrides args argv c) = cfg_dns_ttl c"
  "cfg_dns_result_order (apply_overrides args argv c) = cfg_dns_result_order c"
  "cfg_real_ip_enabled (apply_overrides args argv c) = cfg_real_ip_enabled c"
  "cfg_real_ip_trusted_proxies (apply_overrides args argv c) = cfg_real_ip_trusted_proxies c"
  "cfg_real_ip_headers (apply_overrides args argv c) = cfg_real_ip_headers c"
  unfolding apply_overrides_def Let_def
  subgoal by (simp add: field_kept [of cfg_auth_users])
  subgoal by (simp add: field_kept [of cfg_auth_required])
  subgoal by (simp add: field_kept [of cfg_blacklist_hostnames])
  subgoal by (simp add: field_kept [of cfg_blacklist_ports])
  subgoal by (simp add: field_kept [of cfg_whitelist_hostnames])
  subgoal by (simp add: field_kept [of cfg_whitelist_ports])
  subgoal by (simp add: field_kept [of cfg_dns_servers])
  subgoal by (simp add: field_kept [of cfg_dns_ttl])
  subgoal by (simp add: field_kept [of cfg_dns_result_order])
  subgoal by (simp add: field_kept [of cfg_real_ip_enabled])
  subgoal by (simp add: field_kept [of cfg_real_ip_trusted_proxies])
  subgoal by (simp add: field_kept [of cfg_real_ip_headers])
  done

lemma overrides_password:
  "cfg_auth_password (apply_overrides args argv c) = (case args_password args of Some pw \<Rightarrow> Some pw | None \<Rightarrow> cfg_auth_password c)"
  unfolding apply_overrides_def Let_def
  by (simp add: field_kept [of cfg_auth_password]) (simp add: override_def field_kept [of cfg_auth_password] split: option.split)

lemma overrides_filters:
  "is_hostname_blocked (apply_overrides args argv c) = is_hostname_blocked c"
  "is_port_blocked (apply_overrides args argv c) = is_port_blocked c"
  "is_auth_required (apply_overrides args argv c) \<longleftrightarrow> is_auth_required c \<or> args_password args \<noteq> None"
  by (auto simp: fun_eq_iff is_hostname_blocked_def is_port_blocked_def is_auth_required_def overrides_kept overrides_password
      split: option.split)

text \<open>
  The later reads of the configuration file, for the bind address and the number of workers: \<^const>\<open>None\<close> when there
  is no file, the option was explicit, or the file cannot be read any more.
\<close>

definition reread :: "Args \<Rightarrow> bool \<Rightarrow> 'w file_system \<Rightarrow> 'w \<Rightarrow> JsonConfig option" where
  "reread args explicit fs w =
     (case args_config args of
        Some path \<Rightarrow> if explicit then None else (case fst (load_json_config fs path w) of Inr json \<Rightarrow> Some json | Inl _ \<Rightarrow> None)
      | None \<Rightarrow> None)"

definition after_read :: "Args \<Rightarrow> bool \<Rightarrow> 'w file_system \<Rightarrow> 'w \<Rightarrow> 'w" where
  "after_read args explicit fs w =
     (case args_config args of Some path \<Rightarrow> if explicit then w else snd (load_json_config fs path w) | None \<Rightarrow> w)"

lemma bind_addr_Inr:
  assumes "bind_addr args argv fs w = (Inr addr, w')"
  shows "w' = after_read args (''-b'' \<in> set argv \<or> given argv [''--bind'']) fs w \<and>
    (case Option.bind (reread args (''-b'' \<in> set argv \<or> given argv [''--bind'']) fs w) js_bind of
       Some text \<Rightarrow> parse_SocketAddr text = Some addr | None \<Rightarrow> addr = args_bind args)"
  using assms by (auto simp: bind_addr_def reread_def after_read_def split: option.splits if_splits prod.splits sum.splits)

lemma workers_eq:
  "workers args argv cores fs w =
     (let explicit = (''-w'' \<in> set argv \<or> given argv [''--workers'']);
          n = (case reread args explicit fs w of Some json \<Rightarrow> chosen (js_workers json) 0 | None \<Rightarrow> args_workers args)
      in (if n = 0 then cores else n, after_read args explicit fs w))"
  by (auto simp: workers_def reread_def after_read_def chosen_def Let_def split: option.splits prod.splits sum.splits)

lemma base_config_Inr:
  assumes "base_config args fs w = (Inr base, w')"
  shows "w' = after_read args False fs w \<and>
    (case args_config args of
       None \<Rightarrow> base = ServerConfig_default
     | Some path \<Rightarrow> \<exists>contents json. fst (fs_read_to_string fs path w) = Inr contents \<and> fs_from_str fs contents = Inr json \<and>
         base = merge_json_config json)"
  using assms
  by (fastforce simp: base_config_def after_read_def split: option.splits prod.splits sum.splits dest: load_json_config_Inr)


definition demo_args :: Args where
  "demo_args = \<lparr>args_bind = \<lparr>sa_ip = V4 (Ipv4 0 0 0 0), sa_port = 4000\<rparr>, args_workers = 0, args_buffer_size = 65535,
     args_no_tcp_nodelay = False, args_block_loopback = True, args_block_direct_ip = False, args_block_private_ips = False,
     args_max_streams = 0, args_max_frame_size = 0, args_password = Some ''pw'', args_prod = True, args_config = None,
     args_log_level = None, args_log_format = None, args_max_connections = None, args_idle_timeout_secs = Some 0,
     args_max_connections_per_ip = None, args_connection_window_secs = None, args_ws_ping_interval_secs = None,
     args_ws_pong_timeout_secs = None, args_tcp_keepalive_secs = None\<rparr>"

definition no_files :: "unit file_system" where
  "no_files = \<lparr>fs_read_to_string = (\<lambda>_ w. (Inl ''no file'', w)), fs_from_str = (\<lambda>_. Inl ''no value'')\<rparr>"


text \<open>
  An attached short option such as \<^verbatim>\<open>-b127.0.0.1:80\<close> is not recognised as explicit: with a configuration file that
  names an address, the address of the command line is ignored.
\<close>

lemma attached_bind_ignored:
  assumes "args_config args = Some path" "\<forall>a \<in> set argv. a \<noteq> ''-b'' \<and> \<not> starts_with a ''--bind''"
    "load_json_config fs path w = (Inr json, w')" "js_bind json = Some s" "parse_SocketAddr s = Some addr"
  shows "bind_addr args argv fs w = (Inr addr, w')"
  using assms by (auto simp: bind_addr_def given_def)

end
