(* ===== verification/Spec2Isabelle.thy ===== *)
theory Spec2Isabelle
  imports Server Config Security Stream_Table Ws_Upgrade Handshake Conn_Answers Accept Workers Startup
begin

text \<open>
  A verification of shrimpwisp, a Wisp proxy server: clients open many TCP and UDP streams over one WebSocket, and
  the server connects each stream to a destination and relays its data.

  \<^bold>\<open>The program and its parts\<close>

  \<^item> \<^verbatim>\<open>src/main.rs\<close> builds the configuration from the command line and a JSON file and starts the workers
    (theory \<open>Startup\<close>; the configuration itself, \<^verbatim>\<open>src/server/config.rs\<close>, is theory \<open>Config\<close>).
  \<^item> \<^verbatim>\<open>src/server/mod.rs\<close> starts the worker threads with their listeners (theory \<open>Workers\<close>) and has the accept loop of a
    worker with its limits (theory \<open>Accept\<close>; joined with the connections it spawns, theory \<open>Server\<close>).
  \<^item> \<^verbatim>\<open>src/ws/upgrade.rs\<close> and \<^verbatim>\<open>vendor/fastwebsockets/src/upgrade.rs\<close> turn an HTTP request into a WebSocket
    (theory \<open>Ws_Upgrade\<close>).
  \<^item> \<^verbatim>\<open>src/server/connection.rs\<close> serves one client: the handshake with authentication (\<open>Handshake\<close>), the handlers of
    inbound frames, CONNECT, DATA and control events (\<open>Conn_Handlers\<close>), the tasks it spawns and its main loop
    (\<open>Conn_Loop\<close>), \<open>handle_connection\<close> from the upgrade to the loop (\<open>Connection\<close>), the non-blocking writes to backends (\<open>Backend_Write\<close>), the writers towards the client
    (\<open>Ws_Writer\<close>), and name resolution over the cache of \<^verbatim>\<open>src/server/dns.rs\<close> (\<open>Dns\<close>).
  \<^item> \<^verbatim>\<open>src/proxy/stream.rs\<close> holds the streams and their table (\<open>Stream_Table\<close>), \<^verbatim>\<open>src/server/security.rs\<close> the egress
    policy and the real client address (\<open>Security\<close>, over the addresses of \<open>Net_Addr\<close>), \<^verbatim>\<open>src/protocol\<close> the packets
    (\<open>Protocol_Types\<close>, \<open>Wisp_Frame\<close>).
  \<^item> \<^verbatim>\<open>vendor/fastwebsockets/src\<close> has the WebSocket frames (\<open>Ws_Frame\<close>), the masking routines (\<open>Ws_Mask\<close>) and the readers
    (\<open>Ws_Reader\<close>).

  A worker accepts a socket, the connection task upgrades it, shakes hands, and enters the loop.  The loop reads
  packets, changes the stream table, writes to backends and to the client, and exchanges control events and
  data frames over two bounded channels with the tasks that connect to backends and read from them.

  \<^bold>\<open>How it is modelled\<close>

  Structs are records, enums are datatypes, machine integers that can wrap are words, \<^verbatim>\<open>usize\<close> is \<^typ>\<open>nat\<close>, instants
  and durations are nanoseconds in \<^typ>\<open>nat\<close>.  Errors are the left values of sums.  A function that touches the outside
  takes and returns a world of arbitrary type, and the system calls are arguments: \<open>'w env\<close> for sockets, \<open>'w net\<close> for the
  clock, the resolver and connections, \<open>link\<close> for what one accepted socket and hyper bring.  What the theorems need of them is stated as hypotheses such as \<open>io_ok\<close> and
  \<open>resolver_ok\<close>, and the witnesses instantiate them with scripted ones.  bcrypt, ipnet, hyper, SHA-1, clap and
  serde are parameters in the same way.  Cancellation flags, which are shared, are indices into a store of cells.

  The connection is a state machine.  \<open>loop_step\<close> is one turn of the main loop (the tight inner loop, the drain
  phases, or one branch of the biased select), \<open>task_step\<close> one step of a spawned task between two awaits, and
  \<open>conn_step\<close> interleaves them with arriving bytes and a changing outside world.  A handler runs without
  interruption; where it awaits its own full channel or panics (a clock overflow among them), the loop is \<open>Halted\<close>.
  An error or a halt keeps the state in which it happened.

  \<^bold>\<open>What is shown\<close>

  \<^item> \<open>Conn_Life\<close> is an abstract machine of stream lifecycles with its invariants, proved through the locale
    \<open>life_invariant\<close>; \<open>Conn_Refine\<close> shows that every step of a running connection is a sequence of its steps.  \<open>Conn_Theorems\<close>
    transfers the invariants to all reachable states: egress policy, stream limit, pending data and credits,
    cancellation, and that no CONNECT is forgotten.  \<open>Conn_Answers\<close> has the outcomes of CONNECT, the exact number of
    CONTINUE packets, the fairness of the inner loop, and a stale connection that is adopted by a reused identifier.
  \<^item> \<open>Stream_Table\<close>: the hybrid table implements a bounded finite map (locale \<open>stream_store\<close>).  \<open>Backend_Write\<close>: a backend
    receives the client's bytes in order.  \<open>Ws_Writer\<close>: the client receives the frames in order.
  \<^item> \<open>Wisp_Frame\<close>, \<open>Ws_Frame\<close>, \<open>Ws_Reader\<close>, \<open>Ws_Mask\<close>: round trips, independence of chunking, agreement of the readers and
    of the vectorised masking with the bytewise one, and what is rejected.
  \<^item> \<open>Handshake\<close>: the answers to the first frame, the credentials, and that the handshake ends.  \<open>Ws_Upgrade\<close>: which request
    is upgraded and served.  \<open>Connection\<close>: the authentication gate over the bytes a client has sent, and that the
    bytes after the handshake reach the loop complete, and in order unless both hyper and the reader hold some of them.
  \<^item> \<open>Config\<close>, \<open>Security\<close>, \<open>Dns\<close>, \<open>Accept\<close>, \<open>Workers\<close>, \<open>Startup\<close>: filters, address policy, freshness of the cache, connection
    and rate limits over every run, the listeners of the workers and which of their failures end the process,
    and the precedence of settings.
  \<^item> This theory composes the parts: from \<open>main\<close> over the accept loop and \<open>handle_connection\<close> to the sockets, a server started
    with a blocking flag never connects to a blocked address.

  \<^bold>\<open>Bounds and fuel\<close>

  The recursive definitions terminate by structure or by a measure on their input.  The partial ones, such as
  the write loops of \<open>Ws_Frame\<close>, return an option, and their theorems show that they return on a socket that makes
  progress.  The constants 128 (early packets), 256 and 4096 (channels), 8192 (direct index) are those of the code.

  \<^bold>\<open>Not modelled\<close>

  \<^item> Tracing (\<open>main\<close> ends with the arguments of the call that starts the workers, after its log lines), and the options of backend sockets, which are part of the calls that yield the socket.
  \<^item> Two tasks of one worker share only the DNS cache; other connections appear as changes of it between steps and during
    lookups.  Within one handler the await points are not interleaved with the connection's own tasks.
  \<^item> Message limits of $2^{63}$ and more, with which the sum of header size and payload length, in \<^verbatim>\<open>usize\<close>, or the reservation
    of the buffer could fail; \<open>Ws_Reader\<close> adds in \<^typ>\<open>nat\<close>.
  \<^item> The reads of hyper before the upgrade: \<open>link\<close> has the requests, and the bytes that arrive after them.
  \<^item> The fragment collector, the client handshake and the remaining wrappers of the vendored WebSocket library, which the
    server does not call; deserialisation of the text of the configuration file (a parameter) and parsing of the command
    line.
\<close>

section \<open>From the command line to the sockets\<close>

text \<open>C4. The blocking flags of the command line hold for every destination.  A server is started with given arguments,
  whatever its configuration file says; one of its workers accepts a socket, whatever the client sends, and the
  connection reaches its loop.  Then in every later state in which it runs, a task that connects to an address
  and a UDP stream that sends to one never have the unspecified address; with the flag that blocks private
  addresses never a private or link-local one; and with the flag that blocks loopback never a loopback address.\<close>

theorem blocked_destinations_unreachable:
  assumes "main args argv schedulable sys fs v = (Inr st, v')"
    and "sh_config sh = sh_config (fst (accept_start parse_net net_new (start_config st)))"
    and "accept_client K X sh peer_addr now wk w = (Some (responses, Serving L0), wk')"
    and "(conn_step (conn_ctx K sh X))\<^sup>*\<^sup>* L0 L" "running L"
    and "ConnectTask sid addr f opts \<in> set (c_tasks (l_conn L)) \<or> ConnectWait sid addr f opts \<in> set (c_tasks (l_conn L)) \<or>
      StreamTable_get_mut sid (c_table (l_conn L)) = Some (ProxyUdp u) \<and> addr = udp_dest_addr u"
  shows "\<not> is_unspecified (sa_ip addr) \<and>
    (args_block_private_ips args \<longrightarrow> \<not> is_private (sa_ip addr) \<and> \<not> is_link_local (sa_ip addr)) \<and>
    (args_block_loopback args \<longrightarrow> \<not> is_loopback (sa_ip addr))"
proof -
  have "\<not> is_ip_blocked (sa_ip addr) (start_config st)"
    using reachable_allowed [OF accept_client_reachable [OF assms(3,4)] assms(5,6)] assms(2)
    by (simp add: allowed_def conn_ctx_def accept_start_def)
  moreover obtain base where "start_config st = apply_overrides args argv base"
    using main_ok [OF assms(1)] by metis
  ultimately show ?thesis
    by (auto simp: is_ip_blocked_def overrides_policy split: if_splits)
qed

definition strict_args :: Args where
  "strict_args = demo_args\<lparr>args_block_private_ips := True, args_idle_timeout_secs := None, args_password := None, args_prod := False\<rparr>"

lemma strict_start:
  "\<exists>st. main strict_args [''shrimpwisp''] [0, 1] None no_files () = (Inr st, ()) \<and> start_config st = demo_config"
proof -
  have "apply_overrides strict_args [''shrimpwisp''] ServerConfig_default = demo_config"
    by (simp add: apply_overrides_def strict_args_def demo_args_def on_flag_def demo_config_def ServerConfig_default_def)
  then show ?thesis
    by (simp add: main_def base_config_def bind_addr_def workers_def Let_def strict_args_def demo_args_def)
      (simp add: demo_config_def ServerConfig_default_def)
qed

text \<open>A client whose first message is a CONNECT.\<close>

definition demo_shared :: "unit shared" where
  "demo_shared = fst (accept_start (\<lambda>_. None) (\<lambda>_ _. None) demo_config)"

lemma connect_served:
  "\<exists>responses L0 wk' opts. accept_client (demo_link sample_request (in_pieces (wire (Connect 1 demo_connect)))) demo_ctx demo_shared
     \<lparr>sa_ip = V4 (Ipv4 1 2 3 4), sa_port = 9\<rparr> 5 worker_new (script_start []) = (Some (responses, Serving L0), wk') \<and>
     running L0 \<and> ConnectTask 1 demo_addr 0 opts \<in> set (c_tasks (l_conn L0))"
proof -
  let ?p = "wire (Connect 1 demo_connect)"
  have "\<not> is_auth_required demo_config"
    by (simp add: is_auth_required_def demo_config_def ServerConfig_default_def)
  then have "verdict (\<lambda>_ _. None) demo_config (parse_wisp_frame ?p) = None"
    by (simp only: demo_frame) (simp add: verdict_def)
  moreover have "length ?p \<le> 125" "\<not> is_valid_info ?p"
    by (simp_all add: demo_connect_def is_valid_info_def as_bytes_def)
  ultimately obtain responses cs read_buf rh w rest where run: "demo_handle demo_config sample_request (in_pieces ?p) =
      (responses, Serving ((loop_start (link_ctx demo_config) cs (DnsCache_new demo_config) (Some ?p) read_buf rh w)
        \<lparr>l_inbound := rest\<rparr>))" (is "_ = (_, Serving ?L)")
    using demo_serving_v2 [of demo_config ?p] by auto
  have ctx: "link_ctx demo_config = demo_ctx" "conn_ctx (demo_link sample_request (in_pieces ?p)) demo_shared demo_ctx = demo_ctx"
    by (simp_all add: link_ctx_def conn_ctx_def demo_ctx_def demo_shared_def accept_start_def demo_link_def yield_limit_def)
  have "running ?L" "\<exists>opts. ConnectTask 1 demo_addr 0 opts \<in> set (c_tasks (l_conn ?L))"
    using demo_loop(1,2) [of cs read_buf rh w] by (auto simp: ctx running_def)
  moreover have "accept_conn demo_config ip 5 worker_new = (True, worker_new\<lparr>wk_conn_count := 1\<rparr>)" for ip
    by (simp add: accept_conn_def rate_limit_def demo_config_def ServerConfig_default_def worker_new_def)
  ultimately show ?thesis
    using run unfolding accept_client_def ctx demo_handle_def
    by (auto simp: demo_shared_def accept_start_def demo_link_def demo_config_def ServerConfig_default_def)
qed

theorem blocked_destinations_unreachable_witness:
  "\<exists>st responses L0 wk' opts. main strict_args [''shrimpwisp''] [0, 1] None no_files () = (Inr st, ()) \<and>
     sh_config demo_shared = start_config st \<and>
     accept_client (demo_link sample_request (in_pieces (wire (Connect 1 demo_connect)))) demo_ctx demo_shared
       \<lparr>sa_ip = V4 (Ipv4 1 2 3 4), sa_port = 9\<rparr> 5 worker_new (script_start []) = (Some (responses, Serving L0), wk') \<and>
     ConnectTask 1 demo_addr 0 opts \<in> set (c_tasks (l_conn L0)) \<and>
     \<not> is_private (sa_ip demo_addr) \<and> \<not> is_loopback (sa_ip demo_addr)"
proof -
  obtain st where st: "main strict_args [''shrimpwisp''] [0, 1] None no_files () = (Inr st, ())"
    "start_config st = demo_config"
    using strict_start by blast
  then have config: "sh_config demo_shared = sh_config (fst (accept_start (\<lambda>_. None :: unit option) (\<lambda>_ _. None) (start_config st)))"
    by (simp add: demo_shared_def)
  obtain responses L0 wk' opts where run: "accept_client (demo_link sample_request (in_pieces (wire (Connect 1 demo_connect)))) demo_ctx
     demo_shared \<lparr>sa_ip = V4 (Ipv4 1 2 3 4), sa_port = 9\<rparr> 5 worker_new (script_start []) = (Some (responses, Serving L0), wk')"
     "running L0" "ConnectTask 1 demo_addr 0 opts \<in> set (c_tasks (l_conn L0))"
    using connect_served by metis
  have "args_block_private_ips strict_args" "args_block_loopback strict_args"
    by (simp_all add: strict_args_def demo_args_def)
  with blocked_destinations_unreachable [OF st(1) config run(1) rtranclp.rtrancl_refl run(2) disjI1 [OF run(3)]]
  have "\<not> is_private (sa_ip demo_addr) \<and> \<not> is_loopback (sa_ip demo_addr)"
    by blast
  moreover have "sh_config demo_shared = start_config st"
    using st(2) by (simp add: demo_shared_def accept_start_def)
  ultimately show ?thesis
    using st(1) run(1,3) by blast
qed

end
